(* ===== verification/Prelude.thy ===== *)
theory Prelude
  imports Main "HOL-Library.Word" "HOL-Library.Monad_Syntax"
begin

text \<open>
  What every component shares: the machine types of the C sources, C arrays and C
  strings, byte order, and the generic lemmas on lists and words the components use.

  Conventions.  A C \<open>int\<close> is the type \<open>i32\<close>, a 32-bit word: where the source converts it to an
  unsigned type the word is used as it is, where the source compares it as a signed number
  the model writes \<open>sint\<close>.  A pointer argument that the source tests for NULL is an \<open>option\<close>.
  A function that reads or writes memory returns an \<open>option\<close>; \<open>None\<close> is an access outside
  the object (a fault), so a theorem that a function returns \<open>Some\<close> says that it stays in bounds.
\<close>

unbundle bit_operations_syntax

section \<open>Machine types\<close>

type_synonym u4 = "4 word"
type_synonym u8 = "8 word"
type_synonym u16 = "16 word"
type_synonym u32 = "32 word"
type_synonym u64 = "64 word"
type_synonym i32 = "32 word"
type_synonym s64 = "64 word"
type_synonym ktime = "64 word"

named_theorems c_array "reads and writes of C arrays that are in bounds"
named_theorems wf_intros "well-formedness facts of the components"

lemma unat_increment: "a < (b :: u32) \<Longrightarrow> unat (a + 1) = Suc (unat a)"
  using unsigned_less [of b, where 'a = nat] by (simp add: word_less_nat_alt unat_word_ariths)

lemma increment_le: "a < (b :: u32) \<Longrightarrow> a + 1 \<le> b"
  by (simp add: word_le_nat_alt unat_increment) (simp add: word_less_nat_alt)

lemma unat_decrement: "0 < unat (a :: u32) \<Longrightarrow> unat (a - 1) = unat a - 1"
  by (metis unat_gt_0 unat_minus_one)

section \<open>C arrays\<close>

definition c_read :: "'a list \<Rightarrow> nat \<Rightarrow> 'a option" where
  "c_read xs i = (if i < length xs then Some (xs ! i) else None)"

definition c_write :: "'a list \<Rightarrow> nat \<Rightarrow> 'a \<Rightarrow> 'a list option" where
  "c_write xs i x = (if i < length xs then Some (xs[i := x]) else None)"

lemma c_read_in_bounds [c_array]: "i < length xs \<Longrightarrow> c_read xs i = Some (xs ! i)"
  by (simp add: c_read_def)

lemma c_read_out_of_bounds: "length xs \<le> i \<Longrightarrow> c_read xs i = None"
  by (simp add: c_read_def)

lemma c_read_eq_Some_iff: "c_read xs i = Some x \<longleftrightarrow> i < length xs \<and> xs ! i = x"
  by (auto simp: c_read_def)

lemma c_write_in_bounds [c_array]: "i < length xs \<Longrightarrow> c_write xs i x = Some (xs[i := x])"
  by (simp add: c_write_def)

lemma c_write_out_of_bounds: "length xs \<le> i \<Longrightarrow> c_write xs i x = None"
  by (simp add: c_write_def)

lemma c_write_eq_Some_iff: "c_write xs i x = Some ys \<longleftrightarrow> i < length xs \<and> ys = xs[i := x]"
  by (auto simp: c_write_def)

text \<open>A \<open>for\<close> loop over a list of indices, whose body may fault.\<close>

fun fold_option :: "('i \<Rightarrow> 's \<Rightarrow> 's option) \<Rightarrow> 'i list \<Rightarrow> 's \<Rightarrow> 's option" where
  "fold_option f [] s = Some s"
| "fold_option f (i # rest) s = Option.bind (f i s) (fold_option f rest)"

lemma fold_option_append:
  "fold_option f (xs @ ys) s = Option.bind (fold_option f xs s) (fold_option f ys)"
  by (induction xs arbitrary: s) (auto split: bind_split)

lemma fold_option_snoc: "fold_option f (xs @ [x]) s = Option.bind (fold_option f xs s) (f x)"
proof -
  have "fold_option f [x] = f x"
  proof
    show "fold_option f [x] t = f x t" for t by (cases "f x t") simp_all
  qed
  then show ?thesis by (simp only: fold_option_append)
qed

lemma fold_option_invariant:
  assumes "fold_option f xs s = Some t" and "I s"
    and "\<And>i s t. i \<in> set xs \<Longrightarrow> I s \<Longrightarrow> f i s = Some t \<Longrightarrow> I t"
  shows "I t"
  using assms
proof (induction xs arbitrary: s)
  case (Cons i xs)
  then obtain u where u: "f i s = Some u" "fold_option f xs u = Some t"
    by (auto split: bind_splits)
  show ?case
    by (rule Cons.IH [OF u(2)]) (use Cons.prems u(1) in auto)
qed simp

lemma fold_option_total:
  assumes "I s"
    and "\<And>i s. i \<in> set xs \<Longrightarrow> I s \<Longrightarrow> \<exists>t. f i s = Some t \<and> I t"
  shows "\<exists>t. fold_option f xs s = Some t \<and> I t"
  using assms
proof (induction xs arbitrary: s)
  case (Cons i xs)
  then obtain u where u: "f i s = Some u" "I u" by force
  have "\<exists>t. fold_option f xs u = Some t \<and> I t"
    by (rule Cons.IH [OF u(2)]) (use Cons.prems in auto)
  with u(1) show ?case by simp
qed simp

section \<open>C strings\<close>

text \<open>
  A C string is the list of its characters before the NUL.  \<open>c_strncmp\<close> is \<open>strncmp\<close>: the
  difference of the first unequal bytes among the first \<open>n\<close>, a string's end counting as 0.
\<close>

fun c_strncmp :: "nat \<Rightarrow> string \<Rightarrow> string \<Rightarrow> int" where
  "c_strncmp 0 cs ds = 0"
| "c_strncmp (Suc n) [] [] = 0"
| "c_strncmp (Suc n) [] (d # ds) = - of_char d"
| "c_strncmp (Suc n) (c # cs) [] = of_char c"
| "c_strncmp (Suc n) (c # cs) (d # ds) =
     (if c = d then c_strncmp n cs ds else of_char c - of_char d)"

definition no_NUL :: "string \<Rightarrow> bool" where
  "no_NUL cs \<longleftrightarrow> CHR 0x00 \<notin> set cs"

lemma of_char_eq_0_iff: "(of_char c :: int) = 0 \<longleftrightarrow> c = CHR 0x00"
proof -
  have "(of_char (CHR 0x00) :: int) = 0" by simp
  then show ?thesis by (metis of_char_eq_iff)
qed

lemma c_strncmp_eq_0_iff:
  "no_NUL cs \<Longrightarrow> no_NUL ds \<Longrightarrow> c_strncmp n cs ds = 0 \<longleftrightarrow> take n cs = take n ds"
  by (induction n cs ds rule: c_strncmp.induct) (auto simp: no_NUL_def of_char_eq_0_iff)

section \<open>Decimal numerals\<close>

text \<open>\<open>%d\<close> and \<open>%u\<close> of \<open>printf\<close> on a non-negative number.\<close>

fun show_nat :: "nat \<Rightarrow> string" where
  "show_nat n =
     (if n < 10 then [char_of (48 + n)] else show_nat (n div 10) @ [char_of (48 + n mod 10)])"

declare show_nat.simps [simp del]

section \<open>Byte order\<close>

text \<open>
  \<open>ntohs\<close>, \<open>ntohl\<close> and \<open>htons\<close> on a little-endian host (the x86 machines the module
  and the generator run on): the bytes are swapped.
\<close>

definition ntohs :: "u16 \<Rightarrow> u16" where
  "ntohs x = push_bit 8 x OR drop_bit 8 x"

definition htons :: "u16 \<Rightarrow> u16" where
  "htons x = push_bit 8 x OR drop_bit 8 x"

definition ntohl :: "u32 \<Rightarrow> u32" where
  "ntohl x = push_bit 24 x OR (push_bit 8 x AND 0x00FF0000)
     OR (drop_bit 8 x AND 0x0000FF00) OR drop_bit 24 x"

lemma ntohs_htons [simp]: "ntohs (htons x) = x"
  unfolding ntohs_def htons_def
  by (rule bit_word_eqI) (auto simp: bit_simps)

end
