(* ===== verification/PIAS_Flow.thy ===== *)
theory PIAS_Flow
  imports Prelude
begin

text \<open>
  The flow table (\<open>PIAS/flow.h\<close>, \<open>PIAS/flow.c\<close>): per-flow information, the hash table of linked
  lists, and its operations.  A linked list is the list of its entries, a pointer to an entry is
  its bucket and its position there.  \<open>vmalloc\<close> and \<open>kmalloc\<close> are arguments (the memory they
  return, or whether they succeed).  Spinlocks guard the operations and hold no data.
\<close>

section \<open>Data\<close>

definition PIAS_HASH_RANGE :: nat where
  "PIAS_HASH_RANGE = 256"

record PIAS_Flow_Info =
  last_copy_time :: ktime
  last_update_time :: ktime
  last_timeout_seq :: u32
  last_seq :: u32
  last_ack :: u32
  bytes_sent :: u32
  timeouts :: u16
  messages :: u16

record PIAS_Flow =
  local_ip :: u32
  remote_ip :: u32
  local_port :: u16
  remote_port :: u16
  info :: PIAS_Flow_Info

record PIAS_Flow_List =
  flows :: "PIAS_Flow list"
  list_len :: u32

record PIAS_Flow_Table =
  flow_lists :: "PIAS_Flow_List list"
  table_size :: i32

type_synonym flow_key = "u32 \<times> u32 \<times> u16 \<times> u16"
type_synonym flow_ptr = "nat \<times> nat"

definition key_of :: "PIAS_Flow \<Rightarrow> flow_key" where
  "key_of f = (local_ip f, remote_ip f, local_port f, remote_port f)"

lemma key_of_info [simp]: "key_of (f\<lparr>info := v\<rparr>) = key_of f"
  by (simp add: key_of_def)

section \<open>Hash and equality\<close>

fun PIAS_Hash_Flow :: "PIAS_Flow option \<Rightarrow> u32" where
  "PIAS_Hash_Flow (Some f) =
     ((drop_bit 24 (local_ip f) + 1) * (drop_bit 24 (remote_ip f) + 1)
      * (ucast (local_port f) + 1) * (ucast (remote_port f) + 1))
     mod of_nat PIAS_HASH_RANGE"
| "PIAS_Hash_Flow None = 0"

fun PIAS_Equal_Flow :: "PIAS_Flow option \<Rightarrow> PIAS_Flow option \<Rightarrow> bool" where
  "PIAS_Equal_Flow (Some f1) (Some f2) =
     (local_ip f1 = local_ip f2 \<and> remote_ip f1 = remote_ip f2 \<and>
      local_port f1 = local_port f2 \<and> remote_port f1 = remote_port f2)"
| "PIAS_Equal_Flow _ _ = False"

section \<open>Initialisation\<close>

definition zero_info :: PIAS_Flow_Info where
  "zero_info =
     \<lparr>last_copy_time = 0, last_update_time = 0, last_timeout_seq = 0, last_seq = 0,
      last_ack = 0, bytes_sent = 0, timeouts = 0, messages = 0\<rparr>"

fun PIAS_Init_Info :: "PIAS_Flow_Info option \<Rightarrow> bool \<times> PIAS_Flow_Info option" where
  "PIAS_Init_Info (Some i) = (True, Some
     (i\<lparr>last_copy_time := 0, last_update_time := 0, last_timeout_seq := 0, last_seq := 0,
        last_ack := 0, bytes_sent := 0, timeouts := 0, messages := 0\<rparr>))"
| "PIAS_Init_Info None = (False, None)"

fun PIAS_Init_Flow :: "PIAS_Flow option \<Rightarrow> bool \<times> PIAS_Flow option" where
  "PIAS_Init_Flow (Some f) =
     (let f = f\<lparr>local_ip := 0, remote_ip := 0, local_port := 0, remote_port := 0\<rparr>
      in (True, map_option (\<lambda>i. f\<lparr>info := i\<rparr>) (snd (PIAS_Init_Info (Some (info f))))))"
| "PIAS_Init_Flow None = (False, None)"

fun PIAS_Init_List :: "PIAS_Flow_List option \<Rightarrow> bool \<times> PIAS_Flow_List option" where
  "PIAS_Init_List (Some fl) = (True, Some (fl\<lparr>list_len := 0, flows := []\<rparr>))"
| "PIAS_Init_List None = (False, None)"

text \<open>One pass of a loop over the buckets that applies a list operation to bucket \<open>i\<close>.\<close>

definition at_bucket ::
  "(PIAS_Flow_List option \<Rightarrow> bool \<times> PIAS_Flow_List option) \<Rightarrow> nat \<Rightarrow>
   PIAS_Flow_List list \<Rightarrow> PIAS_Flow_List list option" where
  "at_bucket g i fls = do {
     fl \<leftarrow> c_read fls i;
     fl' \<leftarrow> snd (g (Some fl));
     c_write fls i fl'
   }"

text \<open>
  \<open>PIAS_Init_Table\<close>: \<open>buf\<close> is what \<open>vmalloc\<close> returned, 256 lists with arbitrary contents or
  NULL.  The list initialisation of the loop cannot fail: its argument is not NULL.
\<close>

fun PIAS_Init_Table ::
  "PIAS_Flow_List list option \<Rightarrow> PIAS_Flow_Table option \<Rightarrow> (bool \<times> PIAS_Flow_Table option) option" where
  "PIAS_Init_Table (Some buf) (Some ft) = do {
     fls \<leftarrow> fold_option (at_bucket PIAS_Init_List) [0..<PIAS_HASH_RANGE] buf;
     Some (True, Some (ft\<lparr>flow_lists := fls, table_size := 0\<rparr>))
   }"
| "PIAS_Init_Table _ ft = Some (False, ft)"

section \<open>Search\<close>

fun search_loop :: "PIAS_Flow list \<Rightarrow> PIAS_Flow \<Rightarrow> nat \<Rightarrow> nat option" where
  "search_loop [] f j = None"
| "search_loop (g # gs) f j =
     (if PIAS_Equal_Flow (Some g) (Some f) then Some j else search_loop gs f (Suc j))"

fun PIAS_Search_List :: "PIAS_Flow_List option \<Rightarrow> PIAS_Flow option \<Rightarrow> nat option" where
  "PIAS_Search_List (Some fl) (Some f) = search_loop (flows fl) f 0"
| "PIAS_Search_List _ _ = None"

fun PIAS_Search_Table ::
  "PIAS_Flow_Table option \<Rightarrow> PIAS_Flow option \<Rightarrow> flow_ptr option option" where
  "PIAS_Search_Table (Some ft) (Some f) = do {
     let index = unat (PIAS_Hash_Flow (Some f));
     fl \<leftarrow> c_read (flow_lists ft) index;
     Some (map_option (Pair index) (PIAS_Search_List (Some fl) (Some f)))
   }"
| "PIAS_Search_Table _ _ = Some None"

text \<open>Reading and writing the entry a pointer of \<open>PIAS_Search_Table\<close> points to.\<close>

definition flow_load :: "PIAS_Flow_Table \<Rightarrow> flow_ptr \<Rightarrow> PIAS_Flow option" where
  "flow_load ft p = do {
     fl \<leftarrow> c_read (flow_lists ft) (fst p);
     c_read (flows fl) (snd p)
   }"

definition flow_store :: "PIAS_Flow_Table \<Rightarrow> flow_ptr \<Rightarrow> PIAS_Flow_Info \<Rightarrow> PIAS_Flow_Table option" where
  "flow_store ft p v = do {
     fl \<leftarrow> c_read (flow_lists ft) (fst p);
     f \<leftarrow> c_read (flows fl) (snd p);
     fs \<leftarrow> c_write (flows fl) (snd p) (f\<lparr>info := v\<rparr>);
     fls \<leftarrow> c_write (flow_lists ft) (fst p) (fl\<lparr>flows := fs\<rparr>);
     Some (ft\<lparr>flow_lists := fls\<rparr>)
   }"

section \<open>Insert\<close>

fun PIAS_Insert_List ::
  "bool \<Rightarrow> PIAS_Flow_List option \<Rightarrow> PIAS_Flow option \<Rightarrow> bool \<times> PIAS_Flow_List option" where
  "PIAS_Insert_List kmalloc_ok (Some fl) (Some f) =
     (case PIAS_Search_List (Some fl) (Some f) of
        Some _ \<Rightarrow> (False, Some fl)
      | None \<Rightarrow>
          if \<not> kmalloc_ok then (False, Some fl)
          else (True, Some (fl\<lparr>flows := flows fl @ [f], list_len := list_len fl + 1\<rparr>)))"
| "PIAS_Insert_List kmalloc_ok fl _ = (False, fl)"

fun PIAS_Insert_Table ::
  "bool \<Rightarrow> PIAS_Flow_Table option \<Rightarrow> PIAS_Flow option \<Rightarrow> (bool \<times> PIAS_Flow_Table option) option" where
  "PIAS_Insert_Table kmalloc_ok (Some ft) (Some f) = do {
     let index = unat (PIAS_Hash_Flow (Some f));
     fl \<leftarrow> c_read (flow_lists ft) index;
     let (ok, flp) = PIAS_Insert_List kmalloc_ok (Some fl) (Some f);
     fl' \<leftarrow> flp;
     fls \<leftarrow> c_write (flow_lists ft) index fl';
     let ft' = ft\<lparr>flow_lists := fls\<rparr>;
     if ok then Some (True, Some (ft'\<lparr>table_size := table_size ft' + 1\<rparr>))
     else Some (False, Some ft')
   }"
| "PIAS_Insert_Table kmalloc_ok ft _ = Some (False, ft)"

section \<open>Delete\<close>

fun delete_loop :: "PIAS_Flow list \<Rightarrow> PIAS_Flow \<Rightarrow> (u32 \<times> PIAS_Flow list) option" where
  "delete_loop [] f = None"
| "delete_loop (g # gs) f =
     (if PIAS_Equal_Flow (Some g) (Some f) then Some (max 1 (bytes_sent (info g)), gs)
      else map_option (\<lambda>(r, gs'). (r, g # gs')) (delete_loop gs f))"

fun PIAS_Delete_List ::
  "PIAS_Flow_List option \<Rightarrow> PIAS_Flow option \<Rightarrow> u32 \<times> PIAS_Flow_List option" where
  "PIAS_Delete_List (Some fl) (Some f) =
     (case delete_loop (flows fl) f of
        None \<Rightarrow> (0, Some fl)
      | Some (r, fs) \<Rightarrow> (r, Some (fl\<lparr>flows := fs, list_len := list_len fl - 1\<rparr>)))"
| "PIAS_Delete_List fl _ = (0, fl)"

fun PIAS_Delete_Table ::
  "PIAS_Flow_Table option \<Rightarrow> PIAS_Flow option \<Rightarrow> (u32 \<times> PIAS_Flow_Table option) option" where
  "PIAS_Delete_Table (Some ft) (Some f) = do {
     let index = unat (PIAS_Hash_Flow (Some f));
     fl \<leftarrow> c_read (flow_lists ft) index;
     let (result, flp) = PIAS_Delete_List (Some fl) (Some f);
     fl' \<leftarrow> flp;
     fls \<leftarrow> c_write (flow_lists ft) index fl';
     let ft' = ft\<lparr>flow_lists := fls\<rparr>;
     if result > 0 then Some (result, Some (ft'\<lparr>table_size := table_size ft' - 1\<rparr>))
     else Some (result, Some ft')
   }"
| "PIAS_Delete_Table ft _ = Some (0, ft)"

section \<open>Clear and exit\<close>

fun clear_loop :: "PIAS_Flow list \<Rightarrow> u32 \<Rightarrow> PIAS_Flow list \<times> u32" where
  "clear_loop [] n = ([], n)"
| "clear_loop (g # gs) n = clear_loop gs (n - 1)"

fun PIAS_Clear_List :: "PIAS_Flow_List option \<Rightarrow> bool \<times> PIAS_Flow_List option" where
  "PIAS_Clear_List (Some fl) =
     (if list_len fl > 0 then
        (let (fs, n) = clear_loop (flows fl) (list_len fl)
         in (True, Some (fl\<lparr>flows := fs, list_len := n\<rparr>)))
      else (True, Some fl))"
| "PIAS_Clear_List None = (False, None)"

fun PIAS_Clear_Table :: "PIAS_Flow_Table option \<Rightarrow> (bool \<times> PIAS_Flow_Table option) option" where
  "PIAS_Clear_Table (Some ft) = do {
     fls \<leftarrow> fold_option (at_bucket PIAS_Clear_List) [0..<PIAS_HASH_RANGE] (flow_lists ft);
     Some (True, Some (ft\<lparr>flow_lists := fls, table_size := 0\<rparr>))
   }"
| "PIAS_Clear_Table None = Some (False, None)"

text \<open>After \<open>vfree\<close> the array is gone: an empty list, on which every access faults.\<close>

definition PIAS_Exit_Table :: "PIAS_Flow_Table option \<Rightarrow> (bool \<times> PIAS_Flow_Table option) option" where
  "PIAS_Exit_Table ft = do {
     (ok, ft') \<leftarrow> PIAS_Clear_Table ft;
     if ok then Some (True, map_option (\<lambda>t. t\<lparr>flow_lists := []\<rparr>) ft')
     else Some (False, ft')
   }"

section \<open>Printing\<close>

text \<open>
  What the print functions hand to \<open>printk\<close>, line by line: the fields a line shows, not its
  formatting.
\<close>

datatype log_line =
    Log_NULL string
  | Log_flow "string option" PIAS_Flow
  | Log_table
  | Log_list nat
  | Log_total i32

fun PIAS_Print_Flow :: "PIAS_Flow option \<Rightarrow> string option \<Rightarrow> log_line list" where
  "PIAS_Print_Flow None operation = [Log_NULL ''PIAS_Print_Flow'']"
| "PIAS_Print_Flow (Some f) operation = [Log_flow operation f]"

fun PIAS_Print_List :: "PIAS_Flow_List option \<Rightarrow> log_line list" where
  "PIAS_Print_List None = [Log_NULL ''PIAS_Print_List'']"
| "PIAS_Print_List (Some fl) = concat (map (\<lambda>f. PIAS_Print_Flow (Some f) None) (flows fl))"

definition print_bucket :: "PIAS_Flow_List list \<Rightarrow> nat \<Rightarrow> log_line list \<Rightarrow> log_line list option" where
  "print_bucket fls i out = do {
     fl \<leftarrow> c_read fls i;
     if list_len fl > 0 then Some (out @ [Log_list i] @ PIAS_Print_List (Some fl)) else Some out
   }"

fun PIAS_Print_Table :: "PIAS_Flow_Table option \<Rightarrow> log_line list option" where
  "PIAS_Print_Table None = Some [Log_NULL ''PIAS_Print_Table'']"
| "PIAS_Print_Table (Some ft) = do {
     out \<leftarrow> fold_option (print_bucket (flow_lists ft)) [0..<PIAS_HASH_RANGE] [Log_table];
     Some (out @ [Log_total (table_size ft)])
   }"

end
