(* ===== verification/PIAS_Flow_Spec.thy ===== *)
theory PIAS_Flow_Spec
  imports PIAS_Flow
begin

text \<open>
  What the flow table promises: its well-formedness, the finite map it stands for, and the
  refinement of each operation by an operation on that map.  The interface the hooks use is the
  locale \<open>flow_interface\<close>, interpreted on the operations of the table.
\<close>

section \<open>Well-formed tables\<close>

definition key_hash :: "flow_key \<Rightarrow> nat" where
  "key_hash k = unat (PIAS_Hash_Flow (Some
     \<lparr>local_ip = fst k, remote_ip = fst (snd k), local_port = fst (snd (snd k)),
      remote_port = snd (snd (snd k)), info = zero_info\<rparr>))"

definition wf_bucket :: "nat \<Rightarrow> PIAS_Flow_List \<Rightarrow> bool" where
  "wf_bucket i fl \<longleftrightarrow>
     list_len fl = of_nat (length (flows fl)) \<and>
     distinct (map key_of (flows fl)) \<and>
     (\<forall>f \<in> set (flows fl). key_hash (key_of f) = i)"

definition num_flows :: "PIAS_Flow_List list \<Rightarrow> nat" where
  "num_flows fls = sum_list (map (\<lambda>fl. length (flows fl)) fls)"

definition wf_table :: "PIAS_Flow_Table \<Rightarrow> bool" where
  "wf_table ft \<longleftrightarrow>
     length (flow_lists ft) = PIAS_HASH_RANGE \<and>
     (\<forall>i < PIAS_HASH_RANGE. wf_bucket i (flow_lists ft ! i)) \<and>
     table_size ft = of_nat (num_flows (flow_lists ft))"

definition bucket_map :: "PIAS_Flow list \<Rightarrow> flow_key \<rightharpoonup> PIAS_Flow_Info" where
  "bucket_map fs = map_of (map (\<lambda>f. (key_of f, info f)) fs)"

text \<open>The map a table stands for.\<close>

definition flow_map :: "PIAS_Flow_Table \<Rightarrow> flow_key \<rightharpoonup> PIAS_Flow_Info" where
  "flow_map ft k = bucket_map (flows (flow_lists ft ! key_hash k)) k"

section \<open>Hash and equality\<close>

lemma PIAS_Hash_Flow_key [simp]: "unat (PIAS_Hash_Flow (Some f)) = key_hash (key_of f)"
  by (simp add: key_hash_def key_of_def)

lemma PIAS_Equal_Flow_key [simp]:
  "PIAS_Equal_Flow (Some f) (Some g) \<longleftrightarrow> key_of f = key_of g"
  by (simp add: key_of_def)

declare PIAS_Hash_Flow.simps(1) [simp del] PIAS_Equal_Flow.simps(1) [simp del]

lemma unat_mod_256: "unat (w mod 256 :: u32) = unat w mod 256"
  by (simp add: unat_mod)

lemma unat_mult_mod_256:
  "unat (a * b :: u32) mod 256 = ((unat a mod 256) * (unat b mod 256)) mod 256"
  by (simp add: unat_word_ariths mod_mod_cancel mod_mult_eq)

lemma unat_add_mod_256:
  "unat (a + 1 :: u32) mod 256 = (unat a + 1) mod 256"
  by (simp add: unat_word_ariths mod_mod_cancel)

lemma hash_product:
  "unat (PIAS_Hash_Flow (Some f)) =
     ((unat (local_ip f) div 2 ^ 24 + 1) * (unat (remote_ip f) div 2 ^ 24 + 1)
      * (unat (local_port f) + 1) * (unat (remote_port f) + 1)) mod 256"
proof -
  have ports: "unat (ucast p :: u32) = unat p" for p :: u16
    by (simp add: unsigned_ucast_eq take_bit_nat_eq_self unsigned_less [THEN order_less_le_trans])
  have ips: "unat (drop_bit 24 w) = unat w div 2 ^ 24" for w :: u32
    by (simp add: drop_bit_eq_div unat_div)
  have "unat (PIAS_Hash_Flow (Some f)) =
     ((unat (drop_bit 24 (local_ip f)) + 1) * (unat (drop_bit 24 (remote_ip f)) + 1)
      * (unat (ucast (local_port f) :: u32) + 1) * (unat (ucast (remote_port f) :: u32) + 1)) mod 256"
    by (simp only: PIAS_Hash_Flow.simps PIAS_HASH_RANGE_def of_nat_numeral unat_mod_256
        unat_mult_mod_256 unat_add_mod_256 mod_mod_trivial mod_mult_eq)
  then show ?thesis by (simp only: ports ips)
qed

lemma key_hash_less [simp]: "key_hash k < PIAS_HASH_RANGE"
  by (simp add: key_hash_def PIAS_Hash_Flow.simps PIAS_HASH_RANGE_def unat_mod)

section \<open>Buckets\<close>

lemma bucket_map_Nil [simp]: "bucket_map [] = Map.empty"
  by (simp add: bucket_map_def)

lemma bucket_map_Cons [simp]: "bucket_map (f # fs) = (bucket_map fs)(key_of f \<mapsto> info f)"
  by (simp add: bucket_map_def)

lemma bucket_map_eq_None_iff: "bucket_map fs k = None \<longleftrightarrow> k \<notin> key_of ` set fs"
  by (induction fs) auto

lemma bucket_map_append_new:
  "key_of f \<notin> key_of ` set fs \<Longrightarrow> bucket_map (fs @ [f]) = (bucket_map fs)(key_of f \<mapsto> info f)"
  by (induction fs) (auto simp: fun_upd_twist)

lemma key_nth_neq: "k \<notin> key_of ` set fs \<Longrightarrow> j < length fs \<Longrightarrow> key_of (fs ! j) \<noteq> k"
  by auto

lemma bucket_map_nth:
  "distinct (map key_of fs) \<Longrightarrow> j < length fs \<Longrightarrow>
   bucket_map fs (key_of (fs ! j)) = Some (info (fs ! j))"
proof (induction fs arbitrary: j)
  case (Cons f fs)
  then show ?case by (cases j) (auto simp: key_nth_neq)
qed simp

lemma bucket_map_update:
  "distinct (map key_of fs) \<Longrightarrow> j < length fs \<Longrightarrow>
   bucket_map (fs[j := (fs ! j)\<lparr>info := v\<rparr>]) = (bucket_map fs)(key_of (fs ! j) \<mapsto> v)"
proof (induction fs arbitrary: j)
  case (Cons f fs)
  then show ?case
    by (cases j) (auto simp: key_nth_neq fun_upd_twist [OF key_nth_neq])
qed simp

lemma search_loop_None:
  "search_loop fs f j = None \<longleftrightarrow> key_of f \<notin> key_of ` set fs"
  by (induction fs arbitrary: j) (auto simp: image_iff)

lemma search_loop_Some:
  "search_loop fs f j = Some i \<Longrightarrow>
   j \<le> i \<and> i < j + length fs \<and> key_of (fs ! (i - j)) = key_of f"
proof (induction fs arbitrary: j)
  case (Cons g gs)
  show ?case
  proof (cases "key_of g = key_of f")
    case False
    with Cons.prems have "search_loop gs f (Suc j) = Some i" by simp
    with Cons.IH [of "Suc j"] show ?thesis 
      by (auto simp: Suc_diff_Suc nth_Cons' diff_Suc split: nat.splits)
  qed (use Cons.prems in auto)
qed simp

lemma delete_loop_None: "delete_loop fs f = None \<longleftrightarrow> key_of f \<notin> key_of ` set fs"
  by (induction fs) (auto simp: image_iff)

lemma delete_loop_Some:
  assumes "delete_loop fs f = Some (r, gs)" and "distinct (map key_of fs)"
  shows "bucket_map gs = (bucket_map fs)(key_of f := None)
    \<and> bucket_map fs (key_of f) \<noteq> None
    \<and> r = max 1 (bytes_sent (the (bucket_map fs (key_of f))))
    \<and> length fs = Suc (length gs)
    \<and> distinct (map key_of gs) \<and> set gs \<subseteq> set fs"
  using assms
proof (induction fs arbitrary: gs)
  case (Cons g fs)
  show ?case
  proof (cases "key_of g = key_of f")
    case True
    then have "bucket_map fs (key_of f) = None"
      using Cons.prems(2) by (auto simp: bucket_map_eq_None_iff)
    then have "(bucket_map fs)(key_of f := None) = bucket_map fs" by (simp add: fun_upd_idem)
    then have "bucket_map fs = (bucket_map (g # fs))(key_of f := None)"
      using True by (simp only: bucket_map_Cons fun_upd_upd)
    moreover have "bucket_map (g # fs) (key_of f) = Some (info g)"
      using True by simp
    ultimately show ?thesis
      using True Cons.prems by (simp del: bucket_map_Cons) auto
  next
    case False
    with Cons.prems(1) obtain gs' where gs: "gs = g # gs'" "delete_loop fs f = Some (r, gs')"
      by (auto split: option.splits)
    from Cons.IH [OF gs(2)] Cons.prems(2) False gs(1) show ?thesis
      by (auto simp: fun_upd_twist)
  qed
qed simp

lemma clear_loop_eq: "clear_loop fs n = ([], n - of_nat (length fs))"
  by (induction fs arbitrary: n) (auto simp: algebra_simps)

lemma wf_bucket_info:
  assumes "wf_bucket i fl" and "j < length (flows fl)"
  shows "wf_bucket i (fl\<lparr>flows := (flows fl)[j := (flows fl ! j)\<lparr>info := w\<rparr>]\<rparr>)"
proof -
  let ?fs = "(flows fl)[j := (flows fl ! j)\<lparr>info := w\<rparr>]"
  have keys: "map key_of ?fs = map key_of (flows fl)"
    using assms(2) by (simp add: map_update list_update_same_conv)
  then have "key_of ` set ?fs = key_of ` set (flows fl)"
    by (metis list.set_map)
  moreover have "\<forall>k \<in> key_of ` set (flows fl). key_hash k = i"
    using assms(1) by (auto simp: wf_bucket_def)
  ultimately have "\<forall>k \<in> key_of ` set ?fs. key_hash k = i" by simp
  with keys assms(1) show ?thesis by (simp add: wf_bucket_def)
qed

lemma wf_bucket_append:
  assumes "wf_bucket i fl" and "key_of f \<notin> key_of ` set (flows fl)" and "key_hash (key_of f) = i"
  shows "wf_bucket i (fl\<lparr>flows := flows fl @ [f], list_len := list_len fl + 1\<rparr>)"
  using assms by (auto simp: wf_bucket_def)

lemma wf_bucket_delete:
  assumes "wf_bucket i fl" and "delete_loop (flows fl) f = Some (r, fs)"
  shows "wf_bucket i (fl\<lparr>flows := fs, list_len := list_len fl - 1\<rparr>)"
  using assms delete_loop_Some [OF assms(2)] by (auto simp: wf_bucket_def)

section \<open>Tables: one bucket changes\<close>

lemma num_flows_update:
  "i < length fls \<Longrightarrow>
   num_flows (fls[i := fl]) + length (flows (fls ! i)) = num_flows fls + length (flows fl)"
proof (induction fls arbitrary: i)
  case (Cons g fls)
  show ?case
  proof (cases i)
    case (Suc k)
    with Cons.prems Cons.IH [of k] show ?thesis by (simp add: num_flows_def)
  qed (simp add: num_flows_def)
qed simp

lemma num_flows_update_of_nat:
  "i < length fls \<Longrightarrow>
   (of_nat (num_flows (fls[i := fl])) :: i32) =
     of_nat (num_flows fls) + of_nat (length (flows fl)) - of_nat (length (flows (fls ! i)))"
proof -
  assume "i < length fls"
  then have "(of_nat (num_flows (fls[i := fl]) + length (flows (fls ! i))) :: i32) =
    of_nat (num_flows fls + length (flows fl))"
    by (simp only: num_flows_update)
  then show ?thesis by (simp add: eq_diff_eq)
qed

text \<open>
  What a bucket operation owes the table: it keeps the bucket well-formed and changes the size
  by as much as the bucket grows or shrinks.
\<close>

lemma wf_table_update [wf_intros]:
  assumes "wf_table ft" and "i < PIAS_HASH_RANGE" and "wf_bucket i fl"
    and "n = table_size ft + of_nat (length (flows fl))
           - of_nat (length (flows (flow_lists ft ! i)))"
  shows "wf_table (ft\<lparr>flow_lists := (flow_lists ft)[i := fl], table_size := n\<rparr>)"
  using assms by (auto simp: wf_table_def num_flows_update_of_nat nth_list_update)

lemma wf_table_update_same [wf_intros]:
  assumes "wf_table ft" and "i < PIAS_HASH_RANGE" and "wf_bucket i fl"
    and "length (flows fl) = length (flows (flow_lists ft ! i))"
  shows "wf_table (ft\<lparr>flow_lists := (flow_lists ft)[i := fl]\<rparr>)"
  using assms by (auto simp: wf_table_def num_flows_update_of_nat nth_list_update)

lemma flow_map_update:
  assumes "wf_table ft" and "wf_bucket (key_hash k) fl"
    and "bucket_map (flows fl) = (bucket_map (flows (flow_lists ft ! key_hash k)))(k := v)"
    and "flow_lists ft' = (flow_lists ft)[key_hash k := fl]"
  shows "flow_map ft' = (flow_map ft)(k := v)"
proof
  fix k' :: flow_key
  have "key_hash k < length (flow_lists ft)"
    using assms(1) by (simp add: wf_table_def)
  then show "flow_map ft' k' = ((flow_map ft)(k := v)) k'"
    using assms(3,4) by (auto simp: flow_map_def nth_list_update)
qed

lemma wf_table_bucket:
  assumes "wf_table ft"
  shows "c_read (flow_lists ft) (key_hash k) = Some (flow_lists ft ! key_hash k)"
    and "wf_bucket (key_hash k) (flow_lists ft ! key_hash k)"
    and "\<And>fl. c_write (flow_lists ft) (key_hash k) fl = Some ((flow_lists ft)[key_hash k := fl])"
  using assms by (auto simp: wf_table_def c_array)

lemma flow_map_None_iff:
  "flow_map ft k = None \<longleftrightarrow> k \<notin> key_of ` set (flows (flow_lists ft ! key_hash k))"
  by (simp add: flow_map_def bucket_map_eq_None_iff)

section \<open>The interface of the hooks\<close>

text \<open>
  The hooks only search, insert and delete flows and write the entry a search found.  \<open>view\<close> is
  the map a store stands for, \<open>outcome v\<close> what deleting an entry with value \<open>v\<close> returns.
\<close>

locale flow_interface =
  fixes inv :: "'t \<Rightarrow> bool"
    and view :: "'t \<Rightarrow> 'k \<rightharpoonup> 'v"
    and key :: "'f \<Rightarrow> 'k"
    and val :: "'f \<Rightarrow> 'v"
    and search :: "'t \<Rightarrow> 'f \<Rightarrow> 'p option option"
    and load :: "'t \<Rightarrow> 'p \<Rightarrow> 'f option"
    and update :: "'t \<Rightarrow> 'p \<Rightarrow> 'v \<Rightarrow> 't option"
    and insert :: "bool \<Rightarrow> 't \<Rightarrow> 'f \<Rightarrow> (bool \<times> 't option) option"
    and delete :: "'t \<Rightarrow> 'f \<Rightarrow> ('r \<times> 't option) option"
    and outcome :: "'v \<Rightarrow> 'r"
    and missing :: 'r
  assumes search_absent: "inv t \<Longrightarrow> view t (key f) = None \<Longrightarrow> search t f = Some None"
    and search_present: "inv t \<Longrightarrow> view t (key f) = Some v \<Longrightarrow>
      \<exists>p g. search t f = Some (Some p) \<and> load t p = Some g \<and> val g = v \<and>
        (\<forall>w. \<exists>t'. update t p w = Some t' \<and> inv t' \<and> view t' = (view t)(key f \<mapsto> w))"
    and insert_absent: "inv t \<Longrightarrow> view t (key f) = None \<Longrightarrow>
      \<exists>t'. insert True t f = Some (True, Some t') \<and> inv t' \<and> view t' = (view t)(key f \<mapsto> val f)"
    and insert_present: "inv t \<Longrightarrow> view t (key f) \<noteq> None \<Longrightarrow> insert ok t f = Some (False, Some t)"
    and insert_no_memory: "inv t \<Longrightarrow> view t (key f) = None \<Longrightarrow> insert False t f = Some (False, Some t)"
    and delete_present: "inv t \<Longrightarrow> view t (key f) = Some v \<Longrightarrow>
      \<exists>t'. delete t f = Some (outcome v, Some t') \<and> inv t' \<and> view t' = (view t)(key f := None)"
    and delete_absent: "inv t \<Longrightarrow> view t (key f) = None \<Longrightarrow> delete t f = Some (missing, Some t)"
begin

text \<open>Insertion on every branch: a key that is there or a failed allocation changes nothing.\<close>

lemma insert_spec:
  assumes "inv t"
  shows "\<exists>t'. insert ok t f = Some (ok \<and> view t (key f) = None, Some t') \<and> inv t' \<and>
    view t' = (if ok \<and> view t (key f) = None then (view t)(key f \<mapsto> val f) else view t)"
  using assms insert_absent [of t f] insert_present [of t f ok] insert_no_memory [of t f]
  by (cases ok; cases "view t (key f)") auto

lemma delete_spec:
  assumes "inv t"
  shows "\<exists>t'. delete t f = Some (case view t (key f) of None \<Rightarrow> missing | Some v \<Rightarrow> outcome v, Some t')
    \<and> inv t' \<and> view t' = (view t)(key f := None)"
  using assms delete_absent [of t f] delete_present [of t f]
  by (cases "view t (key f)") (auto simp: fun_upd_idem)

text \<open>The read-modify-write of the hooks: search, and update the entry that was found.\<close>

lemma modify_spec:
  assumes "inv t"
  shows "\<exists>t'. Option.bind (search t f) (\<lambda>ptr. case ptr of
        None \<Rightarrow> Some (t, None)
      | Some p \<Rightarrow> Option.bind (load t p) (\<lambda>g.
          Option.bind (update t p (h (val g))) (\<lambda>t'. Some (t', Some (h (val g))))))
    = Some (t', map_option h (view t (key f))) \<and> inv t' \<and>
    view t' = (case view t (key f) of None \<Rightarrow> view t | Some v \<Rightarrow> (view t)(key f \<mapsto> h v))"
proof (cases "view t (key f)")
  case None
  with assms show ?thesis by (simp add: search_absent)
next
  case (Some v)
  from search_present [OF assms Some] obtain p g where
    "search t f = Some (Some p)" "load t p = Some g" "val g = v"
    "\<forall>w. \<exists>t'. update t p w = Some t' \<and> inv t' \<and> view t' = (view t)(key f \<mapsto> w)"
    by blast
  moreover from this(4) obtain t' where
    "update t p (h (val g)) = Some t'" "inv t'" "view t' = (view t)(key f \<mapsto> h (val g))"
    by blast
  ultimately show ?thesis using Some by simp
qed

lemma insert_then_search:
  assumes "inv t" and "view t (key f) = None"
  shows "\<exists>t' p g. insert True t f = Some (True, Some t') \<and> search t' f = Some (Some p)
    \<and> load t' p = Some g \<and> val g = val f"
proof -
  from insert_absent [OF assms] obtain t' where
    t': "insert True t f = Some (True, Some t')" "inv t'" "view t' = (view t)(key f \<mapsto> val f)"
    by blast
  from search_present [OF t'(2), of f "val f"] t'(3)
  have "\<exists>p g. search t' f = Some (Some p) \<and> load t' p = Some g \<and> val g = val f"
    by auto
  with t'(1) show ?thesis by blast
qed

lemma insert_then_delete:
  assumes "inv t" and "view t (key f) = None" and "key g = key f"
  shows "\<exists>t' t''. insert True t f = Some (True, Some t') \<and>
    delete t' g = Some (outcome (val f), Some t'') \<and> inv t'' \<and> view t'' = view t"
proof -
  from insert_absent [OF assms(1,2)] obtain t' where
    t': "insert True t f = Some (True, Some t')" "inv t'" "view t' = (view t)(key f \<mapsto> val f)"
    by blast
  from delete_spec [OF t'(2), of g] obtain t'' where
    t'': "delete t' g = Some (outcome (val f), Some t'')" "inv t''" "view t'' = (view t')(key g := None)"
    using t'(3) assms(3) by auto
  have "view t'' = view t"
    using t''(3) t'(3) assms(2,3) by (simp add: fun_upd_idem)
  with t' t'' show ?thesis by blast
qed

end

section \<open>The table provides the interface\<close>

lemma search_table_absent:
  "wf_table ft \<Longrightarrow> flow_map ft (key_of f) = None \<Longrightarrow> PIAS_Search_Table (Some ft) (Some f) = Some None"
  by (simp add: wf_table_bucket flow_map_None_iff search_loop_None Let_def)

lemma search_table_present:
  assumes "wf_table ft" and "flow_map ft (key_of f) = Some v"
  shows "\<exists>p g. PIAS_Search_Table (Some ft) (Some f) = Some (Some p) \<and>
    flow_load ft p = Some g \<and> key_of g = key_of f \<and> info g = v \<and>
    (\<forall>w. \<exists>ft'. flow_store ft p w = Some ft' \<and> wf_table ft' \<and>
           flow_map ft' = (flow_map ft)(key_of f \<mapsto> w))"
proof -
  define i where "i = key_hash (key_of f)"
  define fl where "fl = flow_lists ft ! i"
  from assms(2) obtain j where j: "search_loop (flows fl) f 0 = Some j"
    using flow_map_None_iff [of ft "key_of f"] search_loop_None [of "flows fl" f 0]
    by (auto simp: fl_def i_def)
  then have pos: "j < length (flows fl)" "key_of (flows fl ! j) = key_of f"
    using search_loop_Some [of "flows fl" f 0 j] by auto
  have bucket: "c_read (flow_lists ft) i = Some fl" "wf_bucket i fl" "i < PIAS_HASH_RANGE"
    "i < length (flow_lists ft)"
    using wf_table_bucket [OF assms(1), of "key_of f"] assms(1)
    by (auto simp: i_def fl_def wf_table_def)
  then have "bucket_map (flows fl) (key_of f) = Some (info (flows fl ! j))"
    using pos bucket_map_nth [of "flows fl" j] by (simp add: wf_bucket_def)
  then have v: "info (flows fl ! j) = v"
    using assms(2) by (simp add: flow_map_def fl_def i_def)
  have store: "\<exists>ft'. flow_store ft (i, j) w = Some ft' \<and> wf_table ft' \<and>
           flow_map ft' = (flow_map ft)(key_of f \<mapsto> w)" for w
  proof -
    define fl' where "fl' = fl\<lparr>flows := (flows fl)[j := (flows fl ! j)\<lparr>info := w\<rparr>]\<rparr>"
    define ft' where "ft' = ft\<lparr>flow_lists := (flow_lists ft)[i := fl']\<rparr>"
    have wf: "wf_bucket i fl'"
      using bucket(2) pos(1) by (simp add: fl'_def wf_bucket_info)
    have "wf_table ft'"
      using assms(1) bucket wf unfolding ft'_def
      by (intro wf_table_update_same) (simp_all add: fl'_def fl_def)
    moreover have "bucket_map (flows fl') = (bucket_map (flows fl))(key_of f \<mapsto> w)"
      using bucket(2) pos bucket_map_update [of "flows fl" j w] by (simp add: fl'_def wf_bucket_def)
    then have "flow_map ft' = (flow_map ft)(key_of f \<mapsto> w)"
      using assms(1) wf by (intro flow_map_update [of ft _ fl']) (simp_all add: ft'_def fl_def i_def)
    moreover have "flow_store ft (i, j) w = Some ft'"
      using bucket pos by (simp add: flow_store_def c_array ft'_def fl'_def)
    ultimately show ?thesis by blast
  qed
  have "PIAS_Search_Table (Some ft) (Some f) = Some (Some (i, j))"
    using j bucket(1) by (simp add: i_def Let_def)
  moreover have "flow_load ft (i, j) = Some (flows fl ! j)"
    using bucket(1) pos(1) by (simp add: flow_load_def c_array)
  ultimately show ?thesis
    using pos(2) v store by blast
qed

lemma insert_table_present:
  assumes "wf_table ft" and "flow_map ft (key_of f) \<noteq> None"
  shows "PIAS_Insert_Table ok (Some ft) (Some f) = Some (False, Some ft)"
proof -
  have "search_loop (flows (flow_lists ft ! key_hash (key_of f))) f 0 \<noteq> None"
    using assms(2) by (simp add: search_loop_None flow_map_None_iff)
  then show ?thesis
    using assms(1) by (auto simp: wf_table_bucket Let_def)
qed

lemma insert_table_no_memory:
  assumes "wf_table ft" and "flow_map ft (key_of f) = None"
  shows "PIAS_Insert_Table False (Some ft) (Some f) = Some (False, Some ft)"
  using assms by (simp add: wf_table_bucket flow_map_None_iff search_loop_None [of _ _ 0, symmetric] Let_def)

lemma insert_table_absent:
  assumes "wf_table ft" and "flow_map ft (key_of f) = None"
  shows "\<exists>ft'. PIAS_Insert_Table True (Some ft) (Some f) = Some (True, Some ft') \<and>
    wf_table ft' \<and> flow_map ft' = (flow_map ft)(key_of f \<mapsto> info f)"
proof -
  define i where "i = key_hash (key_of f)"
  define fl where "fl = flow_lists ft ! i"
  define fl' where "fl' = fl\<lparr>flows := flows fl @ [f], list_len := list_len fl + 1\<rparr>"
  define ft' where "ft' = ft\<lparr>flow_lists := (flow_lists ft)[i := fl'], table_size := table_size ft + 1\<rparr>"
  have new: "key_of f \<notin> key_of ` set (flows fl)"
    using assms(2) by (simp add: flow_map_None_iff fl_def i_def)
  have wf: "wf_bucket i fl'"
    using wf_table_bucket(2) [OF assms(1), of "key_of f"] new
    by (simp add: fl'_def fl_def i_def wf_bucket_append)
  have "wf_table ft'"
    using assms(1) wf unfolding ft'_def
    by (intro wf_table_update) (simp_all add: fl'_def fl_def i_def)
  moreover have "flow_map ft' = (flow_map ft)(key_of f \<mapsto> info f)"
    using assms(1) wf bucket_map_append_new [OF new]
    by (intro flow_map_update [of ft _ fl']) (simp_all add: ft'_def fl'_def fl_def i_def)
  moreover have "PIAS_Insert_Table True (Some ft) (Some f) = Some (True, Some ft')"
    using wf_table_bucket [OF assms(1), of "key_of f"] new
    by (simp add: search_loop_None [of _ _ 0, symmetric] Let_def ft'_def fl'_def fl_def i_def)
  ultimately show ?thesis by blast
qed

lemma delete_table_absent:
  "wf_table ft \<Longrightarrow> flow_map ft (key_of f) = None \<Longrightarrow>
   PIAS_Delete_Table (Some ft) (Some f) = Some (0, Some ft)"
  by (simp add: wf_table_bucket flow_map_None_iff delete_loop_None [symmetric] Let_def)

lemma max_one_word: "0 < max 1 (w :: u32)"
  by (cases "w = 0") (simp_all add: max_def word_gt_0 word_le_nat_alt unat_eq_0)

lemma delete_table_present:
  assumes "wf_table ft" and "flow_map ft (key_of f) = Some v"
  shows "\<exists>ft'. PIAS_Delete_Table (Some ft) (Some f) = Some (max 1 (bytes_sent v), Some ft') \<and>
    wf_table ft' \<and> flow_map ft' = (flow_map ft)(key_of f := None)"
proof -
  define i where "i = key_hash (key_of f)"
  define fl where "fl = flow_lists ft ! i"
  have bucket: "wf_bucket i fl" "c_read (flow_lists ft) i = Some fl"
    using wf_table_bucket [OF assms(1), of "key_of f"] by (auto simp: i_def fl_def)
  have v: "bucket_map (flows fl) (key_of f) = Some v"
    using assms(2) by (simp add: flow_map_def fl_def i_def)
  then obtain r fs where del: "delete_loop (flows fl) f = Some (r, fs)"
    using delete_loop_None [of "flows fl" f] bucket_map_eq_None_iff [of "flows fl" "key_of f"]
    by fastforce
  have spec: "bucket_map fs = (bucket_map (flows fl))(key_of f := None)"
    "r = max 1 (bytes_sent v)" "length (flows fl) = Suc (length fs)"
    using delete_loop_Some [OF del] bucket(1) v by (simp_all add: wf_bucket_def)
  define fl' where "fl' = fl\<lparr>flows := fs, list_len := list_len fl - 1\<rparr>"
  define ft' where "ft' = ft\<lparr>flow_lists := (flow_lists ft)[i := fl'], table_size := table_size ft - 1\<rparr>"
  have wf: "wf_bucket i fl'"
    using wf_bucket_delete [OF bucket(1) del] by (simp add: fl'_def)
  have "wf_table ft'"
    using assms(1) wf spec(3) unfolding ft'_def
    by (intro wf_table_update) (simp_all add: fl'_def fl_def i_def)
  moreover have "flow_map ft' = (flow_map ft)(key_of f := None)"
    using assms(1) wf spec(1)
    by (intro flow_map_update [of ft _ fl']) (simp_all add: ft'_def fl'_def fl_def i_def)
  moreover have "PIAS_Delete_Table (Some ft) (Some f) = Some (max 1 (bytes_sent v), Some ft')"
    using wf_table_bucket [OF assms(1), of "key_of f"] del spec(2) max_one_word [of "bytes_sent v"]
    by (simp add: Let_def ft'_def fl'_def fl_def i_def)
  ultimately show ?thesis by blast
qed

interpretation flow_table: flow_interface
  wf_table flow_map key_of info
  "\<lambda>ft f. PIAS_Search_Table (Some ft) (Some f)" flow_load flow_store
  "\<lambda>ok ft f. PIAS_Insert_Table ok (Some ft) (Some f)"
  "\<lambda>ft f. PIAS_Delete_Table (Some ft) (Some f)"
  "\<lambda>v. max 1 (bytes_sent v)" 0
  by unfold_locales
    (use search_table_absent search_table_present insert_table_absent insert_table_present
      insert_table_no_memory delete_table_present delete_table_absent in blast)+

section \<open>Initialisation, clearing and exit\<close>

lemma at_bucket_loop:
  assumes "\<And>fl. snd (g (Some fl)) = Some (h fl)" and "n \<le> length fls"
  shows "fold_option (at_bucket g) [0..<n] fls = Some (map h (take n fls) @ drop n fls)"
  using assms(2)
proof (induction n)
  case (Suc n)
  then have n: "n < length fls" by simp
  then have "at_bucket g n (map h (take n fls) @ drop n fls) =
      Some ((map h (take n fls) @ drop n fls)[n := h (fls ! n)])"
    using assms(1) by (simp add: at_bucket_def c_array nth_append)
  also have "(map h (take n fls) @ drop n fls)[n := h (fls ! n)] =
      map h (take (Suc n) fls) @ drop (Suc n) fls"
    using n by (simp add: list_update_append take_Suc_conv_app_nth Cons_nth_drop_Suc [symmetric])
  finally show ?case
    using Suc n by (simp add: fold_option_append)
qed simp

lemma wf_table_map:
  assumes "length fls = PIAS_HASH_RANGE" and "\<And>fl. fl \<in> set fls \<Longrightarrow> flows fl = [] \<and> list_len fl = 0"
  shows "wf_table \<lparr>flow_lists = fls, table_size = 0\<rparr>"
    and "flow_map \<lparr>flow_lists = fls, table_size = n\<rparr> = Map.empty"
proof -
  have "num_flows fls = 0"
    using assms(2) by (simp add: num_flows_def sum_list_eq_0_iff)
  then show "wf_table \<lparr>flow_lists = fls, table_size = 0\<rparr>"
    using assms by (auto simp: wf_table_def wf_bucket_def)
  show "flow_map \<lparr>flow_lists = fls, table_size = n\<rparr> = Map.empty"
    using assms key_hash_less by (auto simp: flow_map_def fun_eq_iff)
qed

lemma PIAS_Init_Table_spec:
  assumes "length buf = PIAS_HASH_RANGE"
  shows "\<exists>ft'. PIAS_Init_Table (Some buf) (Some ft) = Some (True, Some ft') \<and>
    wf_table ft' \<and> flow_map ft' = Map.empty"
proof -
  let ?fls = "map (\<lambda>fl. fl\<lparr>list_len := 0, flows := []\<rparr>) buf"
  have "fold_option (at_bucket PIAS_Init_List) [0..<PIAS_HASH_RANGE] buf = Some ?fls"
    using at_bucket_loop [of PIAS_Init_List "\<lambda>fl. fl\<lparr>list_len := 0, flows := []\<rparr>"
        PIAS_HASH_RANGE buf] assms by simp
  moreover have "wf_table \<lparr>flow_lists = ?fls, table_size = 0\<rparr>"
    "flow_map \<lparr>flow_lists = ?fls, table_size = 0\<rparr> = Map.empty"
    by (rule wf_table_map; use assms in auto)+
  ultimately show ?thesis by (cases ft) auto
qed

text \<open>Clearing one list: the guard \<open>len > 0\<close> skips the loop only on a list whose length is a
  multiple of \<open>2 ^ 32\<close>.\<close>

definition cleared :: "PIAS_Flow_List \<Rightarrow> PIAS_Flow_List" where
  "cleared fl = (if list_len fl > 0
     then fl\<lparr>flows := [], list_len := list_len fl - of_nat (length (flows fl))\<rparr> else fl)"

lemma PIAS_Clear_List_cleared: "PIAS_Clear_List (Some fl) = (True, Some (cleared fl))"
  by (simp add: cleared_def clear_loop_eq)

lemma PIAS_Clear_List_snd: "snd (PIAS_Clear_List (Some fl)) = Some (cleared fl)"
  by (simp only: PIAS_Clear_List_cleared snd_conv)

lemma cleared_wf: "wf_bucket i fl \<Longrightarrow> wf_bucket i (cleared fl) \<and> list_len (cleared fl) = 0"
  by (auto simp: wf_bucket_def cleared_def word_neq_0_conv [symmetric])

lemma cleared_empty:
  assumes "wf_bucket i fl" and "length (flows fl) < 2 ^ 32"
  shows "flows (cleared fl) = []"
proof (cases "list_len fl > 0")
  case False
  then have "(of_nat (length (flows fl)) :: u32) = 0"
    using assms(1) by (simp add: wf_bucket_def word_neq_0_conv [symmetric])
  then have "length (flows fl) = 0"
    using assms(2) by (auto simp: word_of_nat_eq_0_iff dest: dvd_imp_le)
  then show ?thesis by (simp add: cleared_def)
qed (simp add: cleared_def)

lemma of_nat_num_flows:
  "(\<And>fl. fl \<in> set fls \<Longrightarrow> (of_nat (length (flows fl)) :: i32) = 0) \<Longrightarrow>
   (of_nat (num_flows fls) :: i32) = 0"
  by (induction fls) (simp_all add: num_flows_def)

lemma PIAS_Clear_Table_spec:
  assumes "wf_table ft"
  shows "\<exists>ft'. PIAS_Clear_Table (Some ft) = Some (True, Some ft') \<and> wf_table ft' \<and>
    table_size ft' = 0 \<and> (num_flows (flow_lists ft) < 2 ^ 32 \<longrightarrow> flow_map ft' = Map.empty)"
proof -
  let ?fls = "map cleared (flow_lists ft)"
  let ?ft = "ft\<lparr>flow_lists := ?fls, table_size := 0\<rparr>"
  have len: "length (flow_lists ft) = PIAS_HASH_RANGE"
    and wf: "\<And>i. i < PIAS_HASH_RANGE \<Longrightarrow> wf_bucket i (flow_lists ft ! i)"
    using assms by (auto simp: wf_table_def)
  have run: "PIAS_Clear_Table (Some ft) = Some (True, Some ?ft)"
    using at_bucket_loop [of PIAS_Clear_List cleared PIAS_HASH_RANGE "flow_lists ft",
        OF PIAS_Clear_List_snd] len
    by simp
  have zero: "(of_nat (length (flows fl)) :: i32) = 0" if "fl \<in> set ?fls" for fl
  proof -
    from that obtain i where i: "i < PIAS_HASH_RANGE" "fl = cleared (flow_lists ft ! i)"
      using len by (auto simp: in_set_conv_nth)
    from cleared_wf [OF wf [OF i(1)]] i(2) show ?thesis unfolding wf_bucket_def by metis
  qed
  then have "(of_nat (num_flows ?fls) :: i32) = 0"
    by (rule of_nat_num_flows)
  then have "wf_table ?ft"
    using len wf cleared_wf by (auto simp: wf_table_def)
  moreover have "flow_map ?ft = Map.empty" if small: "num_flows (flow_lists ft) < 2 ^ 32"
  proof
    fix k :: flow_key
    let ?fl = "flow_lists ft ! key_hash k"
    have "length (flows ?fl) \<le> num_flows (flow_lists ft)"
      using len by (auto simp: num_flows_def intro!: member_le_sum_list)
    then have "flows (cleared ?fl) = []"
      using small wf [OF key_hash_less] by (intro cleared_empty [of "key_hash k"]) auto
    then show "flow_map ?ft k = None"
      using len by (simp add: flow_map_def)
  qed
  ultimately show ?thesis using run by auto
qed

lemma PIAS_Exit_Table_spec:
  assumes "wf_table ft"
  shows "\<exists>ft'. PIAS_Exit_Table (Some ft) = Some (True, Some ft') \<and> flow_lists ft' = []"
  using PIAS_Clear_Table_spec [OF assms] by (auto simp: PIAS_Exit_Table_def simp del: PIAS_Clear_Table.simps)

lemma small_bucket_empty:
  assumes "wf_table ft" and "num_flows (flow_lists ft) < 2 ^ 32" and "i < PIAS_HASH_RANGE"
    and "\<not> list_len (flow_lists ft ! i) > 0"
  shows "flows (flow_lists ft ! i) = []"
proof -
  have "length (flows (flow_lists ft ! i)) \<le> num_flows (flow_lists ft)"
    using assms(1,3) by (auto simp: num_flows_def wf_table_def intro!: member_le_sum_list)
  then have "flows (cleared (flow_lists ft ! i)) = []"
    using assms by (intro cleared_empty [of i]) (auto simp: wf_table_def)
  then show ?thesis using assms(4) by (simp add: cleared_def)
qed

section \<open>The size counter\<close>

lemma card_key_of:
  "distinct (map key_of fs) \<Longrightarrow> card (key_of ` set fs) = length fs"
  by (metis distinct_card length_map list.set_map)

lemma dom_flow_map:
  assumes "wf_table ft"
  shows "dom (flow_map ft) = (\<Union>i<PIAS_HASH_RANGE. key_of ` set (flows (flow_lists ft ! i)))"
proof (intro set_eqI iffI)
  fix k
  assume "k \<in> dom (flow_map ft)"
  then have "k \<in> key_of ` set (flows (flow_lists ft ! key_hash k))"
    using flow_map_None_iff [of ft k] by auto
  then show "k \<in> (\<Union>i<PIAS_HASH_RANGE. key_of ` set (flows (flow_lists ft ! i)))"
    by (intro UN_I [of "key_hash k"]) (simp_all only: lessThan_iff key_hash_less)
next
  fix k
  assume "k \<in> (\<Union>i<PIAS_HASH_RANGE. key_of ` set (flows (flow_lists ft ! i)))"
  then obtain i where i: "i < PIAS_HASH_RANGE" "k \<in> key_of ` set (flows (flow_lists ft ! i))"
    by auto
  then have "key_hash k = i"
    using assms by (auto simp: wf_table_def wf_bucket_def)
  with i(2) show "k \<in> dom (flow_map ft)"
    using flow_map_None_iff [of ft k] by auto
qed

lemma card_dom_flow_map:
  assumes "wf_table ft"
  shows "card (dom (flow_map ft)) = num_flows (flow_lists ft)"
proof -
  have wf: "\<And>i. i < PIAS_HASH_RANGE \<Longrightarrow> wf_bucket i (flow_lists ft ! i)"
    and len: "length (flow_lists ft) = PIAS_HASH_RANGE"
    using assms by (auto simp: wf_table_def)
  have hash: "key_hash k = i"
    if "i < PIAS_HASH_RANGE" "k \<in> key_of ` set (flows (flow_lists ft ! i))" for i k
    using wf [OF that(1)] that(2) by (auto simp: wf_bucket_def)
  have "card (dom (flow_map ft)) = (\<Sum>i<PIAS_HASH_RANGE. card (key_of ` set (flows (flow_lists ft ! i))))"
    unfolding dom_flow_map [OF assms]
    by (rule card_UN_disjoint) (use hash in blast)+
  also have "\<dots> = (\<Sum>i<PIAS_HASH_RANGE. length (flows (flow_lists ft ! i)))"
    using wf by (intro sum.cong) (auto simp: card_key_of wf_bucket_def)
  also have "\<dots> = num_flows (flow_lists ft)"
    unfolding num_flows_def by (simp add: sum_list_sum_nth len atLeast0LessThan)
  finally show ?thesis .
qed

section \<open>Printing\<close>

lemma print_bucket_loop:
  assumes "n \<le> length fls"
  shows "fold_option (print_bucket fls) [0..<n] out =
    Some (out @ concat (map (\<lambda>i. if list_len (fls ! i) > 0
      then Log_list i # map (Log_flow None) (flows (fls ! i)) else []) [0..<n]))"
  using assms
proof (induction n)
  case (Suc n)
  have "PIAS_Print_List (Some fl) = map (Log_flow None) (flows fl)" for fl
    by (simp add: concat_map_singleton)
  with Suc show ?case
    by (simp add: fold_option_append print_bucket_def c_array del: PIAS_Print_List.simps)
qed simp

lemma PIAS_Print_Table_total:
  "length (flow_lists ft) = PIAS_HASH_RANGE \<Longrightarrow> \<exists>out. PIAS_Print_Table (Some ft) = Some out"
  by (simp add: print_bucket_loop)

section \<open>Sample tables\<close>

definition empty_table :: PIAS_Flow_Table where
  "empty_table =
     \<lparr>flow_lists = replicate PIAS_HASH_RANGE \<lparr>flows = [], list_len = 0\<rparr>, table_size = 0\<rparr>"

text \<open>The connection from 192.168.101.11:60410 to 192.168.101.12:5001, addresses in network byte order.\<close>

definition sample_flow :: PIAS_Flow where
  "sample_flow =
     \<lparr>local_ip = 0x0B65A8C0, remote_ip = 0x0C65A8C0, local_port = 60410, remote_port = 5001,
      info = zero_info\<lparr>bytes_sent := 7\<rparr>\<rparr>"

lemma wf_empty_table [wf_intros]: "wf_table empty_table"
  unfolding empty_table_def by (rule wf_table_map) auto

lemma flow_map_empty_table [simp]: "flow_map empty_table = Map.empty"
  unfolding empty_table_def by (rule wf_table_map) auto

definition sample_table :: PIAS_Flow_Table where
  "sample_table = the (Option.bind (PIAS_Insert_Table True (Some empty_table) (Some sample_flow)) snd)"

lemma sample_table_spec:
  "wf_table sample_table" "flow_map sample_table = [key_of sample_flow \<mapsto> info sample_flow]"
  using insert_table_absent [OF wf_empty_table, of sample_flow]
  by (auto simp: sample_table_def simp del: PIAS_Insert_Table.simps)

lemma bytes_sent_sample_flow: "bytes_sent (info sample_flow) = 7"
  by (simp add: sample_flow_def)

lemma num_flows_sample_table: "num_flows (flow_lists sample_table) = 1"
  using card_dom_flow_map [OF sample_table_spec(1)] by (simp add: sample_table_spec(2))

section \<open>Properties\<close>

text \<open>
  The bucket of a flow is the product of the four factors of the hash modulo 256, as in exact
  arithmetic: the wrap-around of the 32-bit product does not matter.  Equal flows have equal
  buckets, because the product reads the four-tuple only, and every bucket exists.
\<close>

theorem hash_is_exact_product:
  "unat (PIAS_Hash_Flow (Some f)) =
     ((unat (local_ip f) div 2 ^ 24 + 1) * (unat (remote_ip f) div 2 ^ 24 + 1)
      * (unat (local_port f) + 1) * (unat (remote_port f) + 1)) mod 256
   \<and> unat (PIAS_Hash_Flow (Some f)) < PIAS_HASH_RANGE
   \<and> (PIAS_Equal_Flow (Some f) (Some g) = (key_of f = key_of g))"
proof (intro conjI)
  show "unat (PIAS_Hash_Flow (Some f)) =
     ((unat (local_ip f) div 2 ^ 24 + 1) * (unat (remote_ip f) div 2 ^ 24 + 1)
      * (unat (local_port f) + 1) * (unat (remote_port f) + 1)) mod 256"
    by (rule hash_product)
qed simp_all

text \<open>
  Searching a well-formed table never faults.  It returns NULL exactly for a flow that is not
  in the map, and otherwise a pointer to the entry with the flow's four-tuple and the information
  the map has for it.
\<close>

theorem search_is_lookup:
  assumes "wf_table ft"
  shows "\<exists>ptr. PIAS_Search_Table (Some ft) (Some f) = Some ptr \<and>
    (case ptr of
       None \<Rightarrow> flow_map ft (key_of f) = None
     | Some p \<Rightarrow> \<exists>g. flow_load ft p = Some g \<and> key_of g = key_of f
                    \<and> flow_map ft (key_of f) = Some (info g))"
proof (cases "flow_map ft (key_of f)")
  case None
  then show ?thesis using search_table_absent [OF assms] by auto
next
  case (Some v)
  then show ?thesis using search_table_present [OF assms Some] by auto
qed

theorem search_is_lookup_witness:
  "\<exists>p g. PIAS_Search_Table (Some sample_table) (Some sample_flow) = Some (Some p)
     \<and> flow_load sample_table p = Some g \<and> bytes_sent (info g) = 7"
  using search_is_lookup [OF sample_table_spec(1), of sample_flow]
  by (auto simp: sample_table_spec(2) bytes_sent_sample_flow [symmetric]
      simp del: PIAS_Search_Table.simps split: option.splits)

text \<open>
  C23.  \<open>PIAS_Insert_Table\<close> on a well-formed table never faults and keeps it well-formed.  It succeeds
  exactly when memory is available and the flow is new; then the map gains the flow, and otherwise
  the table is unchanged.
\<close>

theorem insert_refines_map:
  assumes "wf_table ft"
  shows "\<exists>ft'. PIAS_Insert_Table ok (Some ft) (Some f) =
      Some (ok \<and> flow_map ft (key_of f) = None, Some ft') \<and> wf_table ft'
    \<and> flow_map ft' = (if ok \<and> flow_map ft (key_of f) = None
                     then (flow_map ft)(key_of f \<mapsto> info f) else flow_map ft)
    \<and> (\<not> (ok \<and> flow_map ft (key_of f) = None) \<longrightarrow> ft' = ft)"
  using flow_table.insert_spec [OF assms, of ok f] insert_table_present [OF assms, of f ok]
    insert_table_no_memory [OF assms, of f]
  by (cases "flow_map ft (key_of f)"; cases ok) (auto simp del: PIAS_Insert_Table.simps)

theorem insert_refines_map_witness:
  "\<exists>ft'. PIAS_Insert_Table True (Some empty_table) (Some sample_flow) = Some (True, Some ft')
     \<and> wf_table ft' \<and> flow_map ft' = [key_of sample_flow \<mapsto> info sample_flow]"
  using insert_refines_map [OF wf_empty_table, of True sample_flow]
  by (simp del: PIAS_Insert_Table.simps)

text \<open>
  C24.  \<open>PIAS_Delete_Table\<close> on a well-formed table never faults and keeps it well-formed.  It removes
  exactly the flow it is given and returns the bytes the flow has sent, at least 1; for an unknown
  flow it returns 0 and changes nothing.
\<close>

theorem delete_refines_map:
  assumes "wf_table ft"
  shows "\<exists>ft'. PIAS_Delete_Table (Some ft) (Some f) =
      Some (case flow_map ft (key_of f) of None \<Rightarrow> 0 | Some i \<Rightarrow> max 1 (bytes_sent i), Some ft')
    \<and> wf_table ft' \<and> flow_map ft' = (flow_map ft)(key_of f := None)
    \<and> (flow_map ft (key_of f) = None \<longrightarrow> ft' = ft)"
  using flow_table.delete_spec [OF assms, of f] delete_table_absent [OF assms, of f]
  by (cases "flow_map ft (key_of f)") (auto simp del: PIAS_Delete_Table.simps)

theorem delete_refines_map_witness:
  "\<exists>ft'. PIAS_Delete_Table (Some sample_table) (Some sample_flow) = Some (7, Some ft')
     \<and> wf_table ft' \<and> flow_map ft' = Map.empty"
proof -
  have "max 1 (bytes_sent (info sample_flow)) = 7" by (simp add: bytes_sent_sample_flow)
  then show ?thesis
    using delete_refines_map [OF sample_table_spec(1), of sample_flow]
    by (auto simp: sample_table_spec(2) simp del: PIAS_Delete_Table.simps)
qed

text \<open>
  A flow that is inserted and then deleted leaves the map as it was, and the deletion returns
  what the inserted flow had sent, at least 1.
\<close>

theorem insert_delete_roundtrip:
  assumes "wf_table ft" and "flow_map ft (key_of f) = None" and "key_of g = key_of f"
  shows "\<exists>ft' ft''. PIAS_Insert_Table True (Some ft) (Some f) = Some (True, Some ft')
    \<and> PIAS_Delete_Table (Some ft') (Some g) = Some (max 1 (bytes_sent (info f)), Some ft'')
    \<and> wf_table ft'' \<and> flow_map ft'' = flow_map ft"
  by (rule flow_table.insert_then_delete [OF assms])

theorem insert_delete_roundtrip_witness:
  "\<exists>ft' ft''. PIAS_Insert_Table True (Some empty_table) (Some sample_flow) = Some (True, Some ft')
    \<and> PIAS_Delete_Table (Some ft') (Some sample_flow) = Some (max 1 (bytes_sent (info sample_flow)), Some ft'')
    \<and> wf_table ft'' \<and> flow_map ft'' = Map.empty"
  using insert_delete_roundtrip [OF wf_empty_table, of sample_flow sample_flow]
  by (simp del: PIAS_Insert_Table.simps PIAS_Delete_Table.simps)

text \<open>
  Initialising the 256 lists \<open>vmalloc\<close> returned, whatever they hold, gives a well-formed empty
  table; clearing a well-formed table that holds fewer than \<open>2 ^ 32\<close> flows gives one again; after
  \<open>PIAS_Exit_Table\<close> there is no list left.
\<close>

theorem init_clear_exit:
  assumes "length buf = PIAS_HASH_RANGE" and "wf_table ft" and "num_flows (flow_lists ft) < 2 ^ 32"
  shows "(\<exists>t. PIAS_Init_Table (Some buf) (Some ft0) = Some (True, Some t)
            \<and> wf_table t \<and> flow_map t = Map.empty)
    \<and> (\<exists>t. PIAS_Clear_Table (Some ft) = Some (True, Some t)
            \<and> wf_table t \<and> flow_map t = Map.empty \<and> table_size t = 0)
    \<and> (\<exists>t. PIAS_Exit_Table (Some ft) = Some (True, Some t) \<and> flow_lists t = [])"
  using PIAS_Init_Table_spec [OF assms(1), of ft0] PIAS_Clear_Table_spec [OF assms(2)]
    PIAS_Exit_Table_spec [OF assms(2)] assms(3)
  by (simp del: PIAS_Init_Table.simps PIAS_Clear_Table.simps) blast

theorem init_clear_exit_witness:
  "\<exists>t. PIAS_Clear_Table (Some sample_table) = Some (True, Some t) \<and> flow_map t = Map.empty"
  using init_clear_exit [of "flow_lists empty_table" sample_table empty_table]
    sample_table_spec(1) num_flows_sample_table
  by (auto simp: empty_table_def simp del: PIAS_Clear_Table.simps PIAS_Init_Table.simps)

text \<open>
  The size counter of a well-formed table is the number of its flows, and printing the table
  prints every flow exactly once, bucket by bucket.
\<close>

theorem size_and_print_count_flows:
  assumes "wf_table ft" and "num_flows (flow_lists ft) < 2 ^ 32"
  shows "table_size ft = of_nat (card (dom (flow_map ft)))
    \<and> (\<exists>out. PIAS_Print_Table (Some ft) = Some out
         \<and> [f. Log_flow None f \<leftarrow> out] = concat (map flows (flow_lists ft)))"
proof (intro conjI)
  show "table_size ft = of_nat (card (dom (flow_map ft)))"
    using assms(1) by (simp add: card_dom_flow_map wf_table_def)
  let ?fls = "flow_lists ft"
  let ?lines = "\<lambda>i. if list_len (?fls ! i) > 0
      then Log_list i # map (Log_flow None) (flows (?fls ! i)) else []"
  have len: "length ?fls = PIAS_HASH_RANGE"
    using assms(1) by (simp add: wf_table_def)
  have lines: "[f. Log_flow None f \<leftarrow> ?lines i] = flows (?fls ! i)" if "i < PIAS_HASH_RANGE" for i
  proof (cases "list_len (?fls ! i) > 0")
    case True
    have "[f. Log_flow None f \<leftarrow> map (Log_flow None) fs] = fs" for fs
      by (induction fs) auto
    with True show ?thesis by simp
  next
    case False
    with small_bucket_empty [OF assms that] show ?thesis by simp
  qed
  have "[f. Log_flow None f \<leftarrow> concat (map ?lines [0..<n])] =
      concat (map (\<lambda>i. flows (?fls ! i)) [0..<n])" if "n \<le> PIAS_HASH_RANGE" for n
    using that by (induction n) (use lines in auto)
  from this [of PIAS_HASH_RANGE]
  have "[f. Log_flow None f \<leftarrow> concat (map ?lines [0..<PIAS_HASH_RANGE])] = concat (map flows ?fls)"
    using len map_nth [of ?fls] by (metis (no_types, lifting) map_map comp_def order_refl map_eq_conv)
  then show "\<exists>out. PIAS_Print_Table (Some ft) = Some out
         \<and> [f. Log_flow None f \<leftarrow> out] = concat (map flows (flow_lists ft))"
    using print_bucket_loop [of PIAS_HASH_RANGE ?fls "[Log_table]"] len by simp
qed

theorem size_and_print_count_flows_witness:
  "table_size sample_table = 1 \<and> (\<exists>out. PIAS_Print_Table (Some sample_table) = Some out
     \<and> [f. Log_flow None f \<leftarrow> out] = concat (map flows (flow_lists sample_table)))"
  using size_and_print_count_flows [OF sample_table_spec(1)] num_flows_sample_table
  by (simp add: sample_table_spec(2) del: PIAS_Print_Table.simps)

end
