(* ===== verification/Step_Systems.thy ===== *)
theory Step_Systems
  imports Prelude
begin

text \<open>
  What the systems of threads and the loaded module share: states reached from a start by steps, each
  with a label and allowed by a discipline; invariants of the reachable states; and simulations
  between two systems.  Each system interprets these locales on its own definitions.
\<close>

section \<open>Runs\<close>

text \<open>A run of labels, each allowed where it is taken.\<close>

definition run_labels ::
    "('l \<Rightarrow> 's \<Rightarrow> bool) \<Rightarrow> ('l \<Rightarrow> 's \<Rightarrow> 's option) \<Rightarrow> 'l list \<Rightarrow> 's \<Rightarrow> 's option" where
  "run_labels ok exec ls s = fold_option (\<lambda>l s. if ok l s then exec l s else None) ls s"

lemma run_labels_simps [simp]:
  "run_labels ok exec [] s = Some s"
  "run_labels ok exec (l # ls) s = (if ok l s then Option.bind (exec l s) (run_labels ok exec ls) else None)"
  by (simp_all add: run_labels_def [abs_def])

section \<open>Reachable states\<close>

locale step_system =
  fixes start :: "'s \<Rightarrow> bool"
    and ok :: "'l \<Rightarrow> 's \<Rightarrow> bool"
    and exec :: "'l \<Rightarrow> 's \<Rightarrow> 's option"
    and reach :: "'s \<Rightarrow> bool"
  assumes reach_start: "start s \<Longrightarrow> reach s"
    and reach_step: "reach s \<Longrightarrow> ok l s \<Longrightarrow> exec l s = Some t \<Longrightarrow> reach t"
    and reach_least: "reach s \<Longrightarrow> (\<And>s. start s \<Longrightarrow> P s)
      \<Longrightarrow> (\<And>s l t. reach s \<Longrightarrow> P s \<Longrightarrow> ok l s \<Longrightarrow> exec l s = Some t \<Longrightarrow> P t) \<Longrightarrow> P s"
begin

lemma run_reach: "run_labels ok exec ls s = Some t \<Longrightarrow> reach s \<Longrightarrow> reach t"
  by (induction ls arbitrary: s) (auto split: bind_splits if_splits intro: reach_step)

lemma run_exists:
  assumes "map_option f (run_labels ok exec ls s) = Some x" "start s"
  shows "\<exists>t. reach t \<and> f t = x"
  using assms run_reach [OF _ reach_start] by blast

end

section \<open>Invariants\<close>

locale step_invariant = step_system +
  fixes inv :: "'a \<Rightarrow> bool"
  assumes inv_start: "start s \<Longrightarrow> inv s"
    and inv_step: "reach s \<Longrightarrow> inv s \<Longrightarrow> ok l s \<Longrightarrow> exec l s = Some t \<Longrightarrow> inv t"
begin

lemma inv_reach: "reach s \<Longrightarrow> inv s"
  by (rule reach_least) (auto intro: inv_start inv_step)

end

section \<open>Simulations\<close>

text \<open>Each step of the concrete system is a step of the abstract one, or is not seen there.\<close>

locale simulation =
  abs: step_system start_abs ok_abs exec_abs reach_abs +
  conc: step_system start_conc ok_conc exec_conc reach_conc
  for start_abs ok_abs exec_abs reach_abs start_conc ok_conc exec_conc reach_conc +
  fixes view :: "'c \<Rightarrow> 'a \<Rightarrow> bool"
  assumes view_start: "start_conc s \<Longrightarrow> \<exists>a. start_abs a \<and> view s a"
    and view_step: "reach_conc s \<Longrightarrow> view s a \<Longrightarrow> ok_conc l s \<Longrightarrow> exec_conc l s = Some t
      \<Longrightarrow> view t a \<or> (\<exists>k a'. ok_abs k a \<and> exec_abs k a = Some a' \<and> view t a')"
begin

lemma seen: "reach_conc s \<Longrightarrow> \<exists>a. reach_abs a \<and> view s a"
proof (erule conc.reach_least)
  show "\<exists>a. reach_abs a \<and> view s a" if "start_conc s" for s
    using view_start [OF that] abs.reach_start by blast
  show "\<exists>a. reach_abs a \<and> view t a"
    if "reach_conc s" "\<exists>a. reach_abs a \<and> view s a" "ok_conc l s" "exec_conc l s = Some t" for s l t
    using that view_step abs.reach_step by metis
qed

end

end
