(* ===== verification/PIAS_Callers.thy ===== *)
theory PIAS_Callers
  imports PIAS_Flow_Spec Step_Systems
begin

text \<open>
  The flow table used by several callers at once.  The hooks and the probe run on every CPU, in
  process and in interrupt context, and the lists of the table are searched without a lock
  (\<open>PIAS/flow.c\<close>): only linking an entry, unlinking and freeing one, changing one, and clearing one
  list are guarded.
  Here each entry has an address, a search goes through the links one entry at a time, and the steps
  of the callers interleave.  An access to an entry that has been freed is \<open>None\<close>.
\<close>

section \<open>Entries, lists and callers\<close>

text \<open>A list is the addresses of its entries, in the order of the links, and its length.\<close>

record chain =
  nodes :: "nat list"
  nodes_len :: u32

text \<open>
  What a caller asks for: \<open>PIAS_Insert_Table\<close>, \<open>PIAS_Delete_Table\<close>, or \<open>PIAS_Search_Table\<close> and, under
  the lock of the entry found, a change of its information.  The hook for outgoing packets reads
  \<open>bytes_sent\<close> once more after the lock is released: \<open>marks\<close>.
\<close>

datatype table_call =
    Insert_call PIAS_Flow
  | Delete_call PIAS_Flow
  | Update_call PIAS_Flow "PIAS_Flow_Info \<Rightarrow> PIAS_Flow_Info" (marks: bool)

primrec call_flow :: "table_call \<Rightarrow> PIAS_Flow" where
  "call_flow (Insert_call f) = f"
| "call_flow (Delete_call f) = f"
| "call_flow (Update_call f u m) = f"

datatype call_result =
    Inserted bool
  | Deleted u32
  | Updated bool
  | Read_bytes u32
  | Cleared bool

text \<open>
  Where a caller is: before a call, with what the last one returned; in the loop of a search, with
  the last entry compared (\<open>None\<close> at the head of the list); before \<open>kmalloc\<close>; before one of the
  guarded sections, with the entry it is about; before the last read; before the change of the size;
  in the loop of \<open>PIAS_Clear_Table\<close>, with the next list to clear.
\<close>

datatype caller =
    Ready "call_result option"
  | Searching table_call "nat option"
  | Allocating PIAS_Flow
  | Linking PIAS_Flow nat
  | Unlinking PIAS_Flow nat
  | Changing PIAS_Flow "PIAS_Flow_Info \<Rightarrow> PIAS_Flow_Info" bool nat
  | Reading PIAS_Flow nat
  | Resizing i32 call_result
  | Clearing nat

text \<open>
  The memory of entries, the array of lists, the size of the table, the callers.  \<open>kmalloc\<close>
  returns an address that was not in use before, so that an access to freed memory is always seen.
\<close>

record shared_table =
  heap :: "nat \<rightharpoonup> PIAS_Flow"
  next_addr :: nat
  flow_chains :: "nat \<Rightarrow> chain"
  chain_size :: i32
  callers :: "nat \<Rightarrow> caller"

definition bucket :: "PIAS_Flow \<Rightarrow> nat" where
  "bucket f = unat (PIAS_Hash_Flow (Some f))"

section \<open>The steps of a caller\<close>

text \<open>The address \<open>ptr->list.next\<close> leads to, for an entry or the head; \<open>None\<close> is the head.\<close>

definition next_node :: "nat list \<Rightarrow> nat option \<Rightarrow> nat option" where
  "next_node ns at =
     (case (case at of None \<Rightarrow> ns | Some p \<Rightarrow> tl (dropWhile (\<lambda>q. q \<noteq> p) ns)) of
        [] \<Rightarrow> None
      | q # _ \<Rightarrow> Some q)"

text \<open>
  One round of \<open>list_for_each_entry\<close>: read the link of the current entry, and compare the entry it
  leads to with the flow asked for.  (\<open>list_for_each_entry_safe\<close> in \<open>PIAS_Delete_List\<close> reads the link
  before it compares the entry; it protects a loop from its own deletions only.)
\<close>

definition search_step :: "PIAS_Flow \<Rightarrow> nat option \<Rightarrow> shared_table \<Rightarrow> (nat option \<times> bool) option" where
  "search_step f at s = do {
     _ \<leftarrow> (case at of None \<Rightarrow> Some f | Some p \<Rightarrow> heap s p);
     (case next_node (nodes (flow_chains s (bucket f))) at of
        None \<Rightarrow> Some (None, False)
      | Some q \<Rightarrow> do { g \<leftarrow> heap s q; Some (Some q, PIAS_Equal_Flow (Some g) (Some f)) })
   }"

text \<open>What follows the loop, with an entry that equals the flow or without.\<close>

primrec after_found :: "nat \<Rightarrow> table_call \<Rightarrow> caller" where
  "after_found q (Insert_call f) = Ready (Some (Inserted False))"
| "after_found q (Delete_call f) = Unlinking f q"
| "after_found q (Update_call f u m) = Changing f u m q"

primrec after_missed :: "table_call \<Rightarrow> caller" where
  "after_missed (Insert_call f) = Allocating f"
| "after_missed (Delete_call f) = Ready (Some (Deleted 0))"
| "after_missed (Update_call f u m) = Ready (Some (Updated False))"

text \<open>\<open>list_add_tail\<close>, \<open>list_del\<close> and \<open>kfree\<close>, with the length of the list.\<close>

definition link_tail :: "nat \<Rightarrow> nat \<Rightarrow> shared_table \<Rightarrow> shared_table" where
  "link_tail b a s = s\<lparr>flow_chains := (flow_chains s)(b := \<lparr>nodes = nodes (flow_chains s b) @ [a],
     nodes_len = nodes_len (flow_chains s b) + 1\<rparr>)\<rparr>"

definition unlink :: "nat \<Rightarrow> nat \<Rightarrow> shared_table \<Rightarrow> shared_table" where
  "unlink b q s = s\<lparr>flow_chains := (flow_chains s)(b := \<lparr>nodes = remove1 q (nodes (flow_chains s b)),
     nodes_len = nodes_len (flow_chains s b) - 1\<rparr>), heap := (heap s)(q := None)\<rparr>"

text \<open>\<open>PIAS_Clear_List\<close>: the guarded section frees the entries one by one.\<close>

fun clear_nodes :: "nat \<Rightarrow> nat list \<Rightarrow> shared_table \<Rightarrow> shared_table option" where
  "clear_nodes b [] s = Some s"
| "clear_nodes b (p # ps) s = do { _ \<leftarrow> heap s p; clear_nodes b ps (unlink b p s) }"

definition clear_chain :: "nat \<Rightarrow> shared_table \<Rightarrow> shared_table option" where
  "clear_chain b s =
     (if nodes_len (flow_chains s b) > 0 then clear_nodes b (nodes (flow_chains s b)) s else Some s)"

fun caller_step :: "bool \<Rightarrow> caller \<Rightarrow> shared_table \<Rightarrow> (caller \<times> shared_table) option" where
  "caller_step kmalloc_ok (Ready r) s = Some (Ready r, s)"
| "caller_step kmalloc_ok (Searching call at) s = do {
     (ptr, equal) \<leftarrow> search_step (call_flow call) at s;
     Some (case ptr of
         Some q \<Rightarrow> if equal then after_found q call else Searching call (Some q)
       | None \<Rightarrow> after_missed call, s)
   }"
| "caller_step kmalloc_ok (Allocating f) s =
     Some (if kmalloc_ok
       then (Linking f (next_addr s), s\<lparr>heap := (heap s)(next_addr s \<mapsto> f), next_addr := next_addr s + 1\<rparr>)
       else (Ready (Some (Inserted False)), s))"
| "caller_step kmalloc_ok (Linking f a) s = Some (Resizing 1 (Inserted True), link_tail (bucket f) a s)"
| "caller_step kmalloc_ok (Unlinking f q) s = do {
     g \<leftarrow> heap s q;
     Some (Resizing (- 1) (Deleted (max 1 (bytes_sent (info g)))), unlink (bucket f) q s)
   }"
| "caller_step kmalloc_ok (Changing f u m q) s = do {
     g \<leftarrow> heap s q;
     Some (if m then Reading f q else Ready (Some (Updated True)),
       s\<lparr>heap := (heap s)(q \<mapsto> g\<lparr>info := u (info g)\<rparr>)\<rparr>)
   }"
| "caller_step kmalloc_ok (Reading f q) s = do {
     g \<leftarrow> heap s q;
     Some (Ready (Some (Read_bytes (bytes_sent (info g)))), s)
   }"
| "caller_step kmalloc_ok (Resizing d r) s = Some (Ready (Some r), s\<lparr>chain_size := chain_size s + d\<rparr>)"
| "caller_step kmalloc_ok (Clearing i) s =
     (if i < PIAS_HASH_RANGE then do { t \<leftarrow> clear_chain i s; Some (Clearing (i + 1), t) }
      else Some (Ready (Some (Cleared True)), s\<lparr>chain_size := 0\<rparr>))"

text \<open>
  A caller starts a call, starts to clear the table, or makes its next step; the argument is
  whether \<open>kmalloc\<close> has memory.
\<close>

datatype caller_label =
    Start nat table_call
  | Clear nat
  | Next nat bool

fun shared_exec :: "caller_label \<Rightarrow> shared_table \<Rightarrow> shared_table option" where
  "shared_exec (Start c call) s = Some (s\<lparr>callers := (callers s)(c := Searching call None)\<rparr>)"
| "shared_exec (Clear c) s = Some (s\<lparr>callers := (callers s)(c := Clearing 0)\<rparr>)"
| "shared_exec (Next c kmalloc_ok) s = do {
     (x, t) \<leftarrow> caller_step kmalloc_ok (callers s c) s;
     Some (t\<lparr>callers := (callers t)(c := x)\<rparr>)
   }"

definition shared_start :: shared_table where
  "shared_start = \<lparr>heap = Map.empty, next_addr = 0, flow_chains = (\<lambda>_. \<lparr>nodes = [], nodes_len = 0\<rparr>),
     chain_size = 0, callers = (\<lambda>_. Ready None)\<rparr>"

section \<open>Which calls may overlap\<close>

text \<open>The call a caller may still use the lists for.\<close>

primrec pending_call :: "caller \<Rightarrow> table_call option" where
  "pending_call (Ready r) = None"
| "pending_call (Searching call at) = Some call"
| "pending_call (Allocating f) = Some (Insert_call f)"
| "pending_call (Linking f a) = Some (Insert_call f)"
| "pending_call (Unlinking f q) = Some (Delete_call f)"
| "pending_call (Changing f u m q) = Some (Update_call f u m)"
| "pending_call (Reading f q) = Some (Update_call f id True)"
| "pending_call (Resizing d r) = None"
| "pending_call (Clearing i) = None"

text \<open>
  Two calls get along when they are about different lists, or neither deletes and not both insert
  the same flow.
\<close>

fun get_along :: "table_call \<Rightarrow> table_call \<Rightarrow> bool" where
  "get_along (Insert_call f) (Insert_call g) = (\<not> PIAS_Equal_Flow (Some f) (Some g))"
| "get_along (Delete_call f) call = (bucket f \<noteq> bucket (call_flow call))"
| "get_along call (Delete_call f) = (bucket f \<noteq> bucket (call_flow call))"
| "get_along _ _ = True"

fun is_ready :: "caller \<Rightarrow> bool" where
  "is_ready (Ready r) = True"
| "is_ready _ = False"

definition may_overlap :: "table_call \<Rightarrow> caller \<Rightarrow> bool" where
  "may_overlap call x =
     (case x of Clearing i \<Rightarrow> False
      | _ \<Rightarrow> (case pending_call x of None \<Rightarrow> True | Some other \<Rightarrow> get_along call other))"

text \<open>As the code is, a caller may start any call; it starts one after the other.\<close>

fun any_calls :: "nat \<Rightarrow> caller_label \<Rightarrow> shared_table \<Rightarrow> bool" where
  "any_calls n (Start c call) s = (c < n \<and> is_ready (callers s c))"
| "any_calls n (Clear c) s = (c < n \<and> is_ready (callers s c))"
| "any_calls n (Next c kmalloc_ok) s = (c < n)"

text \<open>The discipline: only calls that get along overlap, and nothing overlaps with clearing.\<close>

fun getting_along :: "nat \<Rightarrow> caller_label \<Rightarrow> shared_table \<Rightarrow> bool" where
  "getting_along n (Start c call) s =
     (c < n \<and> is_ready (callers s c) \<and> (\<forall>d<n. may_overlap call (callers s d)))"
| "getting_along n (Clear c) s = (c < n \<and> (\<forall>d<n. is_ready (callers s d)))"
| "getting_along n (Next c kmalloc_ok) s = (c < n)"

section \<open>Calls one after the other\<close>

text \<open>
  The sequential operations of \<open>PIAS_Flow\<close> the steps are compared with, each with its result:
  insertion, deletion, the change of an entry as in the hooks, reading \<open>bytes_sent\<close>, and clearing.
\<close>

datatype table_op =
    Op_insert bool PIAS_Flow
  | Op_delete PIAS_Flow
  | Op_update PIAS_Flow "PIAS_Flow_Info \<Rightarrow> PIAS_Flow_Info"
  | Op_read PIAS_Flow
  | Op_clear

fun run_op :: "table_op \<Rightarrow> PIAS_Flow_Table \<Rightarrow> (call_result \<times> PIAS_Flow_Table) option" where
  "run_op (Op_insert kmalloc_ok f) ft = do {
     (inserted, ftp) \<leftarrow> PIAS_Insert_Table kmalloc_ok (Some ft) (Some f);
     ft' \<leftarrow> ftp;
     Some (Inserted inserted, ft')
   }"
| "run_op (Op_delete f) ft = do {
     (result, ftp) \<leftarrow> PIAS_Delete_Table (Some ft) (Some f);
     ft' \<leftarrow> ftp;
     Some (Deleted result, ft')
   }"
| "run_op (Op_update f u) ft = do {
     ptr \<leftarrow> PIAS_Search_Table (Some ft) (Some f);
     (case ptr of
        None \<Rightarrow> Some (Updated False, ft)
      | Some p \<Rightarrow> do {
          g \<leftarrow> flow_load ft p;
          ft' \<leftarrow> flow_store ft p (u (info g));
          Some (Updated True, ft')
        })
   }"
| "run_op (Op_read f) ft = do {
     ptr \<leftarrow> PIAS_Search_Table (Some ft) (Some f);
     p \<leftarrow> ptr;
     g \<leftarrow> flow_load ft p;
     Some (Read_bytes (bytes_sent (info g)), ft)
   }"
| "run_op Op_clear ft = do {
     (ok, ftp) \<leftarrow> PIAS_Clear_Table (Some ft);
     ft' \<leftarrow> ftp;
     Some (Cleared ok, ft')
   }"

text \<open>A history: who performed which operation, with which result; and running it in order.\<close>

type_synonym history = "(nat \<times> table_op \<times> call_result) list"

definition run_ops :: "history \<Rightarrow> PIAS_Flow_Table \<Rightarrow> PIAS_Flow_Table option" where
  "run_ops = fold_option (\<lambda>(c, op, r) ft. do {
     (r', ft') \<leftarrow> run_op op ft;
     if r' = r then Some ft' else None
   })"

text \<open>
  The operation a step of a caller stands for, if any: the last step of a search that ends the
  call, a failed allocation, and the guarded sections, with the result the caller goes on with.
  Clearing, with which nothing overlaps, counts when it starts.
\<close>

definition op_of_call :: "bool \<Rightarrow> table_call \<Rightarrow> table_op" where
  "op_of_call kmalloc_ok call = (case call of
     Insert_call f \<Rightarrow> Op_insert kmalloc_ok f | Delete_call f \<Rightarrow> Op_delete f | Update_call f u m \<Rightarrow> Op_update f u)"

definition op_of_step :: "bool \<Rightarrow> caller \<Rightarrow> caller \<Rightarrow> (table_op \<times> call_result) list" where
  "op_of_step kmalloc_ok x y =
     (case (x, y) of
        (Searching call at, Ready (Some r)) \<Rightarrow> [(op_of_call kmalloc_ok call, r)]
      | (Allocating f, Ready (Some r)) \<Rightarrow> [(Op_insert kmalloc_ok f, r)]
      | (Linking f a, Resizing d r) \<Rightarrow> [(Op_insert True f, r)]
      | (Unlinking f q, Resizing d r) \<Rightarrow> [(Op_delete f, r)]
      | (Changing f u m q, _) \<Rightarrow> [(Op_update f u, Updated True)]
      | (Reading f q, Ready (Some r)) \<Rightarrow> [(Op_read f, r)]
      | _ \<Rightarrow> [])"

primrec ops_of_label :: "caller_label \<Rightarrow> shared_table \<Rightarrow> shared_table \<Rightarrow> history" where
  "ops_of_label (Start c call) s t = []"
| "ops_of_label (Clear c) s t = [(c, Op_clear, Cleared True)]"
| "ops_of_label (Next c kmalloc_ok) s t = map (Pair c) (op_of_step kmalloc_ok (callers s c) (callers t c))"

text \<open>What the last call returned, or is about to return.\<close>

definition result_of :: "caller \<Rightarrow> call_result option" where
  "result_of x = (case x of Ready r \<Rightarrow> r | Resizing d r \<Rightarrow> Some r
     | Clearing i \<Rightarrow> Some (Cleared True) | _ \<Rightarrow> None)"

text \<open>The result of the last operation of caller \<open>c\<close>.\<close>

fun last_result :: "nat \<Rightarrow> history \<Rightarrow> call_result option" where
  "last_result c [] = None"
| "last_result c ((d, op, r) # h) =
     (case last_result c h of Some r' \<Rightarrow> Some r' | None \<Rightarrow> if d = c then Some r else None)"

text \<open>The runs of \<open>n\<close> callers under a discipline, with the operations performed.\<close>

inductive shared_run ::
    "(nat \<Rightarrow> caller_label \<Rightarrow> shared_table \<Rightarrow> bool) \<Rightarrow> nat \<Rightarrow> history
     \<Rightarrow> shared_table \<Rightarrow> bool"
  for ok n where
  start: "shared_run ok n [] shared_start"
| step: "shared_run ok n h s \<Longrightarrow> ok n l s \<Longrightarrow> shared_exec l s = Some t
    \<Longrightarrow> shared_run ok n (h @ ops_of_label l s t) t"

definition run_exec ::
    "caller_label \<Rightarrow> history \<times> shared_table \<Rightarrow> (history \<times> shared_table) option" where
  "run_exec l x = map_option (\<lambda>t. (fst x @ ops_of_label l (snd x) t, t)) (shared_exec l (snd x))"

interpretation shared: step_system "\<lambda>x. x = ([], shared_start)" "\<lambda>l x. ok n l (snd x)" run_exec
  "\<lambda>x. shared_run ok n (fst x) (snd x)"
proof unfold_locales
  show "P x" if "shared_run ok n (fst x) (snd x)" "\<And>x. x = ([], shared_start) \<Longrightarrow> P x"
    "\<And>x l y. shared_run ok n (fst x) (snd x) \<Longrightarrow> P x \<Longrightarrow> ok n l (snd x) \<Longrightarrow> run_exec l x = Some y \<Longrightarrow> P y"
    for P x
  proof -
    have "P (h, s)" if "shared_run ok n h s" for h s
      using that
    proof induction
      case (step h s l t)
      then show ?case
        using \<open>\<And>x l y. shared_run ok n (fst x) (snd x) \<Longrightarrow> P x \<Longrightarrow> ok n l (snd x) \<Longrightarrow> run_exec l x = Some y \<Longrightarrow> P y\<close>
          [of "(h, s)" l] by (simp add: run_exec_def)
    qed (use \<open>\<And>x. x = ([], shared_start) \<Longrightarrow> P x\<close> in simp)
    from this [of "fst x" "snd x"] that(1) show ?thesis by simp
  qed
qed (auto simp: run_exec_def intro: shared_run.intros)

section \<open>Without a discipline\<close>

text \<open>A caller makes \<open>k\<close> steps, with memory when it asks for it.\<close>

definition steps_of :: "nat \<Rightarrow> nat \<Rightarrow> caller_label list" where
  "steps_of c k = replicate k (Next c True)"

text \<open>Two flows of the same list.\<close>

definition flow_a :: PIAS_Flow where
  "flow_a = \<lparr>local_ip = 1, remote_ip = 0, local_port = 0, remote_port = 0, info = zero_info\<rparr>"

definition flow_b :: PIAS_Flow where
  "flow_b = flow_a\<lparr>local_ip := 2\<rparr>"

lemma flows_ab:
  "bucket flow_a = 1" "bucket flow_b = 1"
  "PIAS_Equal_Flow (Some flow_a) (Some flow_a)" "\<not> PIAS_Equal_Flow (Some flow_a) (Some flow_b)"
  "\<not> PIAS_Equal_Flow (Some flow_b) (Some flow_a)"
  "key_of flow_a \<noteq> key_of flow_b" "key_of flow_b \<noteq> key_of flow_a" "bytes_sent (info flow_a) = 0"
  by (simp_all add: bucket_def flow_a_def flow_b_def PIAS_Hash_Flow.simps PIAS_Equal_Flow.simps
      PIAS_HASH_RANGE_def drop_bit_eq_div key_of_def zero_info_def)

lemmas run_shared = steps_of_def eval_nat_numeral run_exec_def shared_start_def search_step_def next_node_def
  link_tail_def unlink_def flows_ab fun_upd_twist

definition insert_a :: "caller_label list" where
  "insert_a = Start 0 (Insert_call flow_a) # steps_of 0 4"

definition shared_runs ::
    "(nat \<Rightarrow> caller_label \<Rightarrow> shared_table \<Rightarrow> bool) \<Rightarrow> caller_label list \<Rightarrow> (history \<times> shared_table) option" where
  "shared_runs ok ls = run_labels (\<lambda>l x. ok 2 l (snd x)) run_exec ls ([], shared_start)"

lemma shared_runs_reach:
  "map_option (\<lambda>x. f (snd x)) (shared_runs ok ls) = Some y \<Longrightarrow> \<exists>h s. shared_run ok 2 h s \<and> f s = y"
  unfolding shared_runs_def by (drule shared.run_exists) auto

text \<open>A flow is deleted between the search for it and the change of its entry, or a second deletion.\<close>

definition delete_meanwhile :: "table_call \<Rightarrow> caller_label list" where
  "delete_meanwhile call =
     insert_a @ Start 0 call # steps_of 0 1 @ Start 1 (Delete_call flow_a) # steps_of 1 2"

lemma change_after_delete:
  "map_option (\<lambda>x. (callers (snd x) 0, shared_exec (Next 0 True) (snd x)))
     (shared_runs any_calls (delete_meanwhile (Update_call flow_a id True))) = Some (Changing flow_a id True 0, None)"
  by (simp add: shared_runs_def delete_meanwhile_def insert_a_def run_shared)

lemma delete_after_delete:
  "map_option (\<lambda>x. (callers (snd x) 0, shared_exec (Next 0 True) (snd x)))
     (shared_runs any_calls (delete_meanwhile (Delete_call flow_a))) = Some (Unlinking flow_a 0, None)"
  by (simp add: shared_runs_def delete_meanwhile_def insert_a_def run_shared)

lemma search_after_delete:
  "map_option (\<lambda>x. (callers (snd x) 0, shared_exec (Next 0 True) (snd x)))
     (shared_runs any_calls (delete_meanwhile (Update_call flow_b id True)))
   = Some (Searching (Update_call flow_b id True) (Some 0), None)"
  by (simp add: shared_runs_def delete_meanwhile_def insert_a_def run_shared)

lemma change_after_clear:
  "map_option (\<lambda>x. (callers (snd x) 0, callers (snd x) 1, shared_exec (Next 0 True) (snd x)))
     (shared_runs any_calls (insert_a @ Start 0 (Update_call flow_a id True) # steps_of 0 1 @ Clear 1 # steps_of 1 2))
   = Some (Changing flow_a id True 0, Clearing 2, None)"
  by (simp add: shared_runs_def insert_a_def run_shared clear_chain_def PIAS_HASH_RANGE_def)

text \<open>Two insertions of a flow search before either links its entry; then the flow is deleted.\<close>

definition insert_twice :: "caller_label list" where
  "insert_twice = Start 0 (Insert_call flow_a) # Start 1 (Insert_call flow_a) # steps_of 0 1 @ steps_of 1 1
     @ steps_of 0 3 @ steps_of 1 3"

lemma inserted_twice:
  "map_option (\<lambda>x. (callers (snd x) 0, callers (snd x) 1, nodes (flow_chains (snd x) 1),
       map_option key_of (heap (snd x) 0), map_option key_of (heap (snd x) 1)))
     (shared_runs any_calls insert_twice)
   = Some (Ready (Some (Inserted True)), Ready (Some (Inserted True)), [0, 1],
       Some (key_of flow_a), Some (key_of flow_a))"
  by (simp add: shared_runs_def insert_twice_def run_shared)

lemma delete_leaves_one:
  "map_option (\<lambda>x. (callers (snd x) 0, callers (snd x) 1, nodes (flow_chains (snd x) 1),
       map_option key_of (heap (snd x) 1)))
     (shared_runs any_calls (insert_twice @ Start 0 (Delete_call flow_a) # steps_of 0 3))
   = Some (Ready (Some (Deleted 1)), Ready (Some (Inserted True)), [1], Some (key_of flow_a))"
  by (simp add: shared_runs_def insert_twice_def run_shared)

text \<open>
  C16.  The lists are searched without their lock, and a flow is locked only after the search.  So
  there are runs in which a caller is about to change the entry it found, to unlink and free it, or
  to follow its link, and the access is to memory that another caller has freed, by deleting the
  flow or by clearing the table; and a run in which
  two insertions of one flow both succeed, after which deleting it leaves it in the table.
\<close>

theorem unlocked_searches_race:
  "(\<exists>h s. shared_run any_calls 2 h s
      \<and> (callers s 0, shared_exec (Next 0 True) s) = (Changing flow_a id True 0, None))
 \<and> (\<exists>h s. shared_run any_calls 2 h s
      \<and> (callers s 0, shared_exec (Next 0 True) s) = (Unlinking flow_a 0, None))
 \<and> (\<exists>h s. shared_run any_calls 2 h s
      \<and> (callers s 0, shared_exec (Next 0 True) s) = (Searching (Update_call flow_b id True) (Some 0), None))
 \<and> (\<exists>h s. shared_run any_calls 2 h s
      \<and> (callers s 0, callers s 1, shared_exec (Next 0 True) s) = (Changing flow_a id True 0, Clearing 2, None))
 \<and> (\<exists>h s. shared_run any_calls 2 h s
      \<and> (callers s 0, callers s 1, nodes (flow_chains s 1), map_option key_of (heap s 0), map_option key_of (heap s 1))
        = (Ready (Some (Inserted True)), Ready (Some (Inserted True)), [0, 1],
           Some (key_of flow_a), Some (key_of flow_a)))
 \<and> (\<exists>h s. shared_run any_calls 2 h s
      \<and> (callers s 0, callers s 1, nodes (flow_chains s 1), map_option key_of (heap s 1))
        = (Ready (Some (Deleted 1)), Ready (Some (Inserted True)), [1], Some (key_of flow_a)))"
  by (intro conjI shared_runs_reach)
    (rule change_after_delete delete_after_delete search_after_delete change_after_clear inserted_twice delete_leaves_one)+

end
