(* ===== verification/PIAS_Callers_Spec.thy ===== *)
theory PIAS_Callers_Spec
  imports PIAS_Callers
begin

text \<open>
  Callers whose calls get along use the flow table as if each call were one step: the invariant of
  their runs, and the refinement of the sequential operations of \<open>PIAS_Flow\<close>.
\<close>

section \<open>The sequential operations, by their effect on one list\<close>

lemma search_loop_at:
  "distinct (map key_of fs) \<Longrightarrow> j < length fs \<Longrightarrow> key_of (fs ! j) = key_of f
    \<Longrightarrow> search_loop fs f k = Some (k + j)"
proof (induction fs arbitrary: j k)
  case (Cons g fs)
  show ?case
  proof (cases j)
    case (Suc i)
    with Cons.prems have "key_of g \<noteq> key_of f" by (metis key_nth_neq Suc_less_SucD distinct.simps(2)
        image_eqI length_Cons list.simps(9) nth_Cons_Suc nth_mem set_map)
    then show ?thesis using Suc Cons.prems Cons.IH [of i "Suc k"] by simp
  qed (use Cons.prems in simp)
qed simp

lemma delete_loop_at:
  "distinct (map key_of fs) \<Longrightarrow> j < length fs \<Longrightarrow> key_of (fs ! j) = key_of f
    \<Longrightarrow> delete_loop fs f = Some (max 1 (bytes_sent (info (fs ! j))), take j fs @ drop (Suc j) fs)"
proof (induction fs arbitrary: j)
  case (Cons g fs)
  show ?case
  proof (cases j)
    case (Suc i)
    with Cons.prems have "key_of g \<noteq> key_of f" by (metis key_nth_neq Suc_less_SucD distinct.simps(2)
        image_eqI length_Cons list.simps(9) nth_Cons_Suc nth_mem set_map)
    then show ?thesis using Suc Cons.prems Cons.IH [of i] by simp
  qed (use Cons.prems in simp)
qed simp

lemma store_same_list: "fl = flow_lists ft ! i \<Longrightarrow> ft\<lparr>flow_lists := (flow_lists ft)[i := fl]\<rparr> = ft"
  by (cases ft) simp

lemma run_op_absent:
  assumes "wf_table ft" and fl: "fl = flow_lists ft ! key_hash (key_of f)"
    and "key_of f \<notin> key_of ` set (flows fl)"
  shows "run_op (Op_insert True f) ft = Some (Inserted True,
      ft\<lparr>flow_lists := (flow_lists ft)[key_hash (key_of f) :=
          fl\<lparr>flows := flows fl @ [f], list_len := list_len fl + 1\<rparr>], table_size := table_size ft + 1\<rparr>)"
    "run_op (Op_insert False f) ft = Some (Inserted False, ft)"
    "run_op (Op_delete f) ft = Some (Deleted 0, ft)"
    "run_op (Op_update f u) ft = Some (Updated False, ft)"
proof -
  have "search_loop (flows fl) f 0 = None" "delete_loop (flows fl) f = None"
    using assms(3) by (simp_all add: search_loop_None delete_loop_None)
  with wf_table_bucket [OF assms(1), of "key_of f"]
  show "run_op (Op_insert True f) ft = Some (Inserted True,
      ft\<lparr>flow_lists := (flow_lists ft)[key_hash (key_of f) :=
          fl\<lparr>flows := flows fl @ [f], list_len := list_len fl + 1\<rparr>], table_size := table_size ft + 1\<rparr>)"
    "run_op (Op_insert False f) ft = Some (Inserted False, ft)"
    "run_op (Op_delete f) ft = Some (Deleted 0, ft)"
    "run_op (Op_update f u) ft = Some (Updated False, ft)"
    using store_same_list [OF fl] by (simp_all add: Let_def fl [symmetric])
qed

lemma run_op_present:
  assumes wf: "wf_table ft" and fl: "fl = flow_lists ft ! key_hash (key_of f)"
    and j: "j < length (flows fl)" "key_of (flows fl ! j) = key_of f"
  shows "run_op (Op_insert kmalloc_ok f) ft = Some (Inserted False, ft)"
    "run_op (Op_delete f) ft = Some (Deleted (max 1 (bytes_sent (info (flows fl ! j)))),
      ft\<lparr>flow_lists := (flow_lists ft)[key_hash (key_of f) :=
          fl\<lparr>flows := take j (flows fl) @ drop (Suc j) (flows fl), list_len := list_len fl - 1\<rparr>],
        table_size := table_size ft - 1\<rparr>)"
    "run_op (Op_update f u) ft = Some (Updated True,
      ft\<lparr>flow_lists := (flow_lists ft)[key_hash (key_of f) :=
          fl\<lparr>flows := (flows fl)[j := (flows fl ! j)\<lparr>info := u (info (flows fl ! j))\<rparr>]\<rparr>]\<rparr>)"
    "run_op (Op_read f) ft = Some (Read_bytes (bytes_sent (info (flows fl ! j))), ft)"
proof -
  note bucket = wf_table_bucket [OF wf, of "key_of f"]
  have dist: "distinct (map key_of (flows fl))" using bucket(2) fl by (simp add: wf_bucket_def)
  note at = search_loop_at [OF dist j, of 0] delete_loop_at [OF dist j]
  show "run_op (Op_insert kmalloc_ok f) ft = Some (Inserted False, ft)"
    "run_op (Op_delete f) ft = Some (Deleted (max 1 (bytes_sent (info (flows fl ! j)))),
      ft\<lparr>flow_lists := (flow_lists ft)[key_hash (key_of f) :=
          fl\<lparr>flows := take j (flows fl) @ drop (Suc j) (flows fl), list_len := list_len fl - 1\<rparr>],
        table_size := table_size ft - 1\<rparr>)"
    "run_op (Op_update f u) ft = Some (Updated True,
      ft\<lparr>flow_lists := (flow_lists ft)[key_hash (key_of f) :=
          fl\<lparr>flows := (flows fl)[j := (flows fl ! j)\<lparr>info := u (info (flows fl ! j))\<rparr>]\<rparr>]\<rparr>)"
    "run_op (Op_read f) ft = Some (Read_bytes (bytes_sent (info (flows fl ! j))), ft)"
    using store_same_list [OF fl] bucket at j(1) max_one_word [of "bytes_sent (info (flows fl ! j))"]
    by (simp_all add: Let_def fl [symmetric] flow_load_def flow_store_def c_array)
qed

lemma run_op_wf:
  assumes "wf_table ft" and "run_op op ft = Some (r, ft')"
  shows "wf_table ft'"
proof (cases op)
  case (Op_insert kmalloc_ok f)
  then show ?thesis using assms flow_table.insert_spec [OF assms(1), of kmalloc_ok f]
    by (auto simp del: PIAS_Insert_Table.simps)
next
  case (Op_delete f)
  then show ?thesis using assms flow_table.delete_spec [OF assms(1), of f]
    by (auto simp del: PIAS_Delete_Table.simps)
next
  case (Op_update f u)
  then show ?thesis using assms flow_table.modify_spec [OF assms(1), of f u]
    by (auto simp del: PIAS_Search_Table.simps split: option.splits Option.bind_splits)
next
  case (Op_read f)
  then show ?thesis using assms by (auto simp del: PIAS_Search_Table.simps split: Option.bind_splits)
next
  case Op_clear
  then show ?thesis using assms PIAS_Clear_Table_spec [OF assms(1)] by (auto simp del: PIAS_Clear_Table.simps)
qed

section \<open>The table the lists stand for\<close>

definition chain_list :: "shared_table \<Rightarrow> nat \<Rightarrow> PIAS_Flow_List" where
  "chain_list s b = \<lparr>flows = map (\<lambda>p. the (heap s p)) (nodes (flow_chains s b)), list_len = nodes_len (flow_chains s b)\<rparr>"

lemma chain_list_callers [simp]: "chain_list (s\<lparr>callers := cs\<rparr>) = chain_list s"
  by (auto simp: chain_list_def)

lemma chain_list_size [simp]: "chain_list (s\<lparr>chain_size := k\<rparr>) = chain_list s"
  by (auto simp: chain_list_def)

text \<open>A change of the size that is still due counts as made.\<close>

primrec size_due :: "caller \<Rightarrow> i32" where
  "size_due (Ready r) = 0"
| "size_due (Searching call at) = 0"
| "size_due (Allocating f) = 0"
| "size_due (Linking f a) = 0"
| "size_due (Unlinking f q) = 0"
| "size_due (Changing f u m q) = 0"
| "size_due (Reading f q) = 0"
| "size_due (Resizing d r) = d"
| "size_due (Clearing i) = 0"

definition sizes_due :: "nat \<Rightarrow> (nat \<Rightarrow> caller) \<Rightarrow> i32" where
  "sizes_due n cs = (\<Sum>c<n. size_due (cs c))"

definition raw_table :: "nat \<Rightarrow> shared_table \<Rightarrow> PIAS_Flow_Table" where
  "raw_table n s =
     \<lparr>flow_lists = map (chain_list s) [0..<PIAS_HASH_RANGE],
      table_size = chain_size s + sizes_due n (callers s)\<rparr>"

definition node_key :: "shared_table \<Rightarrow> nat \<Rightarrow> flow_key" where
  "node_key s p = key_of (the (heap s p))"

lemma sizes_due_update [simp]:
  assumes "c < n"
  shows "sizes_due n (cs(c := x)) = sizes_due n cs + size_due x - size_due (cs c)"
proof -
  have "sizes_due n cs' = size_due (cs' c) + (\<Sum>d\<in>{..<n} - {c}. size_due (cs' d))" for cs'
    unfolding sizes_due_def using assms by (intro sum.remove) auto
  then show ?thesis by (simp add: algebra_simps)
qed

lemma bucket_key [simp]: "bucket f = key_hash (key_of f)"
  by (simp add: bucket_def)

lemma raw_table_list [simp]:
  "b < PIAS_HASH_RANGE \<Longrightarrow> flow_lists (raw_table n s) ! b = chain_list s b"
  by (simp add: raw_table_def)

lemma chain_list_keys [simp]:
  "key_of ` set (flows (chain_list s b)) = node_key s ` set (nodes (flow_chains s b))"
  "list_len (chain_list s b) = nodes_len (flow_chains s b)"
  "map key_of (flows (chain_list s b)) = map (node_key s) (nodes (flow_chains s b))"
  by (auto simp: chain_list_def node_key_def image_image)

text \<open>What a well-formed table says of the addresses.\<close>

lemma chain_facts:
  assumes "wf_table (raw_table n s)" "b < PIAS_HASH_RANGE"
  shows "distinct (map (node_key s) (nodes (flow_chains s b)))" "distinct (nodes (flow_chains s b))"
    "\<And>p. p \<in> set (nodes (flow_chains s b)) \<Longrightarrow> key_hash (node_key s p) = b"
proof -
  have wf: "wf_bucket b (chain_list s b)" using assms by (auto simp: wf_table_def)
  then show "distinct (map (node_key s) (nodes (flow_chains s b)))"
    by (simp add: wf_bucket_def)
  then show "distinct (nodes (flow_chains s b))" by (simp add: distinct_map)
  show "key_hash (node_key s p) = b" if "p \<in> set (nodes (flow_chains s b))" for p
    using wf that by (auto simp: wf_bucket_def chain_list_def node_key_def)
qed

lemma remove1_at: "distinct ns \<Longrightarrow> j < length ns \<Longrightarrow> remove1 (ns ! j) ns = take j ns @ drop (Suc j) ns"
proof (induction ns arbitrary: j)
  case (Cons p ns)
  then show ?case by (cases j) auto
qed simp

text \<open>How the guarded sections change the table.\<close>

lemma link_run:
  assumes wf: "wf_table (raw_table n s)" and c: "c < n" "size_due (callers s c) = 0"
    and new: "heap s a = Some f" "key_of f \<notin> node_key s ` set (nodes (flow_chains s (bucket f)))"
  shows "run_op (Op_insert True f) (raw_table n s) = Some (Inserted True,
    raw_table n ((link_tail (bucket f) a s)\<lparr>callers := (callers s)(c := Resizing 1 r)\<rparr>))"
proof -
  let ?b = "key_hash (key_of f)" and ?t = "(link_tail (bucket f) a s)\<lparr>callers := (callers s)(c := Resizing 1 r)\<rparr>"
  have "map (chain_list ?t) [0..<PIAS_HASH_RANGE] = (map (chain_list s) [0..<PIAS_HASH_RANGE])[?b :=
      (chain_list s ?b)\<lparr>flows := flows (chain_list s ?b) @ [f], list_len := list_len (chain_list s ?b) + 1\<rparr>]"
    using new(1) by (auto simp: link_tail_def chain_list_def nth_list_update intro!: nth_equalityI)
  then show ?thesis
    using run_op_absent(1) [OF wf refl, of f] new(2) c by (simp add: raw_table_def link_tail_def)
qed

text \<open>The place of an entry in its list.\<close>

lemma node_place:
  assumes wf: "wf_table (raw_table n s)"
    and q: "q \<in> set (nodes (flow_chains s (bucket f)))" "node_key s q = key_of f" "heap s q = Some g"
  obtains j where "j < length (flows (chain_list s (key_hash (key_of f))))"
    "flows (chain_list s (key_hash (key_of f))) ! j = g" "key_of g = key_of f"
    "nodes (flow_chains s (bucket f)) ! j = q" "j < length (nodes (flow_chains s (bucket f)))"
proof -
  obtain j where "j < length (nodes (flow_chains s (bucket f)))" "nodes (flow_chains s (bucket f)) ! j = q"
    using q(1) by (auto simp: in_set_conv_nth)
  with q(2,3) that show ?thesis by (simp add: chain_list_def node_key_def)
qed

lemma other_list:
  assumes "wf_table (raw_table n s)" "q \<in> set (nodes (flow_chains s b))" "b < PIAS_HASH_RANGE"
    "b' < PIAS_HASH_RANGE" "b' \<noteq> b"
  shows "q \<notin> set (nodes (flow_chains s b'))"
  using chain_facts(3) [OF assms(1), of b q] chain_facts(3) [OF assms(1), of b' q] assms(2-5) by auto

lemma unlink_run:
  assumes wf: "wf_table (raw_table n s)" and c: "c < n" "size_due (callers s c) = 0"
    and q: "q \<in> set (nodes (flow_chains s (bucket f)))" "node_key s q = key_of f" "heap s q = Some g"
  shows "run_op (Op_delete f) (raw_table n s) = Some (Deleted (max 1 (bytes_sent (info g))),
    raw_table n ((unlink (bucket f) q s)\<lparr>callers := (callers s)(c := Resizing (- 1) r)\<rparr>))"
proof -
  let ?b = "key_hash (key_of f)" and ?t = "(unlink (bucket f) q s)\<lparr>callers := (callers s)(c := Resizing (- 1) r)\<rparr>"
  obtain j where j: "j < length (flows (chain_list s ?b))" "flows (chain_list s ?b) ! j = g" "key_of g = key_of f"
    "nodes (flow_chains s ?b) ! j = q" "j < length (nodes (flow_chains s ?b))"
    by (rule node_place [OF wf q]) simp
  have dist: "distinct (nodes (flow_chains s ?b))" using chain_facts(2) [OF wf] by simp
  have rest: "remove1 q (nodes (flow_chains s ?b)) =
      take j (nodes (flow_chains s ?b)) @ drop (Suc j) (nodes (flow_chains s ?b))"
    using remove1_at [OF dist j(5)] j(4) by simp
  have gone: "q \<notin> set (remove1 q (nodes (flow_chains s ?b)))" using dist by simp
  then have same: "map (\<lambda>p. the (((heap s)(q := None)) p)) (remove1 q (nodes (flow_chains s ?b))) =
      map (\<lambda>p. the (heap s p)) (remove1 q (nodes (flow_chains s ?b)))" by (intro map_cong) auto
  have "chain_list ?t b = (if b = ?b then (chain_list s ?b)\<lparr>flows := take j (flows (chain_list s ?b))
      @ drop (Suc j) (flows (chain_list s ?b)), list_len := list_len (chain_list s ?b) - 1\<rparr> else chain_list s b)"
    if b: "b < PIAS_HASH_RANGE" for b
  proof (cases "b = ?b")
    case True
    then show ?thesis using same rest
      by (simp add: unlink_def chain_list_def take_map [symmetric] drop_map [symmetric])
  next
    case False
    then have "q \<notin> set (nodes (flow_chains s b))" using other_list [OF wf q(1)] b by simp
    then show ?thesis using False by (auto simp: unlink_def chain_list_def)
  qed
  then have "map (chain_list ?t) [0..<PIAS_HASH_RANGE] = (map (chain_list s) [0..<PIAS_HASH_RANGE])[?b :=
      (chain_list s ?b)\<lparr>flows := take j (flows (chain_list s ?b)) @ drop (Suc j) (flows (chain_list s ?b)),
        list_len := list_len (chain_list s ?b) - 1\<rparr>]"
    by (intro nth_equalityI) (simp_all add: nth_list_update)
  then show ?thesis
    using run_op_present(2) [OF wf refl, of j f] j c by (simp add: raw_table_def unlink_def)
qed

lemma change_run:
  assumes wf: "wf_table (raw_table n s)" and c: "c < n" "size_due (callers s c) = 0" "size_due x = 0"
    and q: "q \<in> set (nodes (flow_chains s (bucket f)))" "node_key s q = key_of f" "heap s q = Some g"
  shows "run_op (Op_update f u) (raw_table n s) = Some (Updated True,
    raw_table n (s\<lparr>heap := (heap s)(q \<mapsto> g\<lparr>info := u (info g)\<rparr>), callers := (callers s)(c := x)\<rparr>))"
proof -
  let ?b = "key_hash (key_of f)"
    and ?t = "s\<lparr>heap := (heap s)(q \<mapsto> g\<lparr>info := u (info g)\<rparr>), callers := (callers s)(c := x)\<rparr>"
  obtain j where j: "j < length (flows (chain_list s ?b))" "flows (chain_list s ?b) ! j = g" "key_of g = key_of f"
    "nodes (flow_chains s ?b) ! j = q" "j < length (nodes (flow_chains s ?b))"
    by (rule node_place [OF wf q]) simp
  have dist: "distinct (nodes (flow_chains s ?b))" using chain_facts(2) [OF wf] by simp
  have "chain_list ?t b = (if b = ?b then (chain_list s ?b)\<lparr>flows := (flows (chain_list s ?b))
      [j := g\<lparr>info := u (info g)\<rparr>]\<rparr> else chain_list s b)"
    if b: "b < PIAS_HASH_RANGE" for b
  proof (cases "b = ?b")
    case True
    have "i < length (nodes (flow_chains s ?b)) \<Longrightarrow> nodes (flow_chains s ?b) ! i = q \<longleftrightarrow> i = j" for i
      using nth_eq_iff_index_eq [OF dist _ j(5)] j(4) by auto
    then show ?thesis using True by (auto simp: chain_list_def nth_list_update intro!: nth_equalityI)
  next
    case False
    then have "q \<notin> set (nodes (flow_chains s b))" using other_list [OF wf q(1)] b by simp
    then show ?thesis using False by (auto simp: chain_list_def)
  qed
  then have "map (chain_list ?t) [0..<PIAS_HASH_RANGE] = (map (chain_list s) [0..<PIAS_HASH_RANGE])[?b :=
      (chain_list s ?b)\<lparr>flows := (flows (chain_list s ?b))[j := g\<lparr>info := u (info g)\<rparr>]\<rparr>]"
    by (intro nth_equalityI) (simp_all add: nth_list_update)
  then show ?thesis
    using run_op_present(3) [OF wf refl, of j f u] j c by (simp add: raw_table_def)
qed

lemma read_run:
  assumes wf: "wf_table (raw_table n s)"
    and q: "q \<in> set (nodes (flow_chains s (bucket f)))" "node_key s q = key_of f" "heap s q = Some g"
  shows "run_op (Op_read f) (raw_table n s) = Some (Read_bytes (bytes_sent (info g)), raw_table n s)"
    "run_op (Op_insert kmalloc_ok f) (raw_table n s) = Some (Inserted False, raw_table n s)"
proof -
  obtain j where j: "j < length (flows (chain_list s (key_hash (key_of f))))"
    "flows (chain_list s (key_hash (key_of f))) ! j = g" "key_of g = key_of f"
    by (rule node_place [OF wf q])
  show "run_op (Op_read f) (raw_table n s) = Some (Read_bytes (bytes_sent (info g)), raw_table n s)"
    "run_op (Op_insert kmalloc_ok f) (raw_table n s) = Some (Inserted False, raw_table n s)"
    using run_op_present(1,4) [OF wf refl, of j f] j by (simp_all del: run_op.simps)
qed

lemma missed_run:
  assumes wf: "wf_table (raw_table n s)"
    and "key_of f \<notin> node_key s ` set (nodes (flow_chains s (bucket f)))"
  shows "run_op (Op_insert False f) (raw_table n s) = Some (Inserted False, raw_table n s)"
    "run_op (Op_delete f) (raw_table n s) = Some (Deleted 0, raw_table n s)"
    "run_op (Op_update f u) (raw_table n s) = Some (Updated False, raw_table n s)"
  using run_op_absent(2-4) [OF wf refl, of f] assms(2) by (simp_all del: run_op.simps)

section \<open>Going through a list\<close>

text \<open>The entries compared up to \<open>p\<close>.\<close>

definition compared :: "nat list \<Rightarrow> nat \<Rightarrow> nat list" where
  "compared ns p = takeWhile (\<lambda>q. q \<noteq> p) ns @ [p]"

lemma compared_append [simp]: "p \<in> set ns \<Longrightarrow> compared (ns @ ys) p = compared ns p"
  by (simp add: compared_def)

lemma next_node_head:
  "next_node ns None = None \<Longrightarrow> ns = []"
  "next_node ns None = Some q \<Longrightarrow> q \<in> set ns \<and> compared ns q = [q]"
  by (auto simp: next_node_def compared_def split: list.splits)

lemma next_node_inside:
  assumes "p \<in> set ns" "distinct ns"
  shows "next_node ns (Some p) = None \<Longrightarrow> set (compared ns p) = set ns"
    "next_node ns (Some p) = Some q \<Longrightarrow> q \<in> set ns \<and> compared ns q = compared ns p @ [q]"
proof -
  obtain xs ys where ns: "ns = xs @ p # ys" "p \<notin> set xs" using assms(1) split_list_first by metis
  then have rest: "dropWhile (\<lambda>q. q \<noteq> p) ns = p # ys" "takeWhile (\<lambda>q. q \<noteq> p) ns = xs"
    by (auto simp: dropWhile_append takeWhile_append)
  show "next_node ns (Some p) = None \<Longrightarrow> set (compared ns p) = set ns"
    using rest ns by (auto simp: next_node_def compared_def split: list.splits)
  show "q \<in> set ns \<and> compared ns q = compared ns p @ [q]" if "next_node ns (Some p) = Some q"
  proof -
    have "(case ys of [] \<Rightarrow> None | r # _ \<Rightarrow> Some r) = Some q" using that rest(1) by (simp add: next_node_def)
    then obtain zs where "ys = q # zs" by (cases ys) auto
    then show ?thesis using ns rest assms(2) by (auto simp: compared_def takeWhile_append)
  qed
qed

section \<open>The invariant\<close>

definition missing :: "shared_table \<Rightarrow> PIAS_Flow \<Rightarrow> bool" where
  "missing s f \<longleftrightarrow> key_of f \<notin> node_key s ` set (nodes (flow_chains s (bucket f)))"

definition found_at :: "shared_table \<Rightarrow> PIAS_Flow \<Rightarrow> nat \<Rightarrow> bool" where
  "found_at s f q \<longleftrightarrow> q \<in> set (nodes (flow_chains s (bucket f))) \<and> node_key s q = key_of f"

definition searched :: "shared_table \<Rightarrow> PIAS_Flow \<Rightarrow> nat option \<Rightarrow> bool" where
  "searched s f at = (case at of None \<Rightarrow> True | Some p \<Rightarrow>
     p \<in> set (nodes (flow_chains s (bucket f)))
   \<and> (\<forall>q\<in>set (compared (nodes (flow_chains s (bucket f))) p). node_key s q \<noteq> key_of f))"

primrec caller_ok :: "shared_table \<Rightarrow> caller \<Rightarrow> bool" where
  "caller_ok s (Ready r) = True"
| "caller_ok s (Searching call at) = searched s (call_flow call) at"
| "caller_ok s (Allocating f) = missing s f"
| "caller_ok s (Linking f a) = (missing s f \<and> heap s a = Some f
     \<and> (\<forall>b<PIAS_HASH_RANGE. a \<notin> set (nodes (flow_chains s b))))"
| "caller_ok s (Unlinking f q) = found_at s f q"
| "caller_ok s (Changing f u m q) = found_at s f q"
| "caller_ok s (Reading f q) = found_at s f q"
| "caller_ok s (Resizing d r) = True"
| "caller_ok s (Clearing i) = False"

text \<open>The entry a caller has allocated and not yet linked.\<close>

definition new_entry :: "caller \<Rightarrow> nat option" where
  "new_entry x = (case x of Linking f a \<Rightarrow> Some a | _ \<Rightarrow> None)"

definition apart :: "caller \<Rightarrow> caller \<Rightarrow> bool" where
  "apart x y \<longleftrightarrow>
     (case (pending_call x, pending_call y) of (Some a, Some b) \<Rightarrow> get_along a b | _ \<Rightarrow> True)
   \<and> (new_entry x = None \<or> new_entry x \<noteq> new_entry y)"

definition calls_ok :: "nat \<Rightarrow> shared_table \<Rightarrow> bool" where
  "calls_ok n s \<longleftrightarrow>
     wf_table (raw_table n s)
   \<and> (\<forall>b<PIAS_HASH_RANGE. set (nodes (flow_chains s b)) \<subseteq> dom (heap s))
   \<and> dom (heap s) \<subseteq> {..<next_addr s}
   \<and> (\<forall>c<n. caller_ok s (callers s c))
   \<and> (\<forall>c<n. \<forall>d<n. c \<noteq> d \<longrightarrow> apart (callers s c) (callers s d))"

lemma get_along_sym: "get_along a b \<longleftrightarrow> get_along b a"
  by (cases a; cases b) auto

lemma get_along_update: "get_along (Update_call f u m) other = get_along (Update_call f v k) other"
  by (cases other) auto

lemma apart_sym: "apart x y \<longleftrightarrow> apart y x"
  using get_along_sym by (auto simp: apart_def split: option.splits)

text \<open>What a step owes the invariant: its table, its caller, and the other callers.\<close>

lemma calls_ok_step:
  assumes ok: "calls_ok n s" and c: "c < n" and callers: "callers t = (callers s)(c := x)"
    and "wf_table (raw_table n t)"
    and "\<And>b. b < PIAS_HASH_RANGE \<Longrightarrow> set (nodes (flow_chains t b)) \<subseteq> dom (heap t)"
    and "dom (heap t) \<subseteq> {..<next_addr t}" and "caller_ok t x"
    and "\<And>d. d < n \<Longrightarrow> d \<noteq> c \<Longrightarrow> caller_ok t (callers s d)"
    and "\<And>d. d < n \<Longrightarrow> d \<noteq> c \<Longrightarrow> apart x (callers s d)"
  shows "calls_ok n t"
  using assms apart_sym unfolding calls_ok_def by auto

text \<open>A caller that goes on with the same call stays apart from the others.\<close>

lemma apart_goes_on:
  assumes "apart x y" "new_entry z = None"
    and "pending_call z = None \<or> (\<exists>a b. pending_call x = Some a \<and> pending_call z = Some b
      \<and> (\<forall>d. get_along a d \<longrightarrow> get_along b d))"
  shows "apart z y"
  using assms by (auto simp: apart_def split: option.splits)

text \<open>
  What the others know survives a step that, in the list of their call, at most appends entries,
  none of them equal to a flow they are about to insert.
\<close>

lemma caller_ok_frame:
  assumes ok: "caller_ok s x"
    and list: "\<And>call. pending_call x = Some call \<Longrightarrow>
      \<exists>ys. nodes (flow_chains t (bucket (call_flow call))) = nodes (flow_chains s (bucket (call_flow call))) @ ys
       \<and> (\<forall>p\<in>set (nodes (flow_chains s (bucket (call_flow call)))). node_key t p = node_key s p)
       \<and> (\<forall>f. call = Insert_call f \<longrightarrow> key_of f \<notin> node_key t ` set ys)"
    and new: "\<And>a. new_entry x = Some a \<Longrightarrow> heap t a = heap s a
      \<and> (\<forall>b<PIAS_HASH_RANGE. a \<in> set (nodes (flow_chains t b)) \<longrightarrow> a \<in> set (nodes (flow_chains s b)))"
  shows "caller_ok t x"
proof -
  have found: "found_at t f q" if "found_at s f q" "pending_call x = Some call" "call_flow call = f" for f q call
    using that list [OF that(2)] by (auto simp: found_at_def)
  have miss: "missing t f" if "missing s f" "pending_call x = Some (Insert_call f)" for f
  proof -
    note m = that
    let ?ns = "nodes (flow_chains s (bucket f))"
    obtain ys where ys: "nodes (flow_chains t (bucket f)) = ?ns @ ys"
      "\<forall>p\<in>set ?ns. node_key t p = node_key s p" "key_of f \<notin> node_key t ` set ys"
      using list [OF m(2)] by auto
    then have "node_key t ` set ?ns = node_key s ` set ?ns" by (intro image_cong) auto
    then show ?thesis using m(1) ys(1,3) by (simp add: missing_def image_Un)
  qed
  have search: "searched t (call_flow call) at" if "searched s (call_flow call) at" "pending_call x = Some call" for call at
  proof (cases at)
    case (Some p)
    let ?ns = "nodes (flow_chains s (bucket (call_flow call)))"
    have "set (compared ?ns p) \<subseteq> set ?ns" using that(1) Some by (auto simp: searched_def compared_def dest: set_takeWhileD)
    then show ?thesis using that(1) Some list [OF that(2)] by (auto simp: searched_def)
  qed (simp add: searched_def)
  show ?thesis
  proof (cases x)
    case (Linking f a)
    then show ?thesis using ok miss new [of a] by (auto simp: new_entry_def)
  qed (use ok found miss search in auto)
qed

section \<open>Every step\<close>

lemma caller_ok_callers [simp]: "caller_ok (s\<lparr>callers := cs\<rparr>) x = caller_ok s x"
  by (cases x) (simp_all add: searched_def missing_def found_at_def node_key_def split: option.split)

lemma caller_ok_size [simp]: "caller_ok (s\<lparr>chain_size := k\<rparr>) x = caller_ok s x"
  by (cases x) (simp_all add: searched_def missing_def found_at_def node_key_def split: option.split)

lemma calls_ok_facts:
  assumes "calls_ok n s"
  shows "wf_table (raw_table n s)"
    "b < PIAS_HASH_RANGE \<Longrightarrow> p \<in> set (nodes (flow_chains s b)) \<Longrightarrow> \<exists>g. heap s p = Some g"
    "heap s p = Some g \<Longrightarrow> p < next_addr s"
    "c < n \<Longrightarrow> caller_ok s (callers s c)"
    "c < n \<Longrightarrow> d < n \<Longrightarrow> c \<noteq> d \<Longrightarrow> apart (callers s c) (callers s d)"
  using assms by (auto simp: calls_ok_def)

text \<open>A caller alone moves on: lists and entries stay.\<close>

lemma quiet_step:
  assumes ok: "calls_ok n s" and c: "c < n" and due: "size_due x = size_due (callers s c)"
    and "caller_ok s x" "\<And>d. d < n \<Longrightarrow> d \<noteq> c \<Longrightarrow> apart x (callers s d)"
  shows "raw_table n (s\<lparr>callers := (callers s)(c := x)\<rparr>) = raw_table n s
    \<and> calls_ok n (s\<lparr>callers := (callers s)(c := x)\<rparr>)"
proof
  have "chain_list (s\<lparr>callers := (callers s)(c := x)\<rparr>) = chain_list s" by (auto simp: chain_list_def)
  then show same: "raw_table n (s\<lparr>callers := (callers s)(c := x)\<rparr>) = raw_table n s"
    using c due by (simp add: raw_table_def)
  show "calls_ok n (s\<lparr>callers := (callers s)(c := x)\<rparr>)"
    by (rule calls_ok_step [OF ok c]) (use ok assms(4,5) same in \<open>auto simp: calls_ok_def\<close>)
qed

text \<open>A search goes on, ends with an entry that equals the flow, or ends at the head without one.\<close>

lemma search_step_result:
  assumes wf: "wf_table (raw_table n s)"
    and nodes: "\<And>p. p \<in> set (nodes (flow_chains s (bucket f))) \<Longrightarrow> \<exists>g. heap s p = Some g"
    and at: "searched s f at"
  obtains "search_step f at s = Some (None, False)" "missing s f"
  | q where "search_step f at s = Some (Some q, True)" "found_at s f q"
  | q where "search_step f at s = Some (Some q, False)" "searched s f (Some q)"
proof -
  let ?ns = "nodes (flow_chains s (bucket f))"
  have dist: "distinct ?ns" using chain_facts(2) [OF wf] by simp
  have here: "\<exists>g. (case at of None \<Rightarrow> Some f | Some p \<Rightarrow> heap s p) = Some g"
    using at nodes by (auto simp: searched_def split: option.splits)
  show ?thesis
  proof (cases "next_node ?ns at")
    case None
    then have "missing s f"
      using at next_node_head(1) [of ?ns] next_node_inside(1) [OF _ dist]
      by (cases at) (auto simp: searched_def missing_def)
    then show ?thesis using that(1) None here by (auto simp: search_step_def)
  next
    case (Some q)
    then have q: "q \<in> set ?ns" "\<forall>p\<in>set (compared ?ns q) - {q}. node_key s p \<noteq> key_of f"
      using at next_node_head(2) [of ?ns] next_node_inside(2) [OF _ dist]
      by (cases at; auto simp: searched_def)+
    then obtain g where g: "heap s q = Some g" using nodes by blast
    have "search_step f at s = Some (Some q, node_key s q = key_of f)"
      using Some here g by (auto simp: search_step_def node_key_def)
    then show ?thesis
      using that(2,3) q by (cases "node_key s q = key_of f") (auto simp: found_at_def searched_def)
  qed
qed

text \<open>What a step of caller \<open>c\<close> has to do: succeed, keep the invariant, and be the operation it stands for.\<close>

definition good_step :: "nat \<Rightarrow> nat \<Rightarrow> bool \<Rightarrow> shared_table \<Rightarrow> bool" where
  "good_step n c kmalloc_ok s \<longleftrightarrow>
     (\<exists>x t. caller_step kmalloc_ok (callers s c) s = Some (x, t) \<and> callers t = callers s
      \<and> calls_ok n (t\<lparr>callers := (callers s)(c := x)\<rparr>)
      \<and> run_ops (map (Pair c) (op_of_step kmalloc_ok (callers s c) x)) (raw_table n s)
          = Some (raw_table n (t\<lparr>callers := (callers s)(c := x)\<rparr>)))"

lemma run_ops_simps [simp]:
  "run_ops [] ft = Some ft"
  "run_ops ((c, op, r) # h) ft = Option.bind (run_op op ft) (\<lambda>(r', ft'). if r' = r then run_ops h ft' else None)"
  by (cases "run_op op ft"; auto simp: run_ops_def)+

lemma run_ops_append: "run_ops (h @ k) ft = Option.bind (run_ops h ft) (run_ops k)"
  by (simp add: run_ops_def fold_option_append)

lemma quiet_good:
  assumes ok: "calls_ok n s" and c: "c < n"
    and "caller_step kmalloc_ok (callers s c) s = Some (x, s)" "size_due x = size_due (callers s c)"
    and "caller_ok s x" "new_entry x = None"
    and "pending_call x = None \<or> (\<exists>a b. pending_call (callers s c) = Some a \<and> pending_call x = Some b
      \<and> (\<forall>d. get_along a d \<longrightarrow> get_along b d))"
    and "run_ops (map (Pair c) (op_of_step kmalloc_ok (callers s c) x)) (raw_table n s) = Some (raw_table n s)"
  shows "good_step n c kmalloc_ok s"
proof -
  have "apart x (callers s d)" if "d < n" "d \<noteq> c" for d
    using apart_goes_on [OF calls_ok_facts(5) [OF ok c that(1)] assms(6,7)] that(2) by auto
  then show ?thesis
    using quiet_step [OF ok c assms(4,5)] assms(3,8) by (auto simp: good_step_def)
qed

text \<open>The steps of a caller, one kind after the other.\<close>

lemma searching_good:
  assumes ok: "calls_ok n s" and c: "c < n" and x: "callers s c = Searching call at"
  shows "good_step n c kmalloc_ok s"
proof -
  let ?f = "call_flow call"
  note wf = calls_ok_facts(1) [OF ok]
  have nodes: "\<exists>g. heap s p = Some g" if "p \<in> set (nodes (flow_chains s (bucket ?f)))" for p
    using calls_ok_facts(2) [OF ok _ that] by simp
  have at: "searched s ?f at" using calls_ok_facts(4) [OF ok c] x by simp
  show ?thesis
  proof (rule search_step_result [OF wf nodes at])
    assume step: "search_step ?f at s = Some (None, False)" and miss: "missing s ?f"
    have run: "run_ops (map (Pair c) (op_of_step kmalloc_ok (callers s c) (after_missed call))) (raw_table n s) = Some (raw_table n s)"
      using missed_run [OF wf, of ?f] miss
      by (cases call) (simp_all add: x op_of_step_def op_of_call_def missing_def del: run_op.simps)
    show ?thesis
      by (rule quiet_good [OF ok c _ _ _ _ _ run])
        (use step miss x in \<open>cases call; auto simp: new_entry_def\<close>)+
  next
    fix q assume step: "search_step ?f at s = Some (Some q, True)" and found: "found_at s ?f q"
    obtain g where "heap s q = Some g" using nodes found by (auto simp: found_at_def)
    then have run: "run_ops (map (Pair c) (op_of_step kmalloc_ok (callers s c) (after_found q call))) (raw_table n s) = Some (raw_table n s)"
      using read_run(2) [OF wf, of q ?f] found
      by (cases call) (simp_all add: x op_of_step_def op_of_call_def found_at_def del: run_op.simps)
    show ?thesis
      by (rule quiet_good [OF ok c _ _ _ _ _ run])
        (use step found x in \<open>cases call; auto simp: new_entry_def\<close>)+
  next
    fix q assume step: "search_step ?f at s = Some (Some q, False)" and "searched s ?f (Some q)"
    then show ?thesis
      by (intro quiet_good [OF ok c, where x = "Searching call (Some q)"])
        (auto simp: x op_of_step_def new_entry_def)
  qed
qed

lemma reading_good:
  assumes ok: "calls_ok n s" and c: "c < n" and x: "callers s c = Reading f q"
  shows "good_step n c kmalloc_ok s"
proof -
  have found: "found_at s f q" using calls_ok_facts(4) [OF ok c] x by simp
  then obtain g where g: "heap s q = Some g" using calls_ok_facts(2) [OF ok, of "bucket f" q]
    by (auto simp: found_at_def)
  then show ?thesis
    using read_run(1) [OF calls_ok_facts(1) [OF ok] _ _ g, of f] found
    by (intro quiet_good [OF ok c, where x = "Ready (Some (Read_bytes (bytes_sent (info g))))"])
      (auto simp: x op_of_step_def new_entry_def found_at_def simp del: run_op.simps)
qed

lemma linking_good:
  assumes ok: "calls_ok n s" and c: "c < n" and x: "callers s c = Linking f a"
  shows "good_step n c kmalloc_ok s"
proof -
  let ?x = "Resizing 1 (Inserted True)"
  let ?t = "(link_tail (bucket f) a s)\<lparr>callers := (callers s)(c := ?x)\<rparr>"
  have own: "missing s f" "heap s a = Some f" using calls_ok_facts(4) [OF ok c] x by simp_all
  have run: "run_op (Op_insert True f) (raw_table n s) = Some (Inserted True, raw_table n ?t)"
    using link_run [OF calls_ok_facts(1) [OF ok] c _ own(2)] own(1) x by (simp add: missing_def del: run_op.simps)
  have key: "node_key ?t = node_key s" by (auto simp: node_key_def link_tail_def)
  have "calls_ok n ?t"
  proof (rule calls_ok_step [OF ok c])
    show "wf_table (raw_table n ?t)" using run_op_wf [OF calls_ok_facts(1) [OF ok] run] .
    show "apart ?x (callers s d)" if "d < n" "d \<noteq> c" for d by (simp add: apart_def new_entry_def)
    show "caller_ok ?t (callers s d)" if d: "d < n" "d \<noteq> c" for d
    proof (rule caller_ok_frame [OF calls_ok_facts(4) [OF ok d(1)]])
      note away = calls_ok_facts(5) [OF ok c d(1)]
      fix call assume call: "pending_call (callers s d) = Some call"
      have "key_of g \<noteq> key_of f" if "call = Insert_call g" for g
        using away d(2) x call that by (auto simp: apart_def)
      then show "\<exists>ys. nodes (flow_chains ?t (bucket (call_flow call))) = nodes (flow_chains s (bucket (call_flow call))) @ ys
       \<and> (\<forall>p\<in>set (nodes (flow_chains s (bucket (call_flow call)))). node_key ?t p = node_key s p)
       \<and> (\<forall>g. call = Insert_call g \<longrightarrow> key_of g \<notin> node_key ?t ` set ys)"
        using own(2) unfolding key by (auto simp: link_tail_def node_key_def)
    next
      fix a' assume "new_entry (callers s d) = Some a'"
      then have "a' \<noteq> a" using calls_ok_facts(5) [OF ok c d(1)] d(2) x by (auto simp: apart_def new_entry_def)
      then show "heap ?t a' = heap s a'
        \<and> (\<forall>b<PIAS_HASH_RANGE. a' \<in> set (nodes (flow_chains ?t b)) \<longrightarrow> a' \<in> set (nodes (flow_chains s b)))"
        by (auto simp: link_tail_def)
    qed
    show "set (nodes (flow_chains ?t b)) \<subseteq> dom (heap ?t)" if "b < PIAS_HASH_RANGE" for b
      using calls_ok_facts(2) [OF ok that] own(2) by (auto simp: link_tail_def)
    show "dom (heap ?t) \<subseteq> {..<next_addr ?t}" using calls_ok_facts(3) [OF ok] by (auto simp: link_tail_def)
  qed (simp_all add: link_tail_def)
  with run show ?thesis by (auto simp: good_step_def x op_of_step_def link_tail_def simp del: run_op.simps)
qed

lemma allocating_good:
  assumes ok: "calls_ok n s" and c: "c < n" and x: "callers s c = Allocating f"
  shows "good_step n c kmalloc_ok s"
proof (cases kmalloc_ok)
  case False
  have "missing s f" using calls_ok_facts(4) [OF ok c] x by simp
  then show ?thesis
    using missed_run(1) [OF calls_ok_facts(1) [OF ok]] False
    by (intro quiet_good [OF ok c, where x = "Ready (Some (Inserted False))"])
      (auto simp: x op_of_step_def new_entry_def missing_def simp del: run_op.simps)
next
  case True
  let ?a = "next_addr s" and ?x = "Linking f (next_addr s)"
  let ?u = "s\<lparr>heap := (heap s)(next_addr s \<mapsto> f), next_addr := next_addr s + 1\<rparr>"
  let ?t = "?u\<lparr>callers := (callers s)(c := ?x)\<rparr>"
  note wf = calls_ok_facts(1) [OF ok]
  have own: "missing s f" using calls_ok_facts(4) [OF ok c] x by simp
  have fresh: "heap s ?a = None" using calls_ok_facts(3) [OF ok, of ?a] by (cases "heap s ?a") auto
  have out: "?a \<notin> set (nodes (flow_chains s b))" if "b < PIAS_HASH_RANGE" for b
    using calls_ok_facts(2) [OF ok that, of ?a] fresh by auto
  have key: "node_key ?t p = node_key s p" if "p \<noteq> ?a" for p using that by (simp add: node_key_def)
  have "chain_list ?t b = chain_list s b" if "b < PIAS_HASH_RANGE" for b
    using out [OF that] by (auto simp: chain_list_def intro!: map_cong)
  then have same: "raw_table n ?t = raw_table n s" using c x by (simp add: raw_table_def)
  have frame: "caller_ok ?t y" if "caller_ok s y" "new_entry y \<noteq> Some ?a" for y
  proof (rule caller_ok_frame [OF that(1)])
    show "\<exists>ys. nodes (flow_chains ?t (bucket (call_flow call))) = nodes (flow_chains s (bucket (call_flow call))) @ ys
       \<and> (\<forall>p\<in>set (nodes (flow_chains s (bucket (call_flow call)))). node_key ?t p = node_key s p)
       \<and> (\<forall>g. call = Insert_call g \<longrightarrow> key_of g \<notin> node_key ?t ` set ys)" for call
      using out by (auto simp: node_key_def)
    show "heap ?t a = heap s a \<and> (\<forall>b<PIAS_HASH_RANGE. a \<in> set (nodes (flow_chains ?t b)) \<longrightarrow> a \<in> set (nodes (flow_chains s b)))"
      if "new_entry y = Some a" for a using that \<open>new_entry y \<noteq> Some ?a\<close> by auto
  qed
  have old: "new_entry (callers s d) \<noteq> Some ?a" if "d < n" for d
    using calls_ok_facts(4) [OF ok that] fresh by (auto simp: new_entry_def split: caller.splits)
  have "calls_ok n ?t"
  proof (rule calls_ok_step [OF ok c])
    show "wf_table (raw_table n ?t)" using wf same by simp
    show "caller_ok ?t ?x" using frame [of "Allocating f"] own out by (simp add: new_entry_def)
    show "caller_ok ?t (callers s d)" if "d < n" "d \<noteq> c" for d
      using frame [OF calls_ok_facts(4) [OF ok that(1)] old [OF that(1)]] .
    show "apart ?x (callers s d)" if "d < n" "d \<noteq> c" for d
      using calls_ok_facts(5) [OF ok c that(1)] old [OF that(1)] that(2) x
      by (auto simp: apart_def new_entry_def split: option.splits caller.splits)
    show "set (nodes (flow_chains ?t b)) \<subseteq> dom (heap ?t)" if "b < PIAS_HASH_RANGE" for b
      using calls_ok_facts(2) [OF ok that] by auto
    show "dom (heap ?t) \<subseteq> {..<next_addr ?t}" using calls_ok_facts(3) [OF ok] by fastforce
  qed simp
  with same True show ?thesis by (auto simp: good_step_def x op_of_step_def)
qed

lemma unlinking_good:
  assumes ok: "calls_ok n s" and c: "c < n" and x: "callers s c = Unlinking f q"
  shows "good_step n c kmalloc_ok s"
proof -
  note wf = calls_ok_facts(1) [OF ok]
  have found: "q \<in> set (nodes (flow_chains s (bucket f)))" "node_key s q = key_of f"
    using calls_ok_facts(4) [OF ok c] x by (simp_all add: found_at_def)
  obtain g where g: "heap s q = Some g" using calls_ok_facts(2) [OF ok _ found(1)] by auto
  let ?r = "Deleted (max 1 (bytes_sent (info g)))"
  let ?t = "(unlink (bucket f) q s)\<lparr>callers := (callers s)(c := Resizing (- 1) ?r)\<rparr>"
  have run: "run_op (Op_delete f) (raw_table n s) = Some (?r, raw_table n ?t)"
    using unlink_run [OF wf c _ found g] x by (simp del: run_op.simps)
  have dist: "distinct (nodes (flow_chains s (bucket f)))" using chain_facts(2) [OF wf] by simp
  have key: "node_key ?t p = node_key s p" if "p \<noteq> q" for p using that by (simp add: node_key_def unlink_def)
  have shrinks: "set (nodes (flow_chains ?t b)) \<subseteq> set (nodes (flow_chains s b)) - {q}" if "b < PIAS_HASH_RANGE" for b
    using dist other_list [OF wf found(1) _ that] by (auto simp: unlink_def)
  have "calls_ok n ?t"
  proof (rule calls_ok_step [OF ok c])
    show "wf_table (raw_table n ?t)" using run_op_wf [OF wf run] .
    show "apart (Resizing (- 1) ?r) (callers s d)" if "d < n" "d \<noteq> c" for d by (simp add: apart_def new_entry_def)
    show "caller_ok ?t (callers s d)" if d: "d < n" "d \<noteq> c" for d
    proof (rule caller_ok_frame [OF calls_ok_facts(4) [OF ok d(1)]])
      fix call assume call: "pending_call (callers s d) = Some call"
      have away: "bucket (call_flow call) \<noteq> bucket f"
        using calls_ok_facts(5) [OF ok c d(1)] d(2) x call by (auto simp: apart_def)
      moreover have "q \<notin> set (nodes (flow_chains s (bucket (call_flow call))))"
        using other_list [OF wf found(1) _ _ away] by simp
      ultimately show "\<exists>ys. nodes (flow_chains ?t (bucket (call_flow call))) = nodes (flow_chains s (bucket (call_flow call))) @ ys
       \<and> (\<forall>p\<in>set (nodes (flow_chains s (bucket (call_flow call)))). node_key ?t p = node_key s p)
       \<and> (\<forall>g. call = Insert_call g \<longrightarrow> key_of g \<notin> node_key ?t ` set ys)"
        by (auto simp: unlink_def node_key_def)
    next
      fix a assume a: "new_entry (callers s d) = Some a"
      then have "a \<notin> set (nodes (flow_chains s (bucket f)))"
        using calls_ok_facts(4) [OF ok d(1)] by (auto simp: new_entry_def split: caller.splits)
      then have "a \<noteq> q" using found(1) by auto
      then show "heap ?t a = heap s a
        \<and> (\<forall>b<PIAS_HASH_RANGE. a \<in> set (nodes (flow_chains ?t b)) \<longrightarrow> a \<in> set (nodes (flow_chains s b)))"
        using shrinks by (auto simp: unlink_def)
    qed
    show "set (nodes (flow_chains ?t b)) \<subseteq> dom (heap ?t)" if "b < PIAS_HASH_RANGE" for b
      using shrinks [OF that] calls_ok_facts(2) [OF ok that] by (fastforce simp: unlink_def)
    show "dom (heap ?t) \<subseteq> {..<next_addr ?t}" using calls_ok_facts(3) [OF ok] by (auto simp: unlink_def)
  qed (simp_all add: unlink_def)
  with run g show ?thesis by (auto simp: good_step_def x op_of_step_def unlink_def simp del: run_op.simps)
qed

lemma changing_good:
  assumes ok: "calls_ok n s" and c: "c < n" and x: "callers s c = Changing f u m q"
  shows "good_step n c kmalloc_ok s"
proof -
  note wf = calls_ok_facts(1) [OF ok]
  have found: "q \<in> set (nodes (flow_chains s (bucket f)))" "node_key s q = key_of f"
    using calls_ok_facts(4) [OF ok c] x by (simp_all add: found_at_def)
  obtain g where g: "heap s q = Some g" using calls_ok_facts(2) [OF ok _ found(1)] by auto
  let ?x = "if m then Reading f q else Ready (Some (Updated True))"
  let ?u = "s\<lparr>heap := (heap s)(q \<mapsto> g\<lparr>info := u (info g)\<rparr>)\<rparr>"
  let ?t = "?u\<lparr>callers := (callers s)(c := ?x)\<rparr>"
  have run: "run_op (Op_update f u) (raw_table n s) = Some (Updated True, raw_table n ?t)"
    using change_run [OF wf c _ _ found g, of ?x u] x by (simp del: run_op.simps split: if_splits)
  have key: "node_key ?t = node_key s" using g by (auto simp: node_key_def)
  have "calls_ok n ?t"
  proof (rule calls_ok_step [OF ok c])
    show "wf_table (raw_table n ?t)" using run_op_wf [OF wf run] .
    show "caller_ok ?t ?x" using found g by (simp add: found_at_def node_key_def)
    have "\<forall>d. get_along (Update_call f u m) d \<longrightarrow> get_along (Update_call f id True) d"
      using get_along_update by blast
    then show "apart ?x (callers s d)" if "d < n" "d \<noteq> c" for d
      using apart_goes_on [OF calls_ok_facts(5) [OF ok c that(1)], of ?x] that(2) x
      by (auto simp: new_entry_def)
    show "caller_ok ?t (callers s d)" if d: "d < n" "d \<noteq> c" for d
    proof (rule caller_ok_frame [OF calls_ok_facts(4) [OF ok d(1)]])
      show "\<exists>ys. nodes (flow_chains ?t (bucket (call_flow call))) = nodes (flow_chains s (bucket (call_flow call))) @ ys
       \<and> (\<forall>p\<in>set (nodes (flow_chains s (bucket (call_flow call)))). node_key ?t p = node_key s p)
       \<and> (\<forall>g. call = Insert_call g \<longrightarrow> key_of g \<notin> node_key ?t ` set ys)" for call
        unfolding key by simp
      fix a assume "new_entry (callers s d) = Some a"
      then have "a \<notin> set (nodes (flow_chains s (bucket f)))"
        using calls_ok_facts(4) [OF ok d(1)] by (auto simp: new_entry_def split: caller.splits)
      then show "heap ?t a = heap s a
        \<and> (\<forall>b<PIAS_HASH_RANGE. a \<in> set (nodes (flow_chains ?t b)) \<longrightarrow> a \<in> set (nodes (flow_chains s b)))"
        using found(1) by auto
    qed
    show "set (nodes (flow_chains ?t b)) \<subseteq> dom (heap ?t)" if "b < PIAS_HASH_RANGE" for b
      using calls_ok_facts(2) [OF ok that] by fastforce
    show "dom (heap ?t) \<subseteq> {..<next_addr ?t}" using calls_ok_facts(3) [OF ok] g by auto
  qed simp
  with run g show ?thesis by (auto simp: good_step_def x op_of_step_def simp del: run_op.simps)
qed

lemma resizing_good:
  assumes ok: "calls_ok n s" and c: "c < n" and x: "callers s c = Resizing d r"
  shows "good_step n c kmalloc_ok s"
proof -
  let ?t = "s\<lparr>chain_size := chain_size s + d, callers := (callers s)(c := Ready (Some r))\<rparr>"
  have "chain_list ?t = chain_list s" by (auto simp: chain_list_def)
  then have same: "raw_table n ?t = raw_table n s" using c x by (simp add: raw_table_def)
  have frame: "caller_ok ?t y = caller_ok s y" for y
    by simp
  have "calls_ok n ?t"
    by (rule calls_ok_step [OF ok c]) (use ok same frame in \<open>auto simp: calls_ok_def apart_def new_entry_def\<close>)
  with same show ?thesis by (auto simp: good_step_def x op_of_step_def)
qed

lemma every_step_good:
  assumes ok: "calls_ok n s" and c: "c < n"
  shows "good_step n c kmalloc_ok s"
proof (cases "callers s c")
  case (Ready r)
  then show ?thesis
    by (intro quiet_good [OF ok c, where x = "Ready r"]) (auto simp: op_of_step_def new_entry_def)
next
  case (Clearing i)
  then show ?thesis using calls_ok_facts(4) [OF ok c] by simp
qed (use searching_good [OF assms] allocating_good [OF assms] linking_good [OF assms] unlinking_good [OF assms]
    changing_good [OF assms] reading_good [OF assms] resizing_good [OF assms] in auto)

section \<open>Clearing\<close>

text \<open>
  While a caller clears the table, all others are ready, and the lists stand for the table as it
  will be when all of them are cleared.
\<close>

definition is_clearing :: "nat \<Rightarrow> shared_table \<Rightarrow> bool" where
  "is_clearing n s \<longleftrightarrow> (\<exists>c<n. \<exists>i. callers s c = Clearing i)"

definition table_of :: "nat \<Rightarrow> shared_table \<Rightarrow> PIAS_Flow_Table" where
  "table_of n s = (if is_clearing n s
     then \<lparr>flow_lists = map (\<lambda>b. cleared (chain_list s b)) [0..<PIAS_HASH_RANGE], table_size = 0\<rparr>
     else raw_table n s)"

definition clear_ok :: "nat \<Rightarrow> nat \<Rightarrow> nat \<Rightarrow> shared_table \<Rightarrow> bool" where
  "clear_ok n c i s \<longleftrightarrow>
     c < n \<and> callers s c = Clearing i \<and> (\<forall>d<n. d \<noteq> c \<longrightarrow> is_ready (callers s d))
   \<and> wf_table (table_of n s)
   \<and> (\<forall>b<PIAS_HASH_RANGE. wf_bucket b (chain_list s b) \<and> set (nodes (flow_chains s b)) \<subseteq> dom (heap s))
   \<and> (\<forall>b<PIAS_HASH_RANGE. b < i \<longrightarrow> cleared (chain_list s b) = chain_list s b)
   \<and> dom (heap s) \<subseteq> {..<next_addr s}"

definition shared_ok :: "nat \<Rightarrow> shared_table \<Rightarrow> bool" where
  "shared_ok n s \<longleftrightarrow> calls_ok n s \<or> (\<exists>c i. clear_ok n c i s)"

lemma cleared_twice [simp]: "cleared (cleared fl) = cleared fl"
  by (simp add: cleared_def)

lemma is_ready_iff: "is_ready x \<longleftrightarrow> (\<exists>r. x = Ready r)"
  by (cases x) simp_all

lemma calls_not_clearing: "calls_ok n s \<Longrightarrow> \<not> is_clearing n s"
  using calls_ok_facts(4) by (fastforce simp: is_clearing_def)

lemma calls_table: "calls_ok n s \<Longrightarrow> table_of n s = raw_table n s"
  by (simp add: table_of_def calls_not_clearing)

lemma cleared_chain:
  "cleared (chain_list s b) = (if nodes_len (flow_chains s b) > 0 then \<lparr>flows = [],
     list_len = nodes_len (flow_chains s b) - of_nat (length (nodes (flow_chains s b)))\<rparr> else chain_list s b)"
  by (simp add: cleared_def chain_list_def)

text \<open>Freeing the entries of a list, one by one.\<close>

lemma clear_nodes_result:
  assumes "distinct ns" "set ns \<subseteq> dom (heap s)" "nodes (flow_chains s b) = ns"
  shows "clear_nodes b ns s = Some (s\<lparr>flow_chains := (flow_chains s)(b :=
      \<lparr>nodes = [], nodes_len = nodes_len (flow_chains s b) - of_nat (length ns)\<rparr>),
    heap := (\<lambda>p. if p \<in> set ns then None else heap s p)\<rparr>)"
  using assms
proof (induction ns arbitrary: s)
  case Nil
  then have "\<lparr>nodes = [], nodes_len = nodes_len (flow_chains s b)\<rparr> = flow_chains s b"
    by (cases "flow_chains s b") simp
  then show ?case by simp
next
  case (Cons p ns)
  let ?u = "unlink b p s"
  have "set ns \<subseteq> dom (heap ?u)" "nodes (flow_chains ?u b) = ns" using Cons.prems by (auto simp: unlink_def)
  then have "clear_nodes b ns ?u = Some (?u\<lparr>flow_chains := (flow_chains ?u)(b :=
      \<lparr>nodes = [], nodes_len = nodes_len (flow_chains ?u b) - of_nat (length ns)\<rparr>),
    heap := (\<lambda>q. if q \<in> set ns then None else heap ?u q)\<rparr>)"
    using Cons.IH Cons.prems(1) by (simp only: distinct.simps simp_thms)
  also have "?u\<lparr>flow_chains := (flow_chains ?u)(b :=
      \<lparr>nodes = [], nodes_len = nodes_len (flow_chains ?u b) - of_nat (length ns)\<rparr>),
    heap := (\<lambda>q. if q \<in> set ns then None else heap ?u q)\<rparr>
    = s\<lparr>flow_chains := (flow_chains s)(b :=
        \<lparr>nodes = [], nodes_len = nodes_len (flow_chains s b) - of_nat (length (p # ns))\<rparr>),
      heap := (\<lambda>q. if q \<in> set (p # ns) then None else heap s q)\<rparr>"
    by (cases s) (auto simp: unlink_def algebra_simps)
  finally have rest: "clear_nodes b ns ?u = Some (s\<lparr>flow_chains := (flow_chains s)(b :=
        \<lparr>nodes = [], nodes_len = nodes_len (flow_chains s b) - of_nat (length (p # ns))\<rparr>),
      heap := (\<lambda>q. if q \<in> set (p # ns) then None else heap s q)\<rparr>)" .
  obtain g where "heap s p = Some g" using Cons.prems(2) by auto
  then have "clear_nodes b (p # ns) s = clear_nodes b ns ?u" by simp
  from this rest show ?case by (rule trans)
qed

lemma clear_chain_result:
  assumes "distinct (nodes (flow_chains s b))" "set (nodes (flow_chains s b)) \<subseteq> dom (heap s)"
    and others: "\<And>d. d < PIAS_HASH_RANGE \<Longrightarrow> d \<noteq> b \<Longrightarrow> set (nodes (flow_chains s d)) \<inter> set (nodes (flow_chains s b)) = {}"
  obtains t where "clear_chain b s = Some t" "chain_list t b = cleared (chain_list s b)"
    "\<And>d. d < PIAS_HASH_RANGE \<Longrightarrow> d \<noteq> b \<Longrightarrow> chain_list t d = chain_list s d \<and> flow_chains t d = flow_chains s d"
    "set (nodes (flow_chains t b)) \<subseteq> set (nodes (flow_chains s b))"
    "\<And>p. heap t p = heap s p \<or> p \<in> set (nodes (flow_chains s b)) \<and> nodes (flow_chains t b) = [] \<and> heap t p = None"
    "callers t = callers s" "next_addr t = next_addr s"
proof (cases "nodes_len (flow_chains s b) > 0")
  case True
  let ?t = "s\<lparr>flow_chains := (flow_chains s)(b :=
      \<lparr>nodes = [], nodes_len = nodes_len (flow_chains s b) - of_nat (length (nodes (flow_chains s b)))\<rparr>),
    heap := (\<lambda>p. if p \<in> set (nodes (flow_chains s b)) then None else heap s p)\<rparr>"
  show ?thesis
  proof (rule that)
    show "clear_chain b s = Some ?t" using True clear_nodes_result [OF assms(1,2) refl] by (simp add: clear_chain_def)
    show "chain_list ?t b = cleared (chain_list s b)" using True by (simp add: cleared_chain) (simp add: chain_list_def)
    show "chain_list ?t d = chain_list s d \<and> flow_chains ?t d = flow_chains s d" if "d < PIAS_HASH_RANGE" "d \<noteq> b" for d
      using others [OF that] that(2) by (auto simp: chain_list_def intro!: map_cong)
  qed auto
next
  case False
  show ?thesis by (rule that [of s]) (use False in \<open>auto simp: clear_chain_def cleared_chain\<close>)
qed

text \<open>Clearing starts when all callers are ready.\<close>

lemma clear_start:
  assumes ok: "calls_ok n s" and c: "c < n" and ready: "\<forall>d<n. is_ready (callers s d)"
  shows "run_op Op_clear (table_of n s) = Some (Cleared True, table_of n (s\<lparr>callers := (callers s)(c := Clearing 0)\<rparr>))
    \<and> clear_ok n c 0 (s\<lparr>callers := (callers s)(c := Clearing 0)\<rparr>)"
proof
  let ?t = "s\<lparr>callers := (callers s)(c := Clearing 0)\<rparr>"
  note wf = calls_ok_facts(1) [OF ok]
  have "fold_option (at_bucket PIAS_Clear_List) [0..<PIAS_HASH_RANGE] (flow_lists (raw_table n s)) =
      Some (map cleared (flow_lists (raw_table n s)))"
    using at_bucket_loop [of PIAS_Clear_List cleared PIAS_HASH_RANGE "flow_lists (raw_table n s)"]
      PIAS_Clear_List_cleared by (simp add: raw_table_def)
  moreover have "is_clearing n ?t" using c by (auto simp: is_clearing_def)
  moreover have "chain_list ?t = chain_list s" by (auto simp: chain_list_def)
  ultimately show run: "run_op Op_clear (table_of n s) = Some (Cleared True, table_of n ?t)"
    unfolding calls_table [OF ok] by (simp add: table_of_def) (simp add: raw_table_def)
  have "wf_table (table_of n ?t)" using run_op_wf [OF _ run] wf calls_table [OF ok] by simp
  then show "clear_ok n c 0 ?t"
    using ok c ready \<open>chain_list ?t = chain_list s\<close> wf by (auto simp: clear_ok_def calls_ok_def wf_table_def)
qed

text \<open>Every further step of the caller that clears the table is not seen in the table.\<close>

lemma clear_goes_on:
  assumes ok: "clear_ok n c i s" and i: "i < PIAS_HASH_RANGE"
  obtains t where "clear_chain i s = Some t" "callers t = callers s"
    "table_of n (t\<lparr>callers := (callers s)(c := Clearing (i + 1))\<rparr>) = table_of n s"
    "clear_ok n c (i + 1) (t\<lparr>callers := (callers s)(c := Clearing (i + 1))\<rparr>)"
proof -
  have bucket: "wf_bucket b (chain_list s b)" "set (nodes (flow_chains s b)) \<subseteq> dom (heap s)" if "b < PIAS_HASH_RANGE" for b
    using ok that by (auto simp: clear_ok_def)
  have hash: "key_hash (node_key s p) = b" if "p \<in> set (nodes (flow_chains s b))" "b < PIAS_HASH_RANGE" for b p
    using bucket(1) [OF that(2)] that(1) by (auto simp: wf_bucket_def chain_list_def node_key_def)
  have "distinct (map (node_key s) (nodes (flow_chains s i)))" using bucket(1) [OF i] by (simp add: wf_bucket_def)
  then have dist: "distinct (nodes (flow_chains s i))" by (simp add: distinct_map)
  have others: "set (nodes (flow_chains s d)) \<inter> set (nodes (flow_chains s i)) = {}" if "d < PIAS_HASH_RANGE" "d \<noteq> i" for d
    using hash that i by (metis disjoint_iff)
  obtain t where t: "clear_chain i s = Some t" "chain_list t i = cleared (chain_list s i)"
    "\<And>d. d < PIAS_HASH_RANGE \<Longrightarrow> d \<noteq> i \<Longrightarrow> chain_list t d = chain_list s d \<and> flow_chains t d = flow_chains s d"
    "set (nodes (flow_chains t i)) \<subseteq> set (nodes (flow_chains s i))"
    "\<And>p. heap t p = heap s p \<or> p \<in> set (nodes (flow_chains s i)) \<and> nodes (flow_chains t i) = [] \<and> heap t p = None"
    "callers t = callers s" "next_addr t = next_addr s"
    by (rule clear_chain_result [OF dist bucket(2) [OF i] others]) (assumption | rule that)+
  let ?t = "t\<lparr>callers := (callers s)(c := Clearing (i + 1))\<rparr>"
  have c: "c < n" "callers s c = Clearing i" and ready: "\<forall>d<n. d \<noteq> c \<longrightarrow> is_ready (callers s d)"
    using ok by (auto simp: clear_ok_def)
  have lists: "chain_list ?t = chain_list t" by (auto simp: chain_list_def)
  have "cleared (chain_list t b) = cleared (chain_list s b)" if "b < PIAS_HASH_RANGE" for b
    using t(2,3) that by (cases "b = i") simp_all
  moreover have "is_clearing n s" "is_clearing n ?t" using c by (auto simp: is_clearing_def)
  ultimately have same: "table_of n ?t = table_of n s" by (simp add: table_of_def lists)
  have "wf_bucket b (chain_list t b) \<and> set (nodes (flow_chains t b)) \<subseteq> dom (heap t)" if b: "b < PIAS_HASH_RANGE" for b
  proof (cases "b = i")
    case True
    have "set (nodes (flow_chains t i)) \<subseteq> dom (heap t)"
    proof
      fix p assume p: "p \<in> set (nodes (flow_chains t i))"
      then show "p \<in> dom (heap t)" using t(5) [of p] t(4) bucket(2) [OF i] by (auto simp: domIff)
    qed
    then show ?thesis using cleared_wf [OF bucket(1) [OF i]] t(2) True by simp
  next
    case False
    have "heap t p = heap s p" if "p \<in> set (nodes (flow_chains s b))" for p
      using t(5) [of p] others [OF b False] that by auto
    then show ?thesis using t(3) [OF b False] bucket [OF b] by (auto simp: domIff)
  qed
  moreover have "cleared (chain_list t b) = chain_list t b" if "b < PIAS_HASH_RANGE" "b < i + 1" for b
    using t(2,3) that ok by (cases "b = i") (auto simp: clear_ok_def)
  moreover have "dom (heap t) \<subseteq> {..<next_addr t}"
  proof
    fix p assume "p \<in> dom (heap t)"
    then have "p \<in> dom (heap s)" using t(5) [of p] by (auto simp: domIff)
    then show "p \<in> {..<next_addr t}" using ok t(7) unfolding clear_ok_def by auto
  qed
  ultimately have "clear_ok n c (i + 1) ?t"
    using same c ready ok unfolding clear_ok_def lists by simp
  then show ?thesis using that t(1,6) same by blast
qed

lemma clear_ends:
  assumes ok: "clear_ok n c i s" and i: "\<not> i < PIAS_HASH_RANGE"
  shows "table_of n (s\<lparr>chain_size := 0, callers := (callers s)(c := Ready r)\<rparr>) = table_of n s
    \<and> calls_ok n (s\<lparr>chain_size := 0, callers := (callers s)(c := Ready r)\<rparr>)"
proof
  let ?t = "s\<lparr>chain_size := 0, callers := (callers s)(c := Ready r)\<rparr>"
  have c: "c < n" "callers s c = Clearing i" and ready: "\<forall>d<n. is_ready (callers ?t d)"
    using ok by (auto simp: clear_ok_def)
  have lists: "chain_list ?t = chain_list s" by (auto simp: chain_list_def)
  have "size_due (callers ?t d) = 0" if "d < n" for d using ready that by (auto simp: is_ready_iff)
  then have "sizes_due n (callers ?t) = 0" by (simp add: sizes_due_def)
  moreover have "cleared (chain_list s b) = chain_list s b" if "b < PIAS_HASH_RANGE" for b
    using ok i that by (simp add: clear_ok_def)
  moreover have "is_clearing n s" using c by (auto simp: is_clearing_def)
  moreover have calm: "\<not> is_clearing n ?t" using ready by (fastforce simp: is_clearing_def is_ready_iff)
  ultimately show same: "table_of n ?t = table_of n s"
    using lists by (simp add: table_of_def) (simp add: raw_table_def)
  have "apart (callers ?t d) (callers ?t e)" if "d < n" for d e
    using ready that by (auto simp: is_ready_iff apart_def new_entry_def)
  moreover have "caller_ok ?t (callers ?t d)" if "d < n" for d using ready that by (auto simp: is_ready_iff)
  moreover have "wf_table (raw_table n ?t)" using same ok calm by (simp add: table_of_def clear_ok_def)
  ultimately show "calls_ok n ?t" using ok by (auto simp: calls_ok_def clear_ok_def)
qed

lemma clear_step_good:
  assumes ok: "clear_ok n c i s" and d: "d < n"
  shows "\<exists>t. shared_exec (Next d k) s = Some t \<and> shared_ok n t \<and> table_of n t = table_of n s
    \<and> ops_of_label (Next d k) s t = []"
proof (cases "d = c")
  case True
  have c: "callers s c = Clearing i" using ok by (simp add: clear_ok_def)
  show ?thesis
  proof (cases "i < PIAS_HASH_RANGE")
    case True
    obtain t where "clear_chain i s = Some t" "callers t = callers s"
      "table_of n (t\<lparr>callers := (callers s)(c := Clearing (i + 1))\<rparr>) = table_of n s"
      "clear_ok n c (i + 1) (t\<lparr>callers := (callers s)(c := Clearing (i + 1))\<rparr>)"
      by (rule clear_goes_on [OF ok True])
    then show ?thesis using c True \<open>d = c\<close> by (auto simp: shared_ok_def op_of_step_def)
  next
    case False
    then show ?thesis using c clear_ends [OF ok False] \<open>d = c\<close> by (auto simp: shared_ok_def op_of_step_def)
  qed
next
  case False
  then obtain r where r: "callers s d = Ready r" using ok d by (auto simp: clear_ok_def is_ready_iff)
  then have "s\<lparr>callers := (callers s)(d := Ready r)\<rparr> = s" by (simp add: fun_upd_idem)
  then show ?thesis using r ok by (auto simp: shared_ok_def op_of_step_def)
qed

lemma shared_ok_wf: "shared_ok n s \<Longrightarrow> wf_table (table_of n s)"
  by (auto simp: shared_ok_def clear_ok_def calls_table calls_ok_facts(1))

lemma may_overlap_apart: "may_overlap call x \<Longrightarrow> apart (Searching call None) x"
  by (cases x) (auto simp: may_overlap_def apart_def new_entry_def)

lemma call_step_good:
  assumes ok: "calls_ok n s" and l: "getting_along n l s"
  shows "\<exists>t. shared_exec l s = Some t \<and> shared_ok n t \<and> run_ops (ops_of_label l s t) (table_of n s) = Some (table_of n t)"
proof (cases l)
  case (Next c kmalloc_ok)
  then have "good_step n c kmalloc_ok s" using every_step_good [OF ok] l by simp
  then show ?thesis using Next calls_table [OF ok] by (auto simp: good_step_def shared_ok_def calls_table)
next
  case (Clear c)
  then show ?thesis using clear_start [OF ok, of c] l by (auto simp: shared_ok_def simp del: run_op.simps)
next
  case (Start c call)
  then have c: "c < n" "is_ready (callers s c)" and others: "\<forall>d<n. may_overlap call (callers s d)" using l by simp_all
  have "size_due (callers s c) = 0" using c(2) by (auto simp: is_ready_iff)
  moreover have "apart (Searching call None) (callers s d)" if "d < n" "d \<noteq> c" for d
    using others that may_overlap_apart by blast
  ultimately have "raw_table n (s\<lparr>callers := (callers s)(c := Searching call None)\<rparr>) = raw_table n s
    \<and> calls_ok n (s\<lparr>callers := (callers s)(c := Searching call None)\<rparr>)"
    by (intro quiet_step [OF ok c(1)]) (simp_all add: searched_def)
  then show ?thesis using Start calls_table [OF ok] by (simp add: shared_ok_def calls_table)
qed

lemma shared_exec_good:
  assumes ok: "shared_ok n s" and l: "getting_along n l s"
  obtains t where "shared_exec l s = Some t" "shared_ok n t"
    "run_ops (ops_of_label l s t) (table_of n s) = Some (table_of n t)"
proof (cases "calls_ok n s")
  case True
  then show ?thesis using call_step_good [OF True l] that by blast
next
  case False
  then obtain c i where clr: "clear_ok n c i s" using ok by (auto simp: shared_ok_def)
  then have c: "c < n" "callers s c = Clearing i" by (simp_all add: clear_ok_def)
  obtain d k where "l = Next d k" "d < n"
    using l c by (cases l) (fastforce simp: may_overlap_def)+
  then show ?thesis using clear_step_good [OF clr, of d k] that by auto
qed

section \<open>Every run\<close>

lemma last_result_append:
  "last_result c (h @ k) = (case last_result c k of None \<Rightarrow> last_result c h | Some r \<Rightarrow> Some r)"
  by (induction c h rule: last_result.induct) (auto split: option.splits)

lemma last_result_others: "d \<noteq> c \<Longrightarrow> last_result d (map (Pair c) k) = None"
  by (induction k) auto

lemma caller_step_result:
  assumes "caller_step kmalloc_ok x s = Some (y, t)" "result_of y = Some r"
  shows "op_of_step kmalloc_ok x y = [] \<and> result_of x = Some r \<or> (\<exists>op. op_of_step kmalloc_ok x y = [(op, r)])"
proof (cases x)
  case (Searching call at)
  then show ?thesis using assms
    by (cases call) (auto simp: op_of_step_def result_of_def split: Option.bind_splits option.splits if_splits)
qed (use assms in \<open>auto simp: op_of_step_def result_of_def split: Option.bind_splits if_splits\<close>)

text \<open>The callers return what their operations in the history returned.\<close>

definition results_ok :: "nat \<Rightarrow> history \<Rightarrow> shared_table \<Rightarrow> bool" where
  "results_ok n h s \<longleftrightarrow> (\<forall>c<n. \<forall>r. result_of (callers s c) = Some r \<longrightarrow> last_result c h = Some r)"

lemma clear_nodes_callers: "clear_nodes b ns s = Some t \<Longrightarrow> callers t = callers s"
  by (induction ns arbitrary: s) (auto simp: unlink_def split: Option.bind_splits)

lemma caller_step_callers: "caller_step kmalloc_ok x s = Some (y, t) \<Longrightarrow> callers t = callers s"
  by (cases x) (auto simp: link_tail_def unlink_def clear_chain_def dest: clear_nodes_callers
      split: Option.bind_splits if_splits)

lemma results_ok_step:
  assumes "results_ok n h s" "shared_exec l s = Some t"
  shows "results_ok n (h @ ops_of_label l s t) t"
proof (cases l)
  case (Next c kmalloc_ok)
  with assms(2) obtain x u where step: "caller_step kmalloc_ok (callers s c) s = Some (x, u)"
    and t: "t = u\<lparr>callers := (callers s)(c := x)\<rparr>"
    using caller_step_callers by (fastforce split: Option.bind_splits)
  show ?thesis unfolding results_ok_def
  proof (intro allI impI)
    fix d r assume d: "d < n" "result_of (callers t d) = Some r"
    have old: "last_result d h = Some r" if "result_of (callers s d) = Some r"
      using assms(1) d(1) that by (simp add: results_ok_def)
    show "last_result d (h @ ops_of_label l s t) = Some r"
    proof (cases "d = c")
      case True
      then have "result_of x = Some r" using d(2) t by simp
      from caller_step_result [OF step this] show ?thesis
        using old True by (auto simp: Next t last_result_append)
    next
      case False
      then show ?thesis using old d(2) by (simp add: Next t last_result_append last_result_others)
    qed
  qed
next
  case (Start c call)
  then have t: "t = s\<lparr>callers := (callers s)(c := Searching call None)\<rparr>" using assms(2) by simp
  have "result_of (callers s d) = Some r" if "result_of (callers t d) = Some r" for d r
    using that by (cases "d = c") (simp_all add: t result_of_def)
  then show ?thesis using assms(1) Start by (simp add: results_ok_def)
next
  case (Clear c)
  then have t: "t = s\<lparr>callers := (callers s)(c := Clearing 0)\<rparr>" using assms(2) by simp
  show ?thesis using assms(1)
    by (auto simp: results_ok_def t Clear result_of_def last_result_append)
qed

lemma shared_start_table: "raw_table n shared_start = empty_table"
  by (auto simp: raw_table_def shared_start_def empty_table_def chain_list_def sizes_due_def intro!: nth_equalityI)

lemma shared_start_ok: "calls_ok n shared_start"
  using wf_empty_table shared_start_table [of n]
  by (auto simp: calls_ok_def shared_start_def apart_def new_entry_def)

interpretation shared_inv: step_invariant "\<lambda>x. x = ([], shared_start)" "\<lambda>l x. getting_along n l (snd x)" run_exec
  "\<lambda>x. shared_run getting_along n (fst x) (snd x)"
  "\<lambda>x. shared_ok n (snd x) \<and> results_ok n (fst x) (snd x)
     \<and> run_ops (fst x) empty_table = Some (table_of n (snd x))"
proof unfold_locales
  show "shared_ok n (snd x) \<and> results_ok n (fst x) (snd x) \<and> run_ops (fst x) empty_table = Some (table_of n (snd x))"
    if "x = ([], shared_start)" for x
    using that shared_start_ok [of n] shared_start_table [of n]
    by (simp add: calls_table shared_ok_def results_ok_def result_of_def) (simp add: shared_start_def)
  show "shared_ok n (snd y) \<and> results_ok n (fst y) (snd y) \<and> run_ops (fst y) empty_table = Some (table_of n (snd y))"
    if inv: "shared_ok n (snd x) \<and> results_ok n (fst x) (snd x) \<and> run_ops (fst x) empty_table = Some (table_of n (snd x))"
      and l: "getting_along n l (snd x)" and y: "run_exec l x = Some y" for x l y
  proof -
    obtain t where t: "shared_exec l (snd x) = Some t" "shared_ok n t"
      "run_ops (ops_of_label l (snd x) t) (table_of n (snd x)) = Some (table_of n t)"
      using inv by (auto intro: shared_exec_good [OF _ l])
    moreover have "y = (fst x @ ops_of_label l (snd x) t, t)" using y t(1) by (simp add: run_exec_def)
    ultimately show ?thesis using inv results_ok_step [OF _ t(1)] by (simp add: run_ops_append)
  qed
qed

text \<open>
  C3.  Let any number of callers use the flow table in any interleaving of their steps, and let no
  caller start a call while one is under way that deletes from the same list, or that inserts the
  same flow, none start to delete while a call on the same list is under way, and none clear the
  table while another call is under way, nor the other way round.  Then no step accesses freed
  memory; the lists always stand for a well-formed table, the one that results from the operations
  performed so far, one after the other; callers return what these operations return; and when all
  callers are ready, the size is the number of flows.
\<close>

theorem calls_that_get_along:
  assumes "shared_run getting_along n h s"
  shows "run_ops h empty_table = Some (table_of n s) \<and> wf_table (table_of n s)
    \<and> (\<forall>c<n. \<forall>r. callers s c = Ready (Some r) \<longrightarrow> last_result c h = Some r)
    \<and> (\<forall>l. getting_along n l s \<longrightarrow> (\<exists>t. shared_exec l s = Some t \<and> shared_run getting_along n (h @ ops_of_label l s t) t))
    \<and> ((\<forall>c<n. \<exists>r. callers s c = Ready r) \<longrightarrow>
         chain_size s = of_nat (card (dom (flow_map (table_of n s)))))"
proof (intro conjI allI impI)
  have inv: "shared_ok n s" "results_ok n h s" "run_ops h empty_table = Some (table_of n s)"
    using shared_inv.inv_reach [of n "(h, s)"] assms by simp_all
  note wf = shared_ok_wf [OF inv(1)]
  show "run_ops h empty_table = Some (table_of n s)" "wf_table (table_of n s)" by (fact inv(3) wf)+
  show "last_result c h = Some r" if "c < n" "callers s c = Ready (Some r)" for c r
    using inv(2) that by (simp add: results_ok_def result_of_def)
  show "\<exists>t. shared_exec l s = Some t \<and> shared_run getting_along n (h @ ops_of_label l s t) t"
    if "getting_along n l s" for l
    using shared_exec_good [OF inv(1) that] shared_run.step [OF assms that] by metis
  assume ready: "\<forall>c<n. \<exists>r. callers s c = Ready r"
  then have "\<not> is_clearing n s" by (fastforce simp: is_clearing_def)
  moreover have "size_due (callers s c) = 0" if "c < n" for c using ready that by fastforce
  ultimately have "chain_size s = table_size (table_of n s)" by (simp add: table_of_def raw_table_def sizes_due_def)
  then show "chain_size s = of_nat (card (dom (flow_map (table_of n s))))"
    using wf card_dom_flow_map [OF wf] by (simp add: wf_table_def)
qed

text \<open>Two insertions in the same list overlap.\<close>

definition overlapping_calls :: "caller_label list" where
  "overlapping_calls = [Start 0 (Insert_call flow_a), Start 1 (Insert_call flow_b),
     Next 0 True, Next 1 True, Next 1 True, Next 0 True, Next 0 True, Next 1 True, Next 1 True]"

lemma overlapping_run:
  "map_option (\<lambda>x. (callers (snd x) 0, callers (snd x) 1, nodes (flow_chains (snd x) 1), chain_size (snd x)))
     (shared_runs getting_along overlapping_calls)
   = Some (Resizing 1 (Inserted True), Ready (Some (Inserted True)), [1, 0], 1)"
  by (simp add: shared_runs_def overlapping_calls_def run_shared may_overlap_def All_less_Suc del: bucket_key)

theorem calls_that_get_along_witness:
  "\<exists>h s. shared_run getting_along 2 h s
     \<and> (callers s 0, callers s 1, nodes (flow_chains s 1), chain_size s)
         = (Resizing 1 (Inserted True), Ready (Some (Inserted True)), [1, 0], 1)
     \<and> last_result 1 h = Some (Inserted True)
     \<and> run_ops h empty_table = Some (table_of 2 s) \<and> wf_table (table_of 2 s)"
proof -
  obtain h s where run: "shared_run getting_along 2 h s" "(callers s 0, callers s 1, nodes (flow_chains s 1), chain_size s)
      = (Resizing 1 (Inserted True), Ready (Some (Inserted True)), [1, 0], 1)"
    using shared_runs_reach [OF overlapping_run] by blast
  note all = calls_that_get_along [OF run(1)]
  have "\<forall>r. callers s 1 = Ready (Some r) \<longrightarrow> last_result 1 h = Some r" using conjunct1 [OF conjunct2 [OF conjunct2 [OF all]]] by simp
  then have "last_result 1 h = Some (Inserted True)" using run(2) by simp
  with run conjunct1 [OF all] conjunct1 [OF conjunct2 [OF all]] show ?thesis by blast
qed

end
