(* ===== verification/PIAS_Params.thy ===== *)
theory PIAS_Params
  imports Prelude
begin

text \<open>
  The tunables of the kernel module and their sysctl table (\<open>PIAS/params.h\<close>, \<open>PIAS/params.c\<close>):
  the globals as a record, a pointer to one of them as a datatype, the arrays \<open>PIAS_Params\<close> and
  \<open>PIAS_Params_Table\<close> as lists, \<open>PIAS_Params_Init\<close> and \<open>PIAS_Params_Exit\<close>.  What
  \<open>register_sysctl_paths\<close> returns is an argument.
\<close>

section \<open>The tunables\<close>

definition PIAS_PRIO_NUM :: nat where
  "PIAS_PRIO_NUM = 2"

record params =
  PIAS_IDLE_TIME :: i32
  PIAS_RTO_MIN :: i32
  PIAS_TIMEOUT_THRESH :: i32
  PIAS_TIMEOUT_SEQ_GAP :: i32
  PIAS_ENABLE_AGING :: i32
  PIAS_DEBUG_MODE :: i32
  PIAS_PRIO_DSCP :: "i32 list"
  PIAS_PRIO_THRESH :: "i32 list"

definition default_params :: params where
  "default_params =
     \<lparr>PIAS_IDLE_TIME = 500,
      PIAS_RTO_MIN = 9 * 1000,
      PIAS_TIMEOUT_THRESH = 3,
      PIAS_TIMEOUT_SEQ_GAP = 3 * 1448,
      PIAS_ENABLE_AGING = 1,
      PIAS_DEBUG_MODE = 0,
      PIAS_PRIO_DSCP = [0, - 1],
      PIAS_PRIO_THRESH = [100 * 1024]\<rparr>"

text \<open>The two arrays have the lengths of their C declarations; no store changes a length.\<close>

definition wf_params :: "params \<Rightarrow> bool" where
  "wf_params ps \<longleftrightarrow>
     length (PIAS_PRIO_DSCP ps) = PIAS_PRIO_NUM \<and>
     length (PIAS_PRIO_THRESH ps) = PIAS_PRIO_NUM - 1"

lemma wf_default_params [wf_intros]: "wf_params default_params"
  by (simp add: wf_params_def default_params_def PIAS_PRIO_NUM_def)

section \<open>Pointers to the tunables\<close>

text \<open>The values an \<open>int *ptr\<close> of \<open>struct PIAS_Param\<close> takes: the address of one tunable.\<close>

datatype param_ptr =
    At_IDLE_TIME
  | At_RTO_MIN
  | At_TIMEOUT_THRESH
  | At_TIMEOUT_SEQ_GAP
  | At_ENABLE_AGING
  | At_DEBUG_MODE
  | At_PRIO_DSCP nat
  | At_PRIO_THRESH nat

fun param_load :: "param_ptr \<Rightarrow> params \<Rightarrow> i32 option" where
  "param_load At_IDLE_TIME ps = Some (PIAS_IDLE_TIME ps)"
| "param_load At_RTO_MIN ps = Some (PIAS_RTO_MIN ps)"
| "param_load At_TIMEOUT_THRESH ps = Some (PIAS_TIMEOUT_THRESH ps)"
| "param_load At_TIMEOUT_SEQ_GAP ps = Some (PIAS_TIMEOUT_SEQ_GAP ps)"
| "param_load At_ENABLE_AGING ps = Some (PIAS_ENABLE_AGING ps)"
| "param_load At_DEBUG_MODE ps = Some (PIAS_DEBUG_MODE ps)"
| "param_load (At_PRIO_DSCP i) ps = c_read (PIAS_PRIO_DSCP ps) i"
| "param_load (At_PRIO_THRESH i) ps = c_read (PIAS_PRIO_THRESH ps) i"

fun param_store :: "param_ptr \<Rightarrow> i32 \<Rightarrow> params \<Rightarrow> params option" where
  "param_store At_IDLE_TIME v ps = Some (ps\<lparr>PIAS_IDLE_TIME := v\<rparr>)"
| "param_store At_RTO_MIN v ps = Some (ps\<lparr>PIAS_RTO_MIN := v\<rparr>)"
| "param_store At_TIMEOUT_THRESH v ps = Some (ps\<lparr>PIAS_TIMEOUT_THRESH := v\<rparr>)"
| "param_store At_TIMEOUT_SEQ_GAP v ps = Some (ps\<lparr>PIAS_TIMEOUT_SEQ_GAP := v\<rparr>)"
| "param_store At_ENABLE_AGING v ps = Some (ps\<lparr>PIAS_ENABLE_AGING := v\<rparr>)"
| "param_store At_DEBUG_MODE v ps = Some (ps\<lparr>PIAS_DEBUG_MODE := v\<rparr>)"
| "param_store (At_PRIO_DSCP i) v ps =
     map_option (\<lambda>a. ps\<lparr>PIAS_PRIO_DSCP := a\<rparr>) (c_write (PIAS_PRIO_DSCP ps) i v)"
| "param_store (At_PRIO_THRESH i) v ps =
     map_option (\<lambda>a. ps\<lparr>PIAS_PRIO_THRESH := a\<rparr>) (c_write (PIAS_PRIO_THRESH ps) i v)"

lemma param_store_wf [wf_intros]:
  "wf_params ps \<Longrightarrow> param_store p v ps = Some ps' \<Longrightarrow> wf_params ps'"
  by (cases p) (auto simp: wf_params_def c_write_eq_Some_iff)

lemma param_load_store:
  "param_store p v ps = Some ps' \<Longrightarrow> param_load p ps' = Some v"
  by (cases p) (auto simp: c_write_eq_Some_iff c_read_def)

lemma param_load_store_other:
  "param_store p v ps = Some ps' \<Longrightarrow> q \<noteq> p \<Longrightarrow> param_load q ps' = param_load q ps"
  by (cases p; cases q) (auto simp: c_write_eq_Some_iff c_read_def)

section \<open>The sysctl table\<close>

record PIAS_Param =
  param_name :: string
  param_ptr_of :: "param_ptr option"

datatype proc_handler = proc_dointvec

record ctl_table =
  procname :: "string option"
  ctl_data :: "param_ptr option"
  ctl_mode :: nat
  ctl_handler :: "proc_handler option"
  ctl_maxlen :: nat

definition zero_param :: PIAS_Param where
  "zero_param = \<lparr>param_name = '''', param_ptr_of = None\<rparr>"

definition zero_ctl_table :: ctl_table where
  "zero_ctl_table =
     \<lparr>procname = None, ctl_data = None, ctl_mode = 0, ctl_handler = None, ctl_maxlen = 0\<rparr>"

definition PIAS_PARAMS_LEN :: nat where
  "PIAS_PARAMS_LEN = 2 * PIAS_PRIO_NUM + 6"

text \<open>The static initialiser of \<open>PIAS_Params\<close>: six entries, the rest zero.\<close>

definition PIAS_Params_static :: "PIAS_Param list" where
  "PIAS_Params_static =
     [\<lparr>param_name = ''idle_time'', param_ptr_of = Some At_IDLE_TIME\<rparr>,
      \<lparr>param_name = ''rto_min'', param_ptr_of = Some At_RTO_MIN\<rparr>,
      \<lparr>param_name = ''timeout_thresh'', param_ptr_of = Some At_TIMEOUT_THRESH\<rparr>,
      \<lparr>param_name = ''timeout_seq_gap'', param_ptr_of = Some At_TIMEOUT_SEQ_GAP\<rparr>,
      \<lparr>param_name = ''enable_aging'', param_ptr_of = Some At_ENABLE_AGING\<rparr>,
      \<lparr>param_name = ''debug_mode'', param_ptr_of = Some At_DEBUG_MODE\<rparr>]
     @ replicate (PIAS_PARAMS_LEN - 6) zero_param"

text \<open>\<open>snprintf(name, 63, "<prefix>%d", i)\<close> for \<open>0 \<le> i\<close>: at most 62 characters and the NUL.\<close>

definition snprintf_name :: "string \<Rightarrow> nat \<Rightarrow> string" where
  "snprintf_name prefix i = take 62 (prefix @ show_nat i)"

definition init_prio_param :: "nat \<Rightarrow> PIAS_Param list \<Rightarrow> PIAS_Param list option" where
  "init_prio_param i pp = do {
     pp \<leftarrow> c_write pp (i + 6)
       \<lparr>param_name = snprintf_name ''prio_dscp_'' i, param_ptr_of = Some (At_PRIO_DSCP i)\<rparr>;
     if i < PIAS_PRIO_NUM - 1 then
       c_write pp (i + PIAS_PRIO_NUM + 6)
         \<lparr>param_name = snprintf_name ''prio_thresh_'' i, param_ptr_of = Some (At_PRIO_THRESH i)\<rparr>
     else Some pp
   }"

definition init_ctl_entry ::
  "PIAS_Param list \<Rightarrow> nat \<Rightarrow> ctl_table list \<Rightarrow> ctl_table list option" where
  "init_ctl_entry pp i tab = do {
     p \<leftarrow> c_read pp i;
     case param_ptr_of p of
       None \<Rightarrow> Some tab
     | Some d \<Rightarrow> c_write tab i
         \<lparr>procname = Some (param_name p), ctl_data = Some d, ctl_mode = 6 * 8 ^ 2 + 4 * 8 + 4,
          ctl_handler = Some proc_dointvec, ctl_maxlen = 4\<rparr>
   }"

record sysctl_state =
  params_array :: "PIAS_Param list"
  params_table :: "ctl_table list"
  sysctl_registered :: bool

definition sysctl_static :: sysctl_state where
  "sysctl_static =
     \<lparr>params_array = PIAS_Params_static,
      params_table = replicate PIAS_PARAMS_LEN zero_ctl_table,
      sysctl_registered = False\<rparr>"

text \<open>
  \<open>PIAS_Params_Init\<close>: \<open>reg\<close> says whether \<open>register_sysctl_paths\<close> returned a header.  The
  returned flag is the function's result.
\<close>

definition PIAS_Params_Init :: "bool \<Rightarrow> sysctl_state \<Rightarrow> (bool \<times> sysctl_state) option" where
  "PIAS_Params_Init reg s = do {
     let tab = replicate PIAS_PARAMS_LEN zero_ctl_table;
     pp \<leftarrow> fold_option init_prio_param [0..<PIAS_PRIO_NUM] (params_array s);
     end_param \<leftarrow> c_read pp (2 * PIAS_PRIO_NUM + 6 - 1);
     pp \<leftarrow> c_write pp (2 * PIAS_PRIO_NUM + 6 - 1) (end_param\<lparr>param_ptr_of := None\<rparr>);
     tab \<leftarrow> fold_option (init_ctl_entry pp) [0..<2 * PIAS_PRIO_NUM + 6] tab;
     Some (reg, \<lparr>params_array = pp, params_table = tab, sysctl_registered = reg\<rparr>)
   }"

definition PIAS_Params_Exit :: "sysctl_state \<Rightarrow> sysctl_state" where
  "PIAS_Params_Exit s =
     (if sysctl_registered s then s\<lparr>sysctl_registered := False\<rparr> else s)"

section \<open>The registered table\<close>

text \<open>The tunables in the order of the table, under the names they are registered with.\<close>

definition exported_params :: "(string \<times> param_ptr) list" where
  "exported_params =
     [(''idle_time'', At_IDLE_TIME), (''rto_min'', At_RTO_MIN),
      (''timeout_thresh'', At_TIMEOUT_THRESH), (''timeout_seq_gap'', At_TIMEOUT_SEQ_GAP),
      (''enable_aging'', At_ENABLE_AGING), (''debug_mode'', At_DEBUG_MODE),
      (''prio_dscp_0'', At_PRIO_DSCP 0), (''prio_dscp_1'', At_PRIO_DSCP 1),
      (''prio_thresh_0'', At_PRIO_THRESH 0)]"

definition exported_table :: "ctl_table list" where
  "exported_table =
     map (\<lambda>(n, p). \<lparr>procname = Some n, ctl_data = Some p, ctl_mode = 420,
                     ctl_handler = Some proc_dointvec, ctl_maxlen = 4\<rparr>) exported_params
     @ [zero_ctl_table]"

lemma PIAS_Params_Init_table:
  "map_option (\<lambda>(r, t). (r, params_table t, sysctl_registered t))
     (PIAS_Params_Init reg sysctl_static) = Some (reg, exported_table, reg)"
  by (cases reg) code_simp+

lemma PIAS_Params_Init_static:
  obtains t where "PIAS_Params_Init reg sysctl_static = Some (reg, t)"
    and "params_table t = exported_table" and "sysctl_registered t = reg"
  using PIAS_Params_Init_table [of reg] by (cases "PIAS_Params_Init reg sysctl_static") auto

lemma exported_ptrs:
  "Some p \<in> ctl_data ` set exported_table \<longleftrightarrow> p \<in> snd ` set exported_params"
  by (auto simp: exported_table_def exported_params_def zero_ctl_table_def)

lemma exported_iff_loadable:
  "wf_params ps \<Longrightarrow> p \<in> snd ` set exported_params \<longleftrightarrow> param_load p ps \<noteq> None"
  by (cases p)
    (auto simp: exported_params_def wf_params_def PIAS_PRIO_NUM_def c_read_def less_Suc_eq numeral_2_eq_2)

lemma param_store_total:
  "wf_params ps \<Longrightarrow> param_load p ps \<noteq> None \<Longrightarrow> \<exists>ps'. param_store p v ps = Some ps' \<and> wf_params ps'"
  by (cases p) (auto simp: wf_params_def c_read_def c_write_def split: if_splits)

section \<open>Properties\<close>

text \<open>
  The table handed to \<open>register_sysctl_paths\<close> is a list of entries closed by a zero entry.
  The entries have different names and different pointers, and the pointers are exactly the
  addresses of the module's tunables: each tunable can be set through one file, and nothing else can.
\<close>

theorem sysctl_exports_every_tunable:
  assumes "PIAS_Params_Init reg sysctl_static = Some (r, t)"
  shows "r = reg \<and> (\<exists>es. params_table t = es @ [zero_ctl_table] \<and> zero_ctl_table \<notin> set es \<and>
    distinct (map procname es) \<and> distinct (map ctl_data es) \<and>
    (\<forall>ps p. wf_params ps \<longrightarrow> (Some p \<in> ctl_data ` set es) = (param_load p ps \<noteq> None)))"
proof -
  have t: "r = reg" "params_table t = exported_table"
    using assms PIAS_Params_Init_table [of reg] by auto
  define es where "es = butlast exported_table"
  have "exported_table = es @ [zero_ctl_table]" "zero_ctl_table \<notin> set es"
    "distinct (map procname es)" "distinct (map ctl_data es)"
    "Some p \<in> ctl_data ` set es \<longleftrightarrow> p \<in> snd ` set exported_params" for p
    unfolding es_def by (auto simp: exported_table_def exported_params_def zero_ctl_table_def)
  then show ?thesis
    using t exported_iff_loadable by (intro conjI exI [of _ es]) simp_all
qed

theorem sysctl_exports_every_tunable_witness:
  "\<exists>t es. PIAS_Params_Init True sysctl_static = Some (True, t) \<and>
     params_table t = es @ [zero_ctl_table] \<and> distinct (map ctl_data es)"
proof -
  obtain t where t: "PIAS_Params_Init True sysctl_static = Some (True, t)"
    by (rule PIAS_Params_Init_static)
  from sysctl_exports_every_tunable [OF t] t show ?thesis by blast
qed

end
