(* ===== verification/PIAS_Network.thy ===== *)
theory PIAS_Network
  imports PIAS_Params
begin

text \<open>
  Priorities, DSCP marking and sequence numbers (\<open>PIAS/network.c\<close>), and the packet the hooks
  see.  \<open>skb_make_writable\<close> and \<open>ipv4_change_dsfield\<close> are kernel functions: the first is its
  answer, the second a function argument.
\<close>

section \<open>Packets\<close>

text \<open>
  The header fields the module reads, in network byte order as they are in the packet.  The TCP
  header lies \<open>ihl\<close> 32-bit words after the IP header; \<open>skb_tcp_at\<close> is what is found there.
\<close>

record iphdr =
  ip_saddr :: u32
  ip_daddr :: u32
  ip_protocol :: u8
  ip_tot_len :: u16
  ip_ihl :: u4
  ip_tos :: u8

record tcphdr =
  tcp_source :: u16
  tcp_dest :: u16
  tcp_seq :: u32
  tcp_ack_seq :: u32
  tcp_doff :: u4
  tcp_syn :: bool
  tcp_fin :: bool
  tcp_rst :: bool
  tcp_ack :: bool

record sk_buff =
  skb_ip :: "iphdr option"
  skb_tcp_at :: "nat \<Rightarrow> tcphdr"

text \<open>The kernel functions the hooks compute with.\<close>

record kernel_api =
  ktime_us_delta :: "ktime \<Rightarrow> ktime \<Rightarrow> s64"
  ipv4_change_dsfield :: "u8 \<Rightarrow> u8 \<Rightarrow> iphdr \<Rightarrow> iphdr"

definition IPPROTO_TCP :: u8 where
  "IPPROTO_TCP = 6"

definition INET_ECN_ECT_0 :: u8 where
  "INET_ECN_ECT_0 = 2"

section \<open>Priority of a flow\<close>

fun pias_priority_loop :: "params \<Rightarrow> u32 \<Rightarrow> nat list \<Rightarrow> i32 option" where
  "pias_priority_loop ps n [] = c_read (PIAS_PRIO_DSCP ps) (PIAS_PRIO_NUM - 1)"
| "pias_priority_loop ps n (i # rest) = do {
     t \<leftarrow> c_read (PIAS_PRIO_THRESH ps) i;
     if n \<le> t then c_read (PIAS_PRIO_DSCP ps) i
     else pias_priority_loop ps n rest
   }"

definition pias_priority :: "params \<Rightarrow> u32 \<Rightarrow> i32 option" where
  "pias_priority ps n = pias_priority_loop ps n [0..<PIAS_PRIO_NUM - 1]"

text \<open>The number of demotion thresholds a flow of \<open>n\<close> bytes has passed.\<close>

definition prio_level :: "params \<Rightarrow> u32 \<Rightarrow> nat" where
  "prio_level ps n = length (takeWhile (\<lambda>t. t < n) (PIAS_PRIO_THRESH ps))"

lemma pias_priority_loop_level:
  assumes "i \<le> length (PIAS_PRIO_THRESH ps)"
    and "length (PIAS_PRIO_THRESH ps) = PIAS_PRIO_NUM - 1"
    and "length (PIAS_PRIO_DSCP ps) = PIAS_PRIO_NUM"
  shows "pias_priority_loop ps n [i..<PIAS_PRIO_NUM - 1] =
    c_read (PIAS_PRIO_DSCP ps)
      (i + length (takeWhile (\<lambda>t. t < n) (drop i (PIAS_PRIO_THRESH ps))))"
  using assms
proof (induction "PIAS_PRIO_NUM - 1 - i" arbitrary: i)
  case 0
  then have "i = PIAS_PRIO_NUM - 1" by simp
  with 0 show ?case by simp
next
  case (Suc k)
  then have i: "i < PIAS_PRIO_NUM - 1" by simp
  then have split: "[i..<PIAS_PRIO_NUM - 1] = i # [Suc i..<PIAS_PRIO_NUM - 1]"
    by (simp add: upt_conv_Cons)
  have drop: "drop i (PIAS_PRIO_THRESH ps) =
      PIAS_PRIO_THRESH ps ! i # drop (Suc i) (PIAS_PRIO_THRESH ps)"
    using i Suc.prems by (simp add: Cons_nth_drop_Suc)
  have "pias_priority_loop ps n [Suc i..<PIAS_PRIO_NUM - 1] =
    c_read (PIAS_PRIO_DSCP ps)
      (Suc i + length (takeWhile (\<lambda>t. t < n) (drop (Suc i) (PIAS_PRIO_THRESH ps))))"
    using Suc i by simp
  then show ?case
    unfolding split drop pias_priority_loop.simps
    using i Suc.prems by (auto simp: c_array not_le)
qed

lemma pias_priority_level:
  "wf_params ps \<Longrightarrow> pias_priority ps n = c_read (PIAS_PRIO_DSCP ps) (prio_level ps n)"
  using pias_priority_loop_level [of 0 ps n]
  by (simp add: pias_priority_def prio_level_def wf_params_def)

lemma prio_level_less: "wf_params ps \<Longrightarrow> prio_level ps n < PIAS_PRIO_NUM"
  using length_takeWhile_le [of "\<lambda>t. t < n" "PIAS_PRIO_THRESH ps"]
  by (simp add: prio_level_def wf_params_def PIAS_PRIO_NUM_def)

lemma pias_priority_total:
  "wf_params ps \<Longrightarrow> pias_priority ps n = Some (PIAS_PRIO_DSCP ps ! prio_level ps n)"
  using prio_level_less [of ps n]
  by (simp add: pias_priority_level c_array wf_params_def)

lemma prio_level_mono: "m \<le> n \<Longrightarrow> prio_level ps m \<le> prio_level ps n"
proof -
  assume "m \<le> n"
  then have "length (takeWhile (\<lambda>t. t < m) ts) \<le> length (takeWhile (\<lambda>t. t < n) ts)" for ts :: "i32 list"
    by (induction ts) auto
  then show ?thesis by (simp add: prio_level_def)
qed

section \<open>Marking\<close>

text \<open>
  \<open>pias_enable_ecn_dscp\<close>: \<open>writable\<close> is the answer of \<open>skb_make_writable\<close>.
\<close>

definition pias_enable_ecn_dscp ::
  "kernel_api \<Rightarrow> bool \<Rightarrow> sk_buff option \<Rightarrow> u8 \<Rightarrow> sk_buff option" where
  "pias_enable_ecn_dscp api writable skb dscp =
     (case skb of
        None \<Rightarrow> None
      | Some b \<Rightarrow>
          if writable
          then Some (b\<lparr>skb_ip := map_option
                 (ipv4_change_dsfield api 0 (push_bit 2 dscp OR INET_ECN_ECT_0)) (skb_ip b)\<rparr>)
          else Some b)"

section \<open>Sequence numbers\<close>

definition pias_is_seq_larger :: "u32 \<Rightarrow> u32 \<Rightarrow> bool" where
  "pias_is_seq_larger seq1 seq2 =
     (if seq1 > seq2 \<and> seq1 - seq2 \<le> 4294900000 then True
      else if seq1 < seq2 \<and> seq2 - seq1 > 4294900000 then True
      else False)"

definition pias_seq_gap :: "u32 \<Rightarrow> u32 \<Rightarrow> u32" where
  "pias_seq_gap seq1 seq2 =
     (if pias_is_seq_larger seq1 seq2 then
        (if seq1 > seq2 then seq1 - seq2 else 4294967295 - (seq2 - seq1))
      else
        (if seq2 > seq1 then seq2 - seq1 else 4294967295 - (seq1 - seq2)))"

lemma not_seq_larger_refl [simp]: "\<not> pias_is_seq_larger a a"
  by (simp add: pias_is_seq_larger_def)

lemma seq_larger_iff_not:
  "a \<noteq> b \<Longrightarrow> pias_is_seq_larger a b \<longleftrightarrow> \<not> pias_is_seq_larger b a"
  by (auto simp: pias_is_seq_larger_def not_less not_le)

text \<open>The order in terms of the distance \<open>a - b\<close> modulo \<open>2 ^ 32\<close>.\<close>

lemma seq_larger_add:
  assumes "0 < d" and "unat d < 67296"
  shows "pias_is_seq_larger (a + d) a"
proof (cases "unat a + unat d < 2 ^ 32")
  case True
  then have sum: "unat (a + d) = unat a + unat d"
    by (simp add: unat_word_ariths)
  then have "a < a + d"
    using \<open>0 < d\<close> by (simp add: word_less_nat_alt)
  moreover have "d \<le> 4294900000"
    using assms(2) by (simp add: word_le_nat_alt)
  ultimately show ?thesis by (simp add: pias_is_seq_larger_def)
next
  case False
  have "unat a < 2 ^ 32" "unat d < 2 ^ 32"
    using unsigned_less [of a] unsigned_less [of d] by simp_all
  with False have sum: "unat (a + d) = unat a + unat d - 2 ^ 32"
    by (simp add: unat_word_ariths le_mod_geq)
  then have less: "a + d < a"
    using \<open>unat d < 2 ^ 32\<close> False by (simp add: word_less_nat_alt)
  have "unat (a - (a + d)) = 2 ^ 32 - unat d"
    using less sum False by (subst unat_sub) (auto simp: less_imp_le)
  then have "a - (a + d) > 4294900000"
    using assms(2) by (simp add: word_less_nat_alt)
  with less show ?thesis by (simp add: pias_is_seq_larger_def)
qed

lemma seq_larger_add_iff:
  "pias_is_seq_larger (a + d) a \<longleftrightarrow>
     (if unat a + unat d < 2 ^ 32 then 0 < unat d \<and> unat d \<le> 4294900000 else unat d < 67296)"
proof (cases "unat a + unat d < 2 ^ 32")
  case True
  then have sum: "unat (a + d) = unat a + unat d"
    by (simp add: unat_word_ariths)
  then show ?thesis
    using True by (auto simp: pias_is_seq_larger_def word_less_nat_alt word_le_nat_alt)
next
  case False
  have bound: "unat a < 2 ^ 32" "unat d < 2 ^ 32"
    using unsigned_less [of a] unsigned_less [of d] by simp_all
  with False have sum: "unat (a + d) = unat a + unat d - 2 ^ 32"
    by (simp add: unat_word_ariths le_mod_geq)
  then have less: "a + d < a"
    using bound False by (simp add: word_less_nat_alt)
  have "unat (a - (a + d)) = 2 ^ 32 - unat d"
    using less sum False by (subst unat_sub) (auto simp: less_imp_le)
  then have "a - (a + d) > 4294900000 \<longleftrightarrow> unat d < 67296"
    using bound by (simp only: word_less_nat_alt) auto
  with less False show ?thesis by (auto simp: pias_is_seq_larger_def not_less_iff_gr_or_eq)
qed

lemma dscp_bits:
  "list_all (\<lambda>n. drop_bit 2 (push_bit 2 (of_nat n :: u8) OR 2) = of_nat n
     \<and> (push_bit 2 (of_nat n :: u8) OR 2) AND 3 = 2) [0..<64]"
  by code_simp

section \<open>Properties\<close>

text \<open>
  C36.  \<open>pias_priority\<close> never reads outside its arrays: it returns the DSCP of the number of
  demotion thresholds the size has passed.  That level never falls as a flow sends more, and
  size 0 has level 0.
\<close>

theorem priority_follows_thresholds:
  assumes "wf_params ps" and "m \<le> n"
  shows "pias_priority ps n = Some (PIAS_PRIO_DSCP ps ! prio_level ps n)
    \<and> prio_level ps n < PIAS_PRIO_NUM \<and> prio_level ps m \<le> prio_level ps n \<and> prio_level ps 0 = 0"
  using assms prio_level_less pias_priority_total prio_level_mono
  by (simp add: prio_level_def takeWhile_eq_Nil_iff)

theorem priority_follows_thresholds_witness:
  "pias_priority default_params 102401 = Some (- 1) \<and> pias_priority default_params 102400 = Some 0"
  using priority_follows_thresholds [OF wf_default_params, of 0 102401]
    priority_follows_thresholds [OF wf_default_params, of 0 102400]
  by (simp add: prio_level_def default_params_def)

text \<open>
  C40.  \<open>pias_is_seq_larger\<close> in terms of the distance \<open>d\<close> from the old to the new sequence number,
  modulo \<open>2 ^ 32\<close>: without a wrap-around, every distance up to 4294900000 is an advance; across a
  wrap-around, only distances below 67296 are.  Two different numbers are ordered in exactly one
  direction.
\<close>

theorem seq_order_by_distance:
  "(pias_is_seq_larger (a + d) a \<longleftrightarrow>
      (if unat a + unat d < 2 ^ 32 then 0 < unat d \<and> unat d \<le> 4294900000 else unat d < 67296))
   \<and> (pias_is_seq_larger a b \<noteq> pias_is_seq_larger b a) = (a \<noteq> b)"
  using seq_larger_add_iff [of a d] seq_larger_iff_not [of a b] by auto

text \<open>
  \<open>pias_seq_gap\<close> is symmetric and, for numbers at most 4294900000 apart and different, their
  distance.  For equal numbers it is \<open>2 ^ 32 - 1\<close>, not 0, and across a wrap-around it is one less
  than the distance modulo \<open>2 ^ 32\<close>.
\<close>

theorem seq_gap_distance:
  "pias_seq_gap a b = pias_seq_gap b a
   \<and> pias_seq_gap a a = 4294967295
   \<and> (a > b \<and> a - b \<le> 4294900000 \<longrightarrow> pias_seq_gap a b = a - b)
   \<and> (a > b \<and> a - b > 4294900000 \<longrightarrow> pias_seq_gap a b = (b - a) - 1)"
proof (intro conjI impI)
  show "pias_seq_gap a b = pias_seq_gap b a"
    by (cases a b rule: linorder_cases) (auto simp: pias_seq_gap_def pias_is_seq_larger_def)
qed (auto simp: pias_seq_gap_def pias_is_seq_larger_def)

theorem seq_gap_distance_witness:
  "pias_seq_gap 5000 1000 = 4000 \<and> pias_seq_gap 4294967290 9 = 14"
proof -
  have "pias_seq_gap 5000 1000 = 5000 - 1000"
    by (intro seq_gap_distance [THEN conjunct2, THEN conjunct2, THEN conjunct1, rule_format]) simp
  moreover have "pias_seq_gap 4294967290 9 = (9 - 4294967290) - 1"
    by (intro seq_gap_distance [THEN conjunct2, THEN conjunct2, THEN conjunct2, rule_format]) simp
  ultimately show ?thesis by simp
qed

text \<open>
  If \<open>ipv4_change_dsfield mask value\<close> sets the TOS byte to \<open>(tos AND mask) OR value\<close>, as
  documented, a packet that can be written leaves \<open>pias_enable_ecn_dscp\<close> with the given DSCP in
  the upper six bits and ECT(0) in the lower two.
\<close>

theorem marking_sets_dscp_and_ect:
  assumes api: "\<And>mask v h. ip_tos (ipv4_change_dsfield api mask v h) = (ip_tos h AND mask) OR v"
    and ip: "skb_ip skb = Some iph" and small: "dscp < 64"
  shows "\<exists>skb' iph'. pias_enable_ecn_dscp api True (Some skb) dscp = Some skb' \<and>
    skb_ip skb' = Some iph' \<and> drop_bit 2 (ip_tos iph') = dscp \<and> ip_tos iph' AND 3 = INET_ECN_ECT_0"
proof -
  obtain n where n: "dscp = of_nat n" "n < 64"
    using small by (intro that [of "unat dscp"]) (simp_all add: word_less_nat_alt)
  then have bits: "drop_bit 2 (push_bit 2 dscp OR 2) = dscp" "(push_bit 2 dscp OR 2) AND 3 = 2"
    using dscp_bits [unfolded list_all_iff, THEN bspec, of n] by simp_all
  show ?thesis
    using ip bits by (simp add: pias_enable_ecn_dscp_def INET_ECN_ECT_0_def api)
qed

text \<open>The kernel's \<open>ipv4_change_dsfield\<close>, without the header checksum.\<close>

definition sample_api :: kernel_api where
  "sample_api =
     \<lparr>ktime_us_delta = (\<lambda>later earlier. of_int ((sint later - sint earlier) div 1000)),
      ipv4_change_dsfield = (\<lambda>mask v h. h\<lparr>ip_tos := (ip_tos h AND mask) OR v\<rparr>)\<rparr>"

definition sample_iphdr :: iphdr where
  "sample_iphdr =
     \<lparr>ip_saddr = 0x0B65A8C0, ip_daddr = 0x0C65A8C0, ip_protocol = 6, ip_tot_len = 0xDC05,
      ip_ihl = 5, ip_tos = 0\<rparr>"

definition sample_tcphdr :: tcphdr where
  "sample_tcphdr =
     \<lparr>tcp_source = 0xFAEB, tcp_dest = 0x8913, tcp_seq = 0x01000000, tcp_ack_seq = 0, tcp_doff = 8,
      tcp_syn = False, tcp_fin = False, tcp_rst = False, tcp_ack = True\<rparr>"

definition sample_skb :: sk_buff where
  "sample_skb = \<lparr>skb_ip = Some sample_iphdr, skb_tcp_at = (\<lambda>_. sample_tcphdr)\<rparr>"

theorem marking_sets_dscp_and_ect_witness:
  "\<exists>skb' iph'. pias_enable_ecn_dscp sample_api True (Some sample_skb) 46 = Some skb' \<and>
    skb_ip skb' = Some iph' \<and> drop_bit 2 (ip_tos iph') = 46 \<and> ip_tos iph' AND 3 = INET_ECN_ECT_0"
  by (rule marking_sets_dscp_and_ect [of sample_api sample_skb sample_iphdr])
    (simp_all add: sample_api_def sample_skb_def)

end
