(* ===== verification/PIAS_Netfilter.thy ===== *)
theory PIAS_Netfilter
  imports PIAS_Network PIAS_Flow_Spec
begin

text \<open>
  The two Netfilter hooks (\<open>PIAS/netfilter.c\<close>).  Each handler takes the module's configuration,
  the kernel's answers during the call (the time, whether \<open>kmalloc\<close> and \<open>skb_make_writable\<close>
  succeed, what the uninitialised local \<open>struct PIAS_Flow f\<close> holds), the device, the packet and
  the flow table.  \<open>None\<close> is a fault; a call returns the verdict, the packet and the table.
  \<open>hook_out_spec\<close> and \<open>hook_in_spec\<close> say the same on the map the table stands for.
\<close>

section \<open>Configuration and the kernel's answers\<close>

datatype nf_verdict = NF_ACCEPT

definition IFNAMSIZ :: nat where
  "IFNAMSIZ = 16"

record module_conf =
  param_dev :: "string option"
  param_port :: i32
  tunables :: params

record hook_env =
  env_now :: ktime
  env_kmalloc :: bool
  env_writable :: bool
  env_stack :: PIAS_Flow

definition dev_mismatch :: "module_conf \<Rightarrow> string \<Rightarrow> bool" where
  "dev_mismatch conf name =
     (case param_dev conf of None \<Rightarrow> False | Some d \<Rightarrow> c_strncmp IFNAMSIZ name d \<noteq> 0)"

definition port_mismatch :: "module_conf \<Rightarrow> tcphdr \<Rightarrow> bool" where
  "port_mismatch conf th \<longleftrightarrow>
     param_port conf \<noteq> 0 \<and> ucast (ntohs (tcp_source th)) \<noteq> param_port conf
       \<and> ucast (ntohs (tcp_dest th)) \<noteq> param_port conf"

text \<open>TCP payload length, an \<open>int\<close> expression stored in a \<open>u16\<close>.\<close>

definition tcp_payload_len :: "iphdr \<Rightarrow> tcphdr \<Rightarrow> u16" where
  "tcp_payload_len iph th =
     ntohs (ip_tot_len iph) - push_bit 2 (ucast (ip_ihl iph)) - push_bit 2 (ucast (tcp_doff th))"

section \<open>Outgoing packets\<close>

text \<open>The update of an existing entry by a packet that is neither SYN, FIN nor RST.\<close>

definition update_out_info ::
  "kernel_api \<Rightarrow> params \<Rightarrow> ktime \<Rightarrow> u32 \<Rightarrow> u16 \<Rightarrow> PIAS_Flow_Info \<Rightarrow> PIAS_Flow_Info" where
  "update_out_info api ps now seq payload_len i =
     (let idle_time = ktime_us_delta api now (last_update_time i);
          i' =
            (if pias_is_seq_larger seq (last_seq i) then
               i\<lparr>last_seq := seq, bytes_sent := bytes_sent i + ucast payload_len\<rparr>
             else if sint idle_time \<ge> sint (PIAS_RTO_MIN ps)
                  \<and> pias_is_seq_larger (last_seq i) (last_ack i) then
               let i = i\<lparr>last_timeout_seq := seq\<rparr> in
               if PIAS_TIMEOUT_THRESH ps = 1
                  \<or> (sint (PIAS_TIMEOUT_THRESH ps) \<ge> 2
                     \<and> pias_seq_gap seq (last_timeout_seq i) \<le> PIAS_TIMEOUT_SEQ_GAP ps) then
                 let i = i\<lparr>timeouts := timeouts i + 1\<rparr> in
                 if uint (timeouts i) \<ge> sint (PIAS_TIMEOUT_THRESH ps) then
                   let i = i\<lparr>timeouts := 0\<rparr> in
                   if PIAS_ENABLE_AGING ps = 1 then i\<lparr>bytes_sent := 0\<rparr> else i
                 else i
               else i\<lparr>timeouts := 1\<rparr>
             else i)
      in i'\<lparr>last_update_time := now\<rparr>)"

definition out_flow :: "PIAS_Flow \<Rightarrow> iphdr \<Rightarrow> tcphdr \<Rightarrow> PIAS_Flow" where
  "out_flow f iph th =
     f\<lparr>local_ip := ip_saddr iph, remote_ip := ip_daddr iph,
       local_port := ntohs (tcp_source th), remote_port := ntohs (tcp_dest th)\<rparr>"

definition out_seq :: "iphdr \<Rightarrow> tcphdr \<Rightarrow> u32" where
  "out_seq iph th =
     (let payload_len = tcp_payload_len iph th; seq = ntohl (tcp_seq th)
      in if payload_len \<ge> 1 then seq + ucast payload_len - 1 else seq)"

definition pias_hook_func_out ::
  "kernel_api \<Rightarrow> module_conf \<Rightarrow> hook_env \<Rightarrow> string option \<Rightarrow> sk_buff \<Rightarrow> PIAS_Flow_Table \<Rightarrow>
   (nf_verdict \<times> sk_buff \<times> PIAS_Flow_Table) option" where
  "pias_hook_func_out api conf env out skb ft =
     (case out of None \<Rightarrow> Some (NF_ACCEPT, skb, ft) | Some name \<Rightarrow>
      if dev_mismatch conf name then Some (NF_ACCEPT, skb, ft) else
      case skb_ip skb of None \<Rightarrow> Some (NF_ACCEPT, skb, ft) | Some iph \<Rightarrow>
      if ip_protocol iph \<noteq> IPPROTO_TCP then Some (NF_ACCEPT, skb, ft) else
      let th = skb_tcp_at skb (unat (ip_ihl iph)); ps = tunables conf in
      if port_mismatch conf th then Some (NF_ACCEPT, skb, ft) else do {
        f0 \<leftarrow> snd (PIAS_Init_Flow (Some (env_stack env)));
        let f = out_flow f0 iph th;
        (dscp, ft') \<leftarrow>
          (if tcp_syn th then do {
             let f = f\<lparr>info := (info f)\<lparr>last_seq := ntohl (tcp_seq th),
                                  last_update_time := env_now env\<rparr>\<rparr>;
             (inserted, ftp) \<leftarrow> PIAS_Insert_Table (env_kmalloc env) (Some ft) (Some f);
             ft' \<leftarrow> ftp;
             dscp \<leftarrow> pias_priority ps 0;
             Some (dscp, ft')
           } else if tcp_fin th \<or> tcp_rst th then do {
             (result, ftp) \<leftarrow> PIAS_Delete_Table (Some ft) (Some f);
             ft' \<leftarrow> ftp;
             dscp \<leftarrow> pias_priority ps result;
             Some (dscp, ft')
           } else do {
             ptr \<leftarrow> PIAS_Search_Table (Some ft) (Some f);
             (case ptr of
                Some p \<Rightarrow> do {
                  g \<leftarrow> flow_load ft p;
                  let i = update_out_info api ps (env_now env) (out_seq iph th)
                            (tcp_payload_len iph th) (info g);
                  ft' \<leftarrow> flow_store ft p i;
                  dscp \<leftarrow> pias_priority ps (bytes_sent i);
                  Some (dscp, ft')
                }
              | None \<Rightarrow> do {
                  dscp \<leftarrow> pias_priority ps 0;
                  Some (dscp, ft)
                })
           });
        if sint dscp \<ge> 0 then do {
          skb' \<leftarrow> pias_enable_ecn_dscp api (env_writable env) (Some skb) (ucast dscp);
          Some (NF_ACCEPT, skb', ft')
        } else Some (NF_ACCEPT, skb, ft')
      })"

section \<open>Incoming packets\<close>

definition in_flow :: "PIAS_Flow \<Rightarrow> iphdr \<Rightarrow> tcphdr \<Rightarrow> PIAS_Flow" where
  "in_flow f iph th =
     f\<lparr>local_ip := ip_daddr iph, remote_ip := ip_saddr iph,
       local_port := ntohs (tcp_dest th), remote_port := ntohs (tcp_source th)\<rparr>"

definition update_in_info :: "u32 \<Rightarrow> PIAS_Flow_Info \<Rightarrow> PIAS_Flow_Info" where
  "update_in_info ack i =
     (if pias_is_seq_larger ack (last_ack i) then i\<lparr>last_ack := ack\<rparr> else i)"

definition pias_hook_func_in ::
  "module_conf \<Rightarrow> hook_env \<Rightarrow> string option \<Rightarrow> sk_buff \<Rightarrow> PIAS_Flow_Table \<Rightarrow>
   (nf_verdict \<times> sk_buff \<times> PIAS_Flow_Table) option" where
  "pias_hook_func_in conf env in_dev skb ft =
     (case in_dev of None \<Rightarrow> Some (NF_ACCEPT, skb, ft) | Some name \<Rightarrow>
      if dev_mismatch conf name then Some (NF_ACCEPT, skb, ft) else
      case skb_ip skb of None \<Rightarrow> Some (NF_ACCEPT, skb, ft) | Some iph \<Rightarrow>
      if ip_protocol iph \<noteq> IPPROTO_TCP then Some (NF_ACCEPT, skb, ft) else
      let th = skb_tcp_at skb (unat (ip_ihl iph)) in
      if port_mismatch conf th then Some (NF_ACCEPT, skb, ft) else
      if tcp_ack th then do {
        f0 \<leftarrow> snd (PIAS_Init_Flow (Some (env_stack env)));
        ptr \<leftarrow> PIAS_Search_Table (Some ft) (Some (in_flow f0 iph th));
        (case ptr of
           Some p \<Rightarrow> do {
             g \<leftarrow> flow_load ft p;
             ft' \<leftarrow> flow_store ft p (update_in_info (ntohl (tcp_ack_seq th)) (info g));
             Some (NF_ACCEPT, skb, ft')
           }
         | None \<Rightarrow> Some (NF_ACCEPT, skb, ft))
      } else Some (NF_ACCEPT, skb, ft))"

section \<open>Installing the hooks\<close>

record netfilter_state =
  hook_out_registered :: bool
  hook_in_registered :: bool

text \<open>The arguments are what the two calls of \<open>nf_register_hook\<close> return, 0 for success.\<close>

definition PIAS_Netfilter_Init :: "i32 \<Rightarrow> i32 \<Rightarrow> netfilter_state \<Rightarrow> bool \<times> netfilter_state" where
  "PIAS_Netfilter_Init reg_out reg_in s =
     (if reg_out \<noteq> 0 then (False, s) else
      let s = s\<lparr>hook_out_registered := True\<rparr> in
      if reg_in \<noteq> 0 then (False, s) else
      (True, s\<lparr>hook_in_registered := True\<rparr>))"

definition PIAS_Netfilter_Exit :: "netfilter_state \<Rightarrow> netfilter_state" where
  "PIAS_Netfilter_Exit s = s\<lparr>hook_out_registered := False, hook_in_registered := False\<rparr>"

section \<open>The hooks on the map\<close>

text \<open>The TCP headers of a packet the hooks act on: the device, protocol and port filters passed.\<close>

definition in_scope :: "module_conf \<Rightarrow> string option \<Rightarrow> sk_buff \<Rightarrow> (iphdr \<times> tcphdr) option" where
  "in_scope conf dev skb = do {
     name \<leftarrow> dev;
     iph \<leftarrow> skb_ip skb;
     let th = skb_tcp_at skb (unat (ip_ihl iph));
     if dev_mismatch conf name \<or> ip_protocol iph \<noteq> IPPROTO_TCP \<or> port_mismatch conf th
     then None else Some (iph, th)
   }"

definition out_key :: "iphdr \<Rightarrow> tcphdr \<Rightarrow> flow_key" where
  "out_key iph th =
     (ip_saddr iph, ip_daddr iph, ntohs (tcp_source th), ntohs (tcp_dest th))"

definition in_key :: "iphdr \<Rightarrow> tcphdr \<Rightarrow> flow_key" where
  "in_key iph th =
     (ip_daddr iph, ip_saddr iph, ntohs (tcp_dest th), ntohs (tcp_source th))"

text \<open>What an outgoing packet does to the map, and the size its priority is computed from.\<close>

definition out_effect ::
  "kernel_api \<Rightarrow> params \<Rightarrow> hook_env \<Rightarrow> iphdr \<Rightarrow> tcphdr \<Rightarrow>
   (flow_key \<rightharpoonup> PIAS_Flow_Info) \<Rightarrow> (flow_key \<rightharpoonup> PIAS_Flow_Info) \<times> u32" where
  "out_effect api ps env iph th m =
     (let k = out_key iph th in
      if tcp_syn th then
        (if env_kmalloc env \<and> m k = None
         then m(k \<mapsto> zero_info\<lparr>last_seq := ntohl (tcp_seq th), last_update_time := env_now env\<rparr>)
         else m, 0)
      else if tcp_fin th \<or> tcp_rst th then
        (m(k := None), case m k of None \<Rightarrow> 0 | Some i \<Rightarrow> max 1 (bytes_sent i))
      else (case m k of
          None \<Rightarrow> (m, 0)
        | Some i \<Rightarrow>
            let i' = update_out_info api ps (env_now env) (out_seq iph th) (tcp_payload_len iph th) i
            in (m(k \<mapsto> i'), bytes_sent i')))"

text \<open>The packet after the hook: marked with the DSCP of the size, unless that is negative.\<close>

definition marked ::
  "kernel_api \<Rightarrow> params \<Rightarrow> hook_env \<Rightarrow> u32 \<Rightarrow> sk_buff \<Rightarrow> sk_buff" where
  "marked api ps env n skb =
     (let dscp = PIAS_PRIO_DSCP ps ! prio_level ps n in
      if sint dscp \<ge> 0 \<and> env_writable env
      then skb\<lparr>skb_ip := map_option
             (ipv4_change_dsfield api 0 (push_bit 2 (ucast dscp) OR INET_ECN_ECT_0)) (skb_ip skb)\<rparr>
      else skb)"

definition in_effect ::
  "tcphdr \<Rightarrow> iphdr \<Rightarrow> (flow_key \<rightharpoonup> PIAS_Flow_Info) \<Rightarrow> (flow_key \<rightharpoonup> PIAS_Flow_Info)" where
  "in_effect th iph m =
     (let k = in_key iph th in
      if tcp_ack th then
        (case m k of None \<Rightarrow> m | Some i \<Rightarrow> m(k \<mapsto> update_in_info (ntohl (tcp_ack_seq th)) i))
      else m)"

section \<open>The hooks refine their effect on the map\<close>

lemma PIAS_Init_Flow_zero:
  "PIAS_Init_Flow (Some f) = (True, Some
     \<lparr>local_ip = 0, remote_ip = 0, local_port = 0, remote_port = 0, info = zero_info\<rparr>)"
  by (cases f; cases "info f") (simp add: zero_info_def Let_def)

lemma out_flow_key [simp]: "key_of (out_flow f iph th) = out_key iph th"
  by (simp add: key_of_def out_flow_def out_key_def)

lemma out_flow_info [simp]: "info (out_flow f iph th) = info f"
  by (simp add: out_flow_def)

lemma in_flow_key [simp]: "key_of (in_flow f iph th) = in_key iph th"
  by (simp add: key_of_def in_flow_def in_key_def)

lemma mark_step:
  "(if sint dscp \<ge> 0 then do {
      skb' \<leftarrow> pias_enable_ecn_dscp api (env_writable env) (Some skb) (ucast dscp);
      Some (NF_ACCEPT, skb', ft')
    } else Some (NF_ACCEPT, skb, ft')) =
   Some (NF_ACCEPT,
     if sint dscp \<ge> 0 \<and> env_writable env
     then skb\<lparr>skb_ip := map_option
            (ipv4_change_dsfield api 0 (push_bit 2 (ucast dscp) OR INET_ECN_ECT_0)) (skb_ip skb)\<rparr>
     else skb, ft')"
  by (simp add: pias_enable_ecn_dscp_def)

lemma in_scope_None_cases:
  assumes "in_scope conf dev skb = None"
  obtains "dev = None"
    | name where "dev = Some name" "dev_mismatch conf name"
    | name where "dev = Some name" "skb_ip skb = None"
    | name iph where "dev = Some name" "skb_ip skb = Some iph" "ip_protocol iph \<noteq> IPPROTO_TCP"
    | name iph where "dev = Some name" "skb_ip skb = Some iph"
        "port_mismatch conf (skb_tcp_at skb (unat (ip_ihl iph)))"
  using assms by (auto simp: in_scope_def Let_def split: if_splits bind_splits)

lemma hook_out_not_in_scope:
  "in_scope conf out skb = None \<Longrightarrow>
   pias_hook_func_out api conf env out skb ft = Some (NF_ACCEPT, skb, ft)"
  by (erule in_scope_None_cases)
    (simp_all add: pias_hook_func_out_def Let_def split: option.split)

lemma hook_in_not_in_scope:
  "in_scope conf dev skb = None \<Longrightarrow>
   pias_hook_func_in conf env dev skb ft = Some (NF_ACCEPT, skb, ft)"
  by (erule in_scope_None_cases)
    (simp_all add: pias_hook_func_in_def Let_def split: option.split)

lemma in_scopeD:
  assumes "in_scope conf dev skb = Some (iph, th)"
  obtains name where "dev = Some name" "\<not> dev_mismatch conf name" "skb_ip skb = Some iph"
    "ip_protocol iph = IPPROTO_TCP" "th = skb_tcp_at skb (unat (ip_ihl iph))"
    "\<not> port_mismatch conf th"
  using assms by (auto simp: in_scope_def Let_def split: if_splits bind_splits)

lemma hook_out_in_scope:
  assumes wf: "wf_table ft" and ps: "wf_params (tunables conf)"
    and scope: "in_scope conf out skb = Some (iph, th)"
  shows "\<exists>ft'. pias_hook_func_out api conf env out skb ft = Some (NF_ACCEPT,
      marked api (tunables conf) env (snd (out_effect api (tunables conf) env iph th (flow_map ft))) skb,
      ft')
    \<and> wf_table ft' \<and> flow_map ft' = fst (out_effect api (tunables conf) env iph th (flow_map ft))"
proof -
  from scope obtain name where name: "out = Some name" "\<not> dev_mismatch conf name"
    "skb_ip skb = Some iph" "ip_protocol iph = IPPROTO_TCP"
    "skb_tcp_at skb (unat (ip_ihl iph)) = th" "\<not> port_mismatch conf th"
    by (auto elim: in_scopeD)
  define z where
    "z = \<lparr>local_ip = 0, remote_ip = 0, local_port = 0, remote_port = 0, info = zero_info\<rparr>"
  let ?f = "out_flow z iph th"
  let ?g = "?f\<lparr>info := (info ?f)\<lparr>last_seq := ntohl (tcp_seq th), last_update_time := env_now env\<rparr>\<rparr>"
  let ?h = "update_out_info api (tunables conf) (env_now env) (out_seq iph th) (tcp_payload_len iph th)"
  have z: "PIAS_Init_Flow (Some (env_stack env)) = (True, Some z)" "info z = zero_info"
    unfolding z_def by (rule PIAS_Init_Flow_zero) simp
  note pre = pias_hook_func_out_def name z out_effect_def Let_def mark_step marked_def
    pias_priority_total [OF ps]
  show ?thesis
  proof (cases "tcp_syn th")
    case True
    from flow_table.insert_spec [OF wf, of "env_kmalloc env" ?g] True show ?thesis
      by (auto simp: pre simp del: PIAS_Insert_Table.simps PIAS_Init_Flow.simps)
  next
    case no_syn: False
    show ?thesis
    proof (cases "tcp_fin th \<or> tcp_rst th")
      case True
      from flow_table.delete_spec [OF wf, of ?f] no_syn True show ?thesis
        by (auto simp: pre simp del: PIAS_Delete_Table.simps PIAS_Init_Flow.simps)
    next
      case False
      from flow_table.modify_spec [OF wf, of ?f ?h] no_syn False show ?thesis
        by (auto simp: pre simp del: PIAS_Search_Table.simps PIAS_Init_Flow.simps split: option.splits bind_splits)
    qed
  qed
qed

lemma hook_in_in_scope:
  assumes wf: "wf_table ft" and scope: "in_scope conf dev skb = Some (iph, th)"
  shows "\<exists>ft'. pias_hook_func_in conf env dev skb ft = Some (NF_ACCEPT, skb, ft')
    \<and> wf_table ft' \<and> flow_map ft' = in_effect th iph (flow_map ft)"
proof -
  from scope obtain name where name: "dev = Some name" "\<not> dev_mismatch conf name"
    "skb_ip skb = Some iph" "ip_protocol iph = IPPROTO_TCP"
    "skb_tcp_at skb (unat (ip_ihl iph)) = th" "\<not> port_mismatch conf th"
    by (auto elim: in_scopeD)
  obtain z where z: "PIAS_Init_Flow (Some (env_stack env)) = (True, Some z)"
    by (simp only: PIAS_Init_Flow_zero)
  from flow_table.modify_spec [OF wf, of "in_flow z iph th" "update_in_info (ntohl (tcp_ack_seq th))"]
  show ?thesis using wf
    by (auto simp: pias_hook_func_in_def name z in_effect_def Let_def
        simp del: PIAS_Search_Table.simps PIAS_Init_Flow.simps split: option.splits bind_splits)
qed

section \<open>The entry of a flow under its packets\<close>

text \<open>A packet is taken for a timeout: it is not an advance, the flow has been idle for \<open>RTO_MIN\<close>
  and has unacknowledged data.\<close>

definition is_timeout :: "kernel_api \<Rightarrow> params \<Rightarrow> ktime \<Rightarrow> u32 \<Rightarrow> PIAS_Flow_Info \<Rightarrow> bool" where
  "is_timeout api ps now seq i \<longleftrightarrow>
     \<not> pias_is_seq_larger seq (last_seq i)
     \<and> sint (ktime_us_delta api now (last_update_time i)) \<ge> sint (PIAS_RTO_MIN ps)
     \<and> pias_is_seq_larger (last_seq i) (last_ack i)"

lemma seq_gap_self: "pias_seq_gap s s = 4294967295"
  by (simp add: pias_seq_gap_def)

text \<open>
  The sequence number is stored in \<open>last_timeout_seq\<close> before the gap to \<open>last_timeout_seq\<close> is
  computed, so the gap is \<open>2 ^ 32 - 1\<close> always.
\<close>

lemma update_out_info_threshold:
  assumes "sint (PIAS_TIMEOUT_THRESH ps) \<ge> 2" and "PIAS_TIMEOUT_SEQ_GAP ps \<noteq> - 1"
  shows "update_out_info api ps now seq n i =
    (if pias_is_seq_larger seq (last_seq i)
     then i\<lparr>last_seq := seq, bytes_sent := bytes_sent i + ucast n, last_update_time := now\<rparr>
     else if is_timeout api ps now seq i
     then i\<lparr>last_timeout_seq := seq, timeouts := 1, last_update_time := now\<rparr>
     else i\<lparr>last_update_time := now\<rparr>)"
proof -
  have "\<not> (4294967295::u32) \<le> PIAS_TIMEOUT_SEQ_GAP ps"
  proof
    assume "(4294967295::u32) \<le> PIAS_TIMEOUT_SEQ_GAP ps"
    moreover have "(4294967295::u32) = - 1" by simp
    ultimately have "- 1 \<le> PIAS_TIMEOUT_SEQ_GAP ps" by (simp only:)
    then have "PIAS_TIMEOUT_SEQ_GAP ps = - 1"
      by (rule order_antisym [OF word_n1_ge])
    with assms(2) show False by simp
  qed
  moreover have "PIAS_TIMEOUT_THRESH ps \<noteq> 1"
    using assms(1) by auto
  ultimately show ?thesis
    by (cases i) (simp add: update_out_info_def is_timeout_def seq_gap_self Let_def)
qed

lemma update_out_info_threshold_1:
  assumes "PIAS_TIMEOUT_THRESH ps = 1" and "timeouts i = 0"
  shows "update_out_info api ps now seq n i =
    (if pias_is_seq_larger seq (last_seq i)
     then i\<lparr>last_seq := seq, bytes_sent := bytes_sent i + ucast n, last_update_time := now\<rparr>
     else if is_timeout api ps now seq i
     then i\<lparr>last_timeout_seq := seq, timeouts := 0, last_update_time := now,
            bytes_sent := (if PIAS_ENABLE_AGING ps = 1 then 0 else bytes_sent i)\<rparr>
     else i\<lparr>last_update_time := now\<rparr>)"
  using assms by (cases i) (simp add: update_out_info_def is_timeout_def Let_def)

text \<open>The packets of one flow in order: the time, the last sequence number and the payload length.\<close>

fun update_out_run ::
  "kernel_api \<Rightarrow> params \<Rightarrow> (ktime \<times> u32 \<times> u16) list \<Rightarrow> PIAS_Flow_Info \<Rightarrow> PIAS_Flow_Info" where
  "update_out_run api ps [] i = i"
| "update_out_run api ps ((now, seq, n) # rest) i =
     update_out_run api ps rest (update_out_info api ps now seq n i)"

text \<open>In-order segments: each one's last byte follows the previous one's.\<close>

fun in_order_from :: "u32 \<Rightarrow> (ktime \<times> u32 \<times> u16) list \<Rightarrow> bool" where
  "in_order_from s [] = True"
| "in_order_from s ((now, seq, n) # rest) \<longleftrightarrow>
     n \<noteq> 0 \<and> seq = s + ucast n \<and> in_order_from seq rest"

definition payload_total :: "(ktime \<times> u32 \<times> u16) list \<Rightarrow> nat" where
  "payload_total segs = sum_list (map (\<lambda>(_, _, n). unat n) segs)"

lemma unat_ucast_u16: "unat (ucast (n :: u16) :: u32) = unat n"
  by (simp add: unsigned_ucast_eq take_bit_nat_eq_self unsigned_less [THEN order_less_le_trans])

lemma segment_is_advance: "(n :: u16) \<noteq> 0 \<Longrightarrow> pias_is_seq_larger (s + ucast n) s"
  using unsigned_less [of n, where 'a = nat] unat_eq_0 [of n]
  by (intro seq_larger_add) (auto simp: unat_ucast_u16 word_less_nat_alt)

lemma in_order_step:
  "n \<noteq> 0 \<Longrightarrow> update_out_info api ps now (last_seq i + ucast n) n i =
     i\<lparr>last_seq := last_seq i + ucast n, bytes_sent := bytes_sent i + ucast n, last_update_time := now\<rparr>"
  by (cases i) (simp add: update_out_info_def segment_is_advance)

lemma in_order_run:
  "in_order_from (last_seq i) segs \<Longrightarrow>
   bytes_sent (update_out_run api ps segs i) = bytes_sent i + of_nat (payload_total segs)
   \<and> last_seq (update_out_run api ps segs i) = last_seq i + of_nat (payload_total segs)
   \<and> timeouts (update_out_run api ps segs i) = timeouts i"
proof (induction segs arbitrary: i)
  case (Cons seg segs)
  obtain now seq n where seg: "seg = (now, seq, n)" by (cases seg)
  with Cons.prems have n: "n \<noteq> 0" "seq = last_seq i + ucast n" "in_order_from seq segs"
    by auto
  have step: "update_out_info api ps now seq n i =
      i\<lparr>last_seq := seq, bytes_sent := bytes_sent i + ucast n, last_update_time := now\<rparr>"
    using in_order_step [OF n(1)] n(2) by simp
  have total: "(of_nat (payload_total (seg # segs)) :: u32) = ucast n + of_nat (payload_total segs)"
    by (simp add: seg payload_total_def)
  show ?case
    using Cons.IH [of "update_out_info api ps now seq n i"] n(2,3)
    unfolding seg update_out_run.simps total [unfolded seg] step by (simp add: add.assoc)
qed (simp add: payload_total_def)

section \<open>Properties\<close>

definition sample_conf :: module_conf where
  "sample_conf = \<lparr>param_dev = Some ''eth0'', param_port = 0, tunables = default_params\<rparr>"

definition sample_env :: hook_env where
  "sample_env =
     \<lparr>env_now = 1000000, env_kmalloc = True, env_writable = True, env_stack = sample_flow\<rparr>"

lemma sample_in_scope: "in_scope sample_conf (Some ''eth0'') sample_skb = Some (sample_iphdr, sample_tcphdr)"
  by (simp add: in_scope_def sample_conf_def sample_skb_def sample_iphdr_def dev_mismatch_def
      port_mismatch_def IPPROTO_TCP_def IFNAMSIZ_def eval_nat_numeral)

text \<open>
  C4.  On a well-formed table the hook for outgoing packets never faults, always accepts the packet
  and keeps the table well-formed.  A packet that the device, protocol or port filter excludes
  changes nothing.  Any other packet has on the map exactly the effect \<open>out_effect\<close>: a SYN adds a
  new flow if memory is available, a FIN or RST removes the flow, other packets update its entry;
  and it leaves marked with the DSCP of the bytes the effect returns.
\<close>

theorem outgoing_hook_refines_map:
  assumes "wf_table ft" and "wf_params (tunables conf)"
  shows "\<exists>skb' ft'. pias_hook_func_out api conf env dev skb ft = Some (NF_ACCEPT, skb', ft') \<and> wf_table ft' \<and>
    (case in_scope conf dev skb of
       None \<Rightarrow> skb' = skb \<and> ft' = ft
     | Some (iph, th) \<Rightarrow>
         let (m', n) = out_effect api (tunables conf) env iph th (flow_map ft)
         in flow_map ft' = m' \<and> skb' = marked api (tunables conf) env n skb)"
proof (cases "in_scope conf dev skb")
  case None
  then show ?thesis using hook_out_not_in_scope assms(1) by simp
next
  case (Some p)
  obtain iph th where p: "p = (iph, th)" by (cases p)
  with Some show ?thesis using hook_out_in_scope [OF assms, of dev skb iph th api env]
    by (auto simp: split_beta Let_def)
qed

theorem outgoing_hook_refines_map_witness:
  "\<exists>skb' ft'. pias_hook_func_out sample_api sample_conf sample_env (Some ''eth0'') sample_skb sample_table
     = Some (NF_ACCEPT, skb', ft') \<and> wf_table ft'
     \<and> flow_map ft' = fst (out_effect sample_api default_params sample_env sample_iphdr sample_tcphdr
                          (flow_map sample_table))"
proof -
  have "wf_params (tunables sample_conf)" "tunables sample_conf = default_params"
    by (simp_all add: sample_conf_def wf_default_params)
  then show ?thesis
    using outgoing_hook_refines_map [OF sample_table_spec(1), of sample_conf sample_api sample_env
        "Some ''eth0''" sample_skb]
    by (auto simp: sample_in_scope split_beta Let_def)
qed

text \<open>
  C25.  On a well-formed table the hook for incoming packets never faults, always accepts the packet,
  leaves it unchanged and keeps the table well-formed; a packet in scope with the ACK flag moves
  \<open>last_ack\<close> of its flow forward, and nothing else changes.
\<close>

theorem incoming_hook_refines_map:
  assumes "wf_table ft"
  shows "\<exists>ft'. pias_hook_func_in conf env dev skb ft = Some (NF_ACCEPT, skb, ft') \<and> wf_table ft' \<and>
    (case in_scope conf dev skb of
       None \<Rightarrow> ft' = ft
     | Some (iph, th) \<Rightarrow> flow_map ft' = in_effect th iph (flow_map ft))"
  using hook_in_not_in_scope [of conf dev skb env ft] hook_in_in_scope [OF assms, of conf dev skb _ _ env]
    assms
  by (cases "in_scope conf dev skb") auto

theorem incoming_hook_refines_map_witness:
  "\<exists>ft'. pias_hook_func_in sample_conf sample_env (Some ''eth0'') sample_skb sample_table
     = Some (NF_ACCEPT, sample_skb, ft')
     \<and> flow_map ft' = in_effect sample_tcphdr sample_iphdr (flow_map sample_table)"
  using incoming_hook_refines_map [OF sample_table_spec(1), of sample_conf sample_env
      "Some ''eth0''" sample_skb]
  by (auto simp: sample_in_scope)

text \<open>
  C35.  In-order segments are counted exactly: after any number of them \<open>bytes_sent\<close> has grown by the
  sum of their payload lengths and \<open>last_seq\<close> has advanced by it, both modulo \<open>2 ^ 32\<close>, and the
  timeout counter is unchanged.  A flow that has sent a multiple of \<open>2 ^ 32\<close> bytes more counts as
  one that has sent none.
\<close>

theorem in_order_bytes_counted:
  assumes "in_order_from (last_seq i) segs"
  shows "bytes_sent (update_out_run api ps segs i) = bytes_sent i + of_nat (payload_total segs)
    \<and> last_seq (update_out_run api ps segs i) = last_seq i + of_nat (payload_total segs)
    \<and> timeouts (update_out_run api ps segs i) = timeouts i
    \<and> (2 ^ 32 dvd payload_total segs \<longrightarrow> bytes_sent (update_out_run api ps segs i) = bytes_sent i)"
  using in_order_run [OF assms, of api ps]
  by (auto simp: word_of_nat_eq_0_iff)

theorem in_order_bytes_counted_witness:
  "bytes_sent (update_out_run sample_api default_params
     [(5, 1448, 1448), (6, 2896, 1448), (7, 3000, 104)] zero_info) = 3000"
proof -
  have "in_order_from (last_seq zero_info) [(5, 1448, 1448), (6, 2896, 1448), (7, 3000, 104)]"
    by (simp add: zero_info_def)
  from in_order_bytes_counted [OF this, of sample_api default_params]
  show ?thesis by (simp add: zero_info_def payload_total_def)
qed

text \<open>
  C19.  With the default threshold of three, and every threshold above one, the aging that should
  restore the priority of a starved flow never happens: whatever timeouts occur, \<open>bytes_sent\<close> is
  never reset and the timeout counter never exceeds one, so it never reaches the threshold.
  (The exception is a gap parameter of -1.)
\<close>

theorem aging_never_fires:
  assumes "sint (PIAS_TIMEOUT_THRESH ps) \<ge> 2" and "PIAS_TIMEOUT_SEQ_GAP ps \<noteq> - 1"
  shows "bytes_sent (update_out_info api ps now seq n i) =
      (if pias_is_seq_larger seq (last_seq i) then bytes_sent i + ucast n else bytes_sent i)
    \<and> timeouts (update_out_info api ps now seq n i) =
      (if is_timeout api ps now seq i then 1 else timeouts i)
    \<and> (timeouts i \<le> 1 \<longrightarrow> timeouts (update_out_run api ps segs i) \<le> 1)"
proof (intro conjI impI)
  show "timeouts i \<le> 1 \<Longrightarrow> timeouts (update_out_run api ps segs i) \<le> 1"
  proof (induction segs arbitrary: i)
    case (Cons seg segs)
    obtain now seq n where seg: "seg = (now, seq, n)" by (cases seg)
    have "timeouts (update_out_info api ps now seq n i) \<le> 1"
      using Cons.prems by (simp add: update_out_info_threshold [OF assms])
    from Cons.IH [OF this] show ?case by (simp add: seg)
  qed simp
qed (auto simp: update_out_info_threshold [OF assms] is_timeout_def)

definition starved_info :: PIAS_Flow_Info where
  "starved_info = zero_info\<lparr>last_seq := 5000, last_ack := 1000, bytes_sent := 200000, timeouts := 2\<rparr>"

theorem aging_never_fires_witness:
  "is_timeout sample_api default_params 50000000 5000 starved_info
   \<and> timeouts (update_out_info sample_api default_params 50000000 5000 1448 starved_info) = 1
   \<and> bytes_sent (update_out_info sample_api default_params 50000000 5000 1448 starved_info) = 200000"
proof -
  have t: "is_timeout sample_api default_params 50000000 5000 starved_info"
    by (simp add: is_timeout_def sample_api_def default_params_def starved_info_def zero_info_def
        pias_is_seq_larger_def)
  have "sint (PIAS_TIMEOUT_THRESH default_params) \<ge> 2" "PIAS_TIMEOUT_SEQ_GAP default_params \<noteq> - 1"
    by (simp_all add: default_params_def)
  from aging_never_fires [OF this, of sample_api 50000000 5000 1448 starved_info] t
  show ?thesis by (simp add: starved_info_def zero_info_def)
qed

text \<open>
  With a threshold of one, aging works as documented: a timeout resets \<open>bytes_sent\<close> when aging
  is enabled, so the flow has the highest priority again, and the counter stays at zero.
\<close>

theorem aging_with_threshold_one:
  assumes "PIAS_TIMEOUT_THRESH ps = 1" and "timeouts i = 0" and "PIAS_ENABLE_AGING ps = 1"
    and "is_timeout api ps now seq i"
  shows "bytes_sent (update_out_info api ps now seq n i) = 0
    \<and> prio_level ps (bytes_sent (update_out_info api ps now seq n i)) = 0
    \<and> timeouts (update_out_info api ps now seq n i) = 0
    \<and> last_timeout_seq (update_out_info api ps now seq n i) = seq"
proof -
  have "\<not> pias_is_seq_larger seq (last_seq i)"
    using assms(4) by (simp add: is_timeout_def)
  then show ?thesis
    using assms(3,4)
    by (simp add: update_out_info_threshold_1 [OF assms(1,2)] prio_level_def takeWhile_eq_Nil_iff)
qed

theorem aging_with_threshold_one_witness:
  "bytes_sent (update_out_info sample_api (default_params\<lparr>PIAS_TIMEOUT_THRESH := 1\<rparr>) 50000000 5000 1448
     (starved_info\<lparr>timeouts := 0\<rparr>)) = 0"
proof -
  have "is_timeout sample_api (default_params\<lparr>PIAS_TIMEOUT_THRESH := 1\<rparr>) 50000000 5000
      (starved_info\<lparr>timeouts := 0\<rparr>)"
    by (simp add: is_timeout_def sample_api_def default_params_def starved_info_def zero_info_def
        pias_is_seq_larger_def)
  then show ?thesis
    using aging_with_threshold_one [of "default_params\<lparr>PIAS_TIMEOUT_THRESH := 1\<rparr>"
        "starved_info\<lparr>timeouts := 0\<rparr>" sample_api 50000000 5000 1448]
    by (simp add: default_params_def)
qed

end
