(* ===== verification/PIAS_JProbe.thy ===== *)
theory PIAS_JProbe
  imports PIAS_Netfilter
begin

text \<open>
  The probe on \<open>tcp_sendmsg\<close> (\<open>PIAS/jprobe.c\<close>): message boundaries of a connection.
  \<open>jtcp_sendmsg\<close> takes the module's configuration, the kernel's answers, the socket and the table.
\<close>

section \<open>Sockets\<close>

record sock =
  inet_saddr :: u32
  inet_daddr :: u32
  inet_sport :: u16
  inet_dport :: u16
  snd_nxt :: u32
  write_seq :: u32

section \<open>The probe\<close>

text \<open>The update of a flow's entry by a copy from user space; the first branch is a flow's first message.\<close>

definition update_send_info ::
  "kernel_api \<Rightarrow> params \<Rightarrow> ktime \<Rightarrow> sock \<Rightarrow> PIAS_Flow_Info \<Rightarrow> PIAS_Flow_Info" where
  "update_send_info api ps now sk i =
     (let i' =
            (if last_copy_time i = 0 then i\<lparr>messages := messages i + 1\<rparr>
             else if snd_nxt sk = write_seq sk then
               let idle_time = ktime_us_delta api now (last_copy_time i) in
               if sint idle_time > sint (PIAS_IDLE_TIME ps)
               then i\<lparr>bytes_sent := 0, messages := messages i + 1\<rparr>
               else i
             else i)
      in i'\<lparr>last_copy_time := now\<rparr>)"

text \<open>\<open>f\<close> is not initialised: its other fields are what the stack holds.\<close>

definition sock_flow :: "PIAS_Flow \<Rightarrow> sock \<Rightarrow> PIAS_Flow" where
  "sock_flow f sk =
     f\<lparr>local_ip := inet_saddr sk, remote_ip := inet_daddr sk,
       local_port := ntohs (inet_sport sk), remote_port := ntohs (inet_dport sk)\<rparr>"

definition jtcp_sendmsg ::
  "kernel_api \<Rightarrow> module_conf \<Rightarrow> hook_env \<Rightarrow> sock \<Rightarrow> PIAS_Flow_Table \<Rightarrow> (i32 \<times> PIAS_Flow_Table) option" where
  "jtcp_sendmsg api conf env sk ft =
     (let f = sock_flow (env_stack env) sk in
      if param_port conf = 0 \<or> ucast (local_port f) = param_port conf
         \<or> ucast (remote_port f) = param_port conf then do {
        ptr \<leftarrow> PIAS_Search_Table (Some ft) (Some f);
        (case ptr of
           Some p \<Rightarrow> do {
             g \<leftarrow> flow_load ft p;
             ft' \<leftarrow> flow_store ft p
               (update_send_info api (tunables conf) (env_now env) sk (info g));
             Some (0, ft')
           }
         | None \<Rightarrow> Some (0, ft))
      } else Some (0, ft))"

text \<open>The argument is what \<open>register_jprobe\<close> returns, 0 for success; the second result is
  whether the probe is registered afterwards.\<close>

definition PIAS_JProbe_Init :: "i32 \<Rightarrow> bool \<Rightarrow> bool \<times> bool" where
  "PIAS_JProbe_Init reg registered = (if reg \<noteq> 0 then (False, registered) else (True, True))"

definition PIAS_JProbe_Exit :: "bool \<Rightarrow> bool" where
  "PIAS_JProbe_Exit registered = False"

section \<open>The probe on the map\<close>

definition sock_key :: "sock \<Rightarrow> flow_key" where
  "sock_key sk = (inet_saddr sk, inet_daddr sk, ntohs (inet_sport sk), ntohs (inet_dport sk))"

definition sock_in_scope :: "module_conf \<Rightarrow> sock \<Rightarrow> bool" where
  "sock_in_scope conf sk \<longleftrightarrow>
     param_port conf = 0 \<or> ucast (ntohs (inet_sport sk)) = param_port conf
       \<or> ucast (ntohs (inet_dport sk)) = param_port conf"

definition send_effect ::
  "kernel_api \<Rightarrow> module_conf \<Rightarrow> hook_env \<Rightarrow> sock \<Rightarrow>
   (flow_key \<rightharpoonup> PIAS_Flow_Info) \<Rightarrow> (flow_key \<rightharpoonup> PIAS_Flow_Info)" where
  "send_effect api conf env sk m =
     (let k = sock_key sk in
      if sock_in_scope conf sk then
        (case m k of None \<Rightarrow> m
         | Some i \<Rightarrow> m(k \<mapsto> update_send_info api (tunables conf) (env_now env) sk i))
      else m)"

lemma sock_flow_key [simp]: "key_of (sock_flow f sk) = sock_key sk"
  by (simp add: key_of_def sock_flow_def sock_key_def)

lemma sock_flow_ports [simp]:
  "local_port (sock_flow f sk) = ntohs (inet_sport sk)"
  "remote_port (sock_flow f sk) = ntohs (inet_dport sk)"
  by (simp_all add: sock_flow_def)

lemma jtcp_sendmsg_spec:
  assumes wf: "wf_table ft"
  shows "\<exists>ft'. jtcp_sendmsg api conf env sk ft = Some (0, ft') \<and> wf_table ft' \<and>
    flow_map ft' = send_effect api conf env sk (flow_map ft)"
proof (cases "sock_in_scope conf sk")
  case True
  from flow_table.modify_spec [OF wf, of "sock_flow (env_stack env) sk"
      "update_send_info api (tunables conf) (env_now env) sk"]
  show ?thesis using wf True
    by (auto simp: jtcp_sendmsg_def send_effect_def sock_in_scope_def Let_def
        simp del: PIAS_Search_Table.simps split: option.splits bind_splits)
next
  case False
  then show ?thesis using wf
    by (simp add: jtcp_sendmsg_def send_effect_def sock_in_scope_def)
qed

section \<open>Properties\<close>

text \<open>What a copy at time \<open>now\<close> makes of the entry of its flow.\<close>

definition after_copy :: "kernel_api \<Rightarrow> params \<Rightarrow> ktime \<Rightarrow> sock \<Rightarrow> PIAS_Flow_Info \<Rightarrow> PIAS_Flow_Info" where
  "after_copy api ps now sk i =
     (let first = (last_copy_time i = 0);
          idle = (\<not> first \<and> snd_nxt sk = write_seq sk
                  \<and> sint (ktime_us_delta api now (last_copy_time i)) > sint (PIAS_IDLE_TIME ps))
      in i\<lparr>last_copy_time := now,
           messages := (if first \<or> idle then messages i + 1 else messages i),
           bytes_sent := (if idle then 0 else bytes_sent i)\<rparr>)"

lemma update_send_info_after_copy: "update_send_info api ps now sk = after_copy api ps now sk"
proof
  fix i
  show "update_send_info api ps now sk i = after_copy api ps now sk i"
    by (cases i) (simp add: update_send_info_def after_copy_def Let_def)
qed

text \<open>
  C37.  On a well-formed table the probe never faults and keeps the table well-formed.  It touches at
  most the entry of the socket's flow: the first copy of a connection starts a message; a copy with
  nothing left to send, more than \<open>IDLE_TIME\<close> after the previous copy, starts a new
  message and resets \<open>bytes_sent\<close>, which restores the highest priority; any other copy only
  records its time.
\<close>

theorem sendmsg_detects_messages:
  assumes "wf_table ft"
  shows "\<exists>ft'. jtcp_sendmsg api conf env sk ft = Some (0, ft') \<and> wf_table ft' \<and>
    (\<forall>k. flow_map ft' k =
      (if k = sock_key sk \<and> sock_in_scope conf sk
       then map_option (after_copy api (tunables conf) (env_now env) sk) (flow_map ft k)
       else flow_map ft k))"
proof -
  have "send_effect api conf env sk (flow_map ft) k =
      (if k = sock_key sk \<and> sock_in_scope conf sk
       then map_option (after_copy api (tunables conf) (env_now env) sk) (flow_map ft k)
       else flow_map ft k)" for k
    by (auto simp: send_effect_def update_send_info_after_copy Let_def split: option.splits)
  moreover obtain ft' where "jtcp_sendmsg api conf env sk ft = Some (0, ft')" "wf_table ft'"
    "flow_map ft' = send_effect api conf env sk (flow_map ft)"
    using jtcp_sendmsg_spec [OF assms, of api conf env sk] by blast
  ultimately show ?thesis by (intro exI [of _ ft']) (simp only: simp_thms)
qed

definition sample_sock :: sock where
  "sample_sock =
     \<lparr>inet_saddr = 0x0B65A8C0, inet_daddr = 0x0C65A8C0, inet_sport = 0xFAEB, inet_dport = 0x8913,
      snd_nxt = 3001, write_seq = 3001\<rparr>"

lemma sock_key_sample: "sock_key sample_sock = key_of sample_flow"
  by (simp add: sock_key_def sample_sock_def key_of_def sample_flow_def ntohs_def)

lemma sample_flow_copy: "last_copy_time (info sample_flow) = 0" "messages (info sample_flow) = 0"
  by (simp_all add: sample_flow_def zero_info_def)

theorem sendmsg_detects_messages_witness:
  "\<exists>ft' i. jtcp_sendmsg sample_api sample_conf sample_env sample_sock sample_table = Some (0, ft')
     \<and> flow_map ft' (key_of sample_flow) = Some i \<and> messages i = 1 \<and> last_copy_time i = 1000000"
proof -
  have scope: "sock_in_scope sample_conf sample_sock"
    by (simp add: sock_in_scope_def sample_conf_def)
  obtain ft' where ft': "jtcp_sendmsg sample_api sample_conf sample_env sample_sock sample_table = Some (0, ft')"
    and upd: "\<forall>k. flow_map ft' k = (if k = sock_key sample_sock \<and> sock_in_scope sample_conf sample_sock
      then map_option (after_copy sample_api (tunables sample_conf) (env_now sample_env) sample_sock)
             (flow_map sample_table k)
      else flow_map sample_table k)"
    using sendmsg_detects_messages [OF sample_table_spec(1), of sample_api sample_conf sample_env sample_sock]
    by blast
  from upd [rule_format, of "key_of sample_flow"] scope ft' show ?thesis
    by (simp add: sock_key_sample sample_table_spec(2) after_copy_def sample_flow_copy)
      (simp add: sample_env_def)
qed

end
