(* ===== verification/PIAS_Main.thy ===== *)
theory PIAS_Main
  imports PIAS_JProbe Step_Systems
begin

text \<open>
  The kernel module as a whole (\<open>PIAS/main.c\<close>): its state, loading and unloading, the
  \<open>param_table_operation\<close> file, and the machine whose steps are the calls the kernel makes.
\<close>

section \<open>State\<close>

record pias_module =
  mod_conf :: module_conf
  mod_table :: PIAS_Flow_Table
  mod_sysctl :: sysctl_state
  mod_netfilter :: netfilter_state
  mod_jprobe :: bool

text \<open>The module as it is loaded: static data, the parameters given to \<open>insmod\<close>, nothing registered,
  the global table zeroed (its \<open>flow_lists\<close> is NULL).\<close>

definition static_module :: "string option \<Rightarrow> i32 \<Rightarrow> pias_module" where
  "static_module dev port =
     \<lparr>mod_conf = \<lparr>param_dev = dev, param_port = port, tunables = default_params\<rparr>,
      mod_table = \<lparr>flow_lists = [], table_size = 0\<rparr>,
      mod_sysctl = sysctl_static,
      mod_netfilter = \<lparr>hook_out_registered = False, hook_in_registered = False\<rparr>,
      mod_jprobe = False\<rparr>"

section \<open>Loading and unloading\<close>

text \<open>What the kernel answers while the module is loaded.\<close>

record init_answers =
  ans_vmalloc :: "PIAS_Flow_List list option"
  ans_sysctl :: bool
  ans_hook_out :: i32
  ans_hook_in :: i32
  ans_jprobe :: i32

text \<open>The trimming loop: the first newline among the first \<open>n\<close> characters becomes the NUL.\<close>

fun trim_dev :: "nat \<Rightarrow> string \<Rightarrow> string" where
  "trim_dev 0 cs = cs"
| "trim_dev (Suc n) [] = []"
| "trim_dev (Suc n) (c # cs) = (if c = CHR 0x0A then [] else c # trim_dev n cs)"

definition pias_module_init :: "init_answers \<Rightarrow> pias_module \<Rightarrow> (i32 \<times> pias_module) option" where
  "pias_module_init ans m = do {
     let conf = mod_conf m;
     let m = m\<lparr>mod_conf := conf\<lparr>param_dev := map_option (trim_dev 32) (param_dev conf)\<rparr>\<rparr>;
     (_, ftp) \<leftarrow> PIAS_Init_Table (ans_vmalloc ans) (Some (mod_table m));
     ft \<leftarrow> ftp;
     let m = m\<lparr>mod_table := ft\<rparr>;
     (params_ok, sys) \<leftarrow> PIAS_Params_Init (ans_sysctl ans) (mod_sysctl m);
     let m = m\<lparr>mod_sysctl := sys\<rparr>;
     if params_ok then do {
       let (hooks_ok, nf) = PIAS_Netfilter_Init (ans_hook_out ans) (ans_hook_in ans) (mod_netfilter m);
       let m = m\<lparr>mod_netfilter := nf\<rparr>;
       if hooks_ok then do {
         let (probe_ok, jp) = PIAS_JProbe_Init (ans_jprobe ans) (mod_jprobe m);
         let m = m\<lparr>mod_jprobe := jp\<rparr>;
         if probe_ok then Some (0, m) else Some (- 1, m)
       } else Some (- 1, m)
     } else Some (- 1, m)
   }"

definition pias_module_exit :: "pias_module \<Rightarrow> pias_module option" where
  "pias_module_exit m = do {
     let m = m\<lparr>mod_jprobe := PIAS_JProbe_Exit (mod_jprobe m)\<rparr>;
     let m = m\<lparr>mod_netfilter := PIAS_Netfilter_Exit (mod_netfilter m)\<rparr>;
     let m = m\<lparr>mod_sysctl := PIAS_Params_Exit (mod_sysctl m)\<rparr>;
     (_, ftp) \<leftarrow> PIAS_Exit_Table (Some (mod_table m));
     ft \<leftarrow> ftp;
     Some (m\<lparr>mod_table := ft\<rparr>)
   }"

section \<open>The table operations file\<close>

definition pias_set_operation ::
  "string \<Rightarrow> PIAS_Flow_Table \<Rightarrow> (i32 \<times> PIAS_Flow_Table \<times> log_line list) option" where
  "pias_set_operation val ft =
     (if c_strncmp 5 val ''clear'' = 0 then do {
        (_, ftp) \<leftarrow> PIAS_Clear_Table (Some ft);
        ft' \<leftarrow> ftp;
        Some (0, ft', [])
      } else if c_strncmp 5 val ''print'' = 0 then do {
        out \<leftarrow> PIAS_Print_Table (Some ft);
        Some (0, ft, out)
      } else Some (0, ft, []))"

definition pias_noget :: "string \<Rightarrow> i32" where
  "pias_noget val = 0"

section \<open>The module at work\<close>

text \<open>
  The calls the kernel makes into the loaded module: a packet on its way out or in, a
  \<open>tcp_sendmsg\<close>, a write to the operations file, and a write of an exported tunable, which
  stores through the pointer of its table entry.
\<close>

datatype event =
    Outgoing hook_env "string option" sk_buff
  | Incoming hook_env "string option" sk_buff
  | Sendmsg hook_env sock
  | Operation string
  | Set_tunable param_ptr i32

fun module_step :: "kernel_api \<Rightarrow> event \<Rightarrow> pias_module \<Rightarrow> pias_module option" where
  "module_step api (Outgoing env dev skb) m =
     map_option (\<lambda>(_, _, ft). m\<lparr>mod_table := ft\<rparr>)
       (pias_hook_func_out api (mod_conf m) env dev skb (mod_table m))"
| "module_step api (Incoming env dev skb) m =
     map_option (\<lambda>(_, _, ft). m\<lparr>mod_table := ft\<rparr>)
       (pias_hook_func_in (mod_conf m) env dev skb (mod_table m))"
| "module_step api (Sendmsg env sk) m =
     map_option (\<lambda>(_, ft). m\<lparr>mod_table := ft\<rparr>)
       (jtcp_sendmsg api (mod_conf m) env sk (mod_table m))"
| "module_step api (Operation val) m =
     map_option (\<lambda>(_, ft, _). m\<lparr>mod_table := ft\<rparr>) (pias_set_operation val (mod_table m))"
| "module_step api (Set_tunable p v) m =
     (if Some p \<in> ctl_data ` set (params_table (mod_sysctl m)) then
        map_option (\<lambda>ps. m\<lparr>mod_conf := (mod_conf m)\<lparr>tunables := ps\<rparr>\<rparr>)
          (param_store p v (tunables (mod_conf m)))
      else Some m)"

text \<open>The states a successfully loaded module with a table can reach.\<close>

inductive reachable :: "kernel_api \<Rightarrow> pias_module \<Rightarrow> bool" for api :: kernel_api where
  loaded: "ans_vmalloc ans = Some buf \<Longrightarrow> length buf = PIAS_HASH_RANGE \<Longrightarrow>
     pias_module_init ans (static_module dev port) = Some (0, m) \<Longrightarrow> reachable api m"
| step: "reachable api m \<Longrightarrow> module_step api e m = Some m' \<Longrightarrow> reachable api m'"

section \<open>The invariant of the loaded module\<close>

definition wf_module :: "pias_module \<Rightarrow> bool" where
  "wf_module m \<longleftrightarrow>
     wf_table (mod_table m) \<and> wf_params (tunables (mod_conf m)) \<and>
     params_table (mod_sysctl m) = exported_table"

lemma pias_set_operation_total:
  assumes "wf_table ft"
  shows "\<exists>ft' out. pias_set_operation val ft = Some (0, ft', out) \<and> wf_table ft'"
  using PIAS_Clear_Table_spec [OF assms] PIAS_Print_Table_total [of ft] assms
  by (auto simp: pias_set_operation_def wf_table_def
      simp del: PIAS_Clear_Table.simps PIAS_Print_Table.simps)

lemma hook_out_total:
  assumes "wf_table ft" and "wf_params (tunables conf)"
  shows "\<exists>skb' ft'. pias_hook_func_out api conf env dev skb ft = Some (NF_ACCEPT, skb', ft') \<and> wf_table ft'"
  using hook_out_in_scope [OF assms] hook_out_not_in_scope assms(1)
  by (cases "in_scope conf dev skb") fastforce+

lemma hook_in_total:
  assumes "wf_table ft"
  shows "\<exists>ft'. pias_hook_func_in conf env dev skb ft = Some (NF_ACCEPT, skb, ft') \<and> wf_table ft'"
  using hook_in_in_scope [OF assms] hook_in_not_in_scope assms(1)
  by (cases "in_scope conf dev skb") fastforce+

lemma module_step_wf:
  assumes "wf_module m"
  shows "\<exists>m'. module_step api e m = Some m' \<and> wf_module m'"
proof (cases e)
  case (Outgoing env dev skb)
  then show ?thesis
    using assms hook_out_total [of "mod_table m" "mod_conf m" api env dev skb]
    by (auto simp: wf_module_def)
next
  case (Incoming env dev skb)
  then show ?thesis
    using assms hook_in_total [of "mod_table m" "mod_conf m" env dev skb]
    by (auto simp: wf_module_def)
next
  case (Sendmsg env sk)
  then show ?thesis
    using assms jtcp_sendmsg_spec [of "mod_table m" api "mod_conf m" env sk]
    by (auto simp: wf_module_def)
next
  case (Operation val)
  then show ?thesis
    using assms pias_set_operation_total [of "mod_table m" val]
    by (auto simp: wf_module_def)
next
  case (Set_tunable p v)
  then show ?thesis
    using assms param_store_total [of "tunables (mod_conf m)" p v]
      exported_iff_loadable [of "tunables (mod_conf m)" p]
    by (auto simp: wf_module_def exported_ptrs)
qed

text \<open>Loading, on every combination of answers of the kernel.\<close>

lemma pias_module_init_result:
  assumes "ans_vmalloc ans = Some buf" and "length buf = PIAS_HASH_RANGE"
  shows "\<exists>m. pias_module_init ans (static_module dev port) =
      Some (if ans_sysctl ans \<and> ans_hook_out ans = 0 \<and> ans_hook_in ans = 0 \<and> ans_jprobe ans = 0
            then 0 else - 1, m)
    \<and> wf_module m \<and> flow_map (mod_table m) = Map.empty
    \<and> tunables (mod_conf m) = default_params
    \<and> param_dev (mod_conf m) = map_option (trim_dev 32) dev
    \<and> sysctl_registered (mod_sysctl m) = ans_sysctl ans
    \<and> hook_out_registered (mod_netfilter m) = (ans_sysctl ans \<and> ans_hook_out ans = 0)
    \<and> hook_in_registered (mod_netfilter m) = (ans_sysctl ans \<and> ans_hook_out ans = 0 \<and> ans_hook_in ans = 0)
    \<and> mod_jprobe m = (ans_sysctl ans \<and> ans_hook_out ans = 0 \<and> ans_hook_in ans = 0 \<and> ans_jprobe ans = 0)"
proof -
  obtain ft where ft: "PIAS_Init_Table (Some buf) (Some \<lparr>flow_lists = [], table_size = 0\<rparr>) =
      Some (True, Some ft)" "wf_table ft" "flow_map ft = Map.empty"
    using PIAS_Init_Table_spec [OF assms(2)] by blast
  obtain t where t: "PIAS_Params_Init (ans_sysctl ans) sysctl_static = Some (ans_sysctl ans, t)"
    "params_table t = exported_table" "sysctl_registered t = ans_sysctl ans"
    by (rule PIAS_Params_Init_static)
  show ?thesis
    using assms(1) ft t wf_default_params
    by (auto simp: pias_module_init_def static_module_def PIAS_Netfilter_Init_def PIAS_JProbe_Init_def
        wf_module_def Let_def simp del: PIAS_Init_Table.simps)
qed

interpretation loaded_modules: step_system
  "\<lambda>m. \<exists>ans buf dev port. ans_vmalloc ans = Some buf \<and> length buf = PIAS_HASH_RANGE
     \<and> pias_module_init ans (static_module dev port) = Some (0, m)"
  "\<lambda>_ _. True" "module_step api" "reachable api"
  by unfold_locales (auto intro: reachable.intros, erule reachable.induct, blast+)

interpretation module_wf: step_invariant
  "\<lambda>m. \<exists>ans buf dev port. ans_vmalloc ans = Some buf \<and> length buf = PIAS_HASH_RANGE
     \<and> pias_module_init ans (static_module dev port) = Some (0, m)"
  "\<lambda>_ _. True" "module_step api" "reachable api" wf_module
proof unfold_locales
  show "wf_module m"
    if start: "\<exists>ans buf dev port. ans_vmalloc ans = Some buf \<and> length buf = PIAS_HASH_RANGE
       \<and> pias_module_init ans (static_module dev port) = Some (0, m)" for m
  proof -
    obtain ans buf dev port where "ans_vmalloc ans = Some buf" "length buf = PIAS_HASH_RANGE"
      "pias_module_init ans (static_module dev port) = Some (0, m)" using start by blast
    then show ?thesis using pias_module_init_result [of ans buf dev port] by auto
  qed
  show "wf_module t" if "wf_module s" "module_step api l s = Some t" for s l t
    using that module_step_wf [of s api l] by auto
qed

lemmas reachable_wf [wf_intros] = module_wf.inv_reach

section \<open>Properties\<close>

definition all_answers_good :: "init_answers" where
  "all_answers_good =
     \<lparr>ans_vmalloc = Some (flow_lists empty_table), ans_sysctl = True, ans_hook_out = 0,
      ans_hook_in = 0, ans_jprobe = 0\<rparr>"


lemma loaded_module:
  "\<exists>m. pias_module_init all_answers_good (static_module dev port) = Some (0, m)
     \<and> reachable api m \<and> wf_module m \<and> flow_map (mod_table m) = Map.empty"
proof -
  have "ans_vmalloc all_answers_good = Some (flow_lists empty_table)"
    "length (flow_lists empty_table) = PIAS_HASH_RANGE"
    by (simp_all add: all_answers_good_def empty_table_def)
  from pias_module_init_result [OF this, of dev port] reachable.loaded [OF this, of dev port _ api]
  show ?thesis by (auto simp: all_answers_good_def)
qed


text \<open>
  C38.  Loading with a table in memory returns 0 exactly when the kernel accepts the sysctl table, both
  hooks and the probe, and the table is then empty and well-formed.  On a failure it returns -1 but
  undoes nothing: what was registered before the failing call stays registered.
\<close>

theorem module_init_outcome:
  assumes "ans_vmalloc ans = Some buf" and "length buf = PIAS_HASH_RANGE"
  shows "\<exists>m. pias_module_init ans (static_module dev port) =
      Some (if ans_sysctl ans \<and> ans_hook_out ans = 0 \<and> ans_hook_in ans = 0 \<and> ans_jprobe ans = 0
            then 0 else - 1, m)
    \<and> wf_table (mod_table m) \<and> flow_map (mod_table m) = Map.empty
    \<and> sysctl_registered (mod_sysctl m) = ans_sysctl ans
    \<and> hook_out_registered (mod_netfilter m) = (ans_sysctl ans \<and> ans_hook_out ans = 0)
    \<and> hook_in_registered (mod_netfilter m) = (ans_sysctl ans \<and> ans_hook_out ans = 0 \<and> ans_hook_in ans = 0)
    \<and> mod_jprobe m = (ans_sysctl ans \<and> ans_hook_out ans = 0 \<and> ans_hook_in ans = 0 \<and> ans_jprobe ans = 0)"
  using pias_module_init_result [OF assms, of dev port] by (auto simp: wf_module_def)

theorem module_init_outcome_witness:
  "\<exists>m. pias_module_init (all_answers_good\<lparr>ans_jprobe := - 38\<rparr>) (static_module None 0) = Some (- 1, m)
     \<and> hook_out_registered (mod_netfilter m) \<and> hook_in_registered (mod_netfilter m)"
  using module_init_outcome [of "all_answers_good\<lparr>ans_jprobe := - 38\<rparr>" "flow_lists empty_table" None 0]
  by (auto simp: all_answers_good_def empty_table_def)

text \<open>
  Unloading a module in a reachable state does not fault, leaves nothing registered and frees
  the table.
\<close>

theorem module_exit_releases:
  assumes "reachable api m"
  shows "\<exists>m'. pias_module_exit m = Some m' \<and> flow_lists (mod_table m') = []
    \<and> \<not> hook_out_registered (mod_netfilter m') \<and> \<not> hook_in_registered (mod_netfilter m')
    \<and> \<not> mod_jprobe m' \<and> \<not> sysctl_registered (mod_sysctl m')"
proof -
  have "wf_table (mod_table m)"
    using reachable_wf [OF assms] by (simp add: wf_module_def)
  from PIAS_Exit_Table_spec [OF this] show ?thesis
    by (auto simp: pias_module_exit_def PIAS_Netfilter_Exit_def PIAS_JProbe_Exit_def
        PIAS_Params_Exit_def Let_def)
qed

theorem module_exit_releases_witness:
  "\<exists>m m'. reachable sample_api m \<and> pias_module_exit m = Some m' \<and> flow_lists (mod_table m') = []"
  using loaded_module [of None 0 sample_api] module_exit_releases [of sample_api] by blast

text \<open>
  If \<open>vmalloc\<close> fails, loading still returns 0 and the hooks are registered; the first packet in
  scope that the outgoing hook sees faults on the missing table.
\<close>

theorem missing_table_faults:
  assumes "ans_vmalloc ans = None" and "ans_sysctl ans" and "ans_hook_out ans = 0"
    and "ans_hook_in ans = 0" and "ans_jprobe ans = 0"
  shows "\<exists>m. pias_module_init ans (static_module dev port) = Some (0, m)
    \<and> hook_out_registered (mod_netfilter m)
    \<and> param_dev (mod_conf m) = map_option (trim_dev 32) dev \<and> param_port (mod_conf m) = port
    \<and> (in_scope (mod_conf m) out skb \<noteq> None \<longrightarrow> module_step api (Outgoing env out skb) m = None)"
proof -
  obtain t where t: "PIAS_Params_Init True sysctl_static = Some (True, t)"
    by (rule PIAS_Params_Init_static)
  then obtain m where m: "pias_module_init ans (static_module dev port) = Some (0, m)"
    "hook_out_registered (mod_netfilter m)" "flow_lists (mod_table m) = []"
    "param_dev (mod_conf m) = map_option (trim_dev 32) dev" "param_port (mod_conf m) = port"
    using assms by (auto simp: pias_module_init_def static_module_def PIAS_Netfilter_Init_def
        PIAS_JProbe_Init_def Let_def)
  have "module_step api (Outgoing env out skb) m = None"
    if "in_scope (mod_conf m) out skb = Some (iph, th)" for iph th
  proof -
    from that obtain name where name: "out = Some name" "\<not> dev_mismatch (mod_conf m) name"
      "skb_ip skb = Some iph" "ip_protocol iph = IPPROTO_TCP"
      "skb_tcp_at skb (unat (ip_ihl iph)) = th" "\<not> port_mismatch (mod_conf m) th"
      by (auto elim: in_scopeD)
    then show ?thesis
      by (simp add: pias_hook_func_out_def m(3) c_read_def Let_def)
  qed
  with m show ?thesis by (cases "in_scope (mod_conf m) out skb") auto
qed

theorem missing_table_faults_witness:
  "\<exists>m. pias_module_init (all_answers_good\<lparr>ans_vmalloc := None\<rparr>) (static_module None 0) = Some (0, m)
     \<and> module_step sample_api (Outgoing sample_env (Some ''eth0'') sample_skb) m = None"
proof -
  obtain m where m: "pias_module_init (all_answers_good\<lparr>ans_vmalloc := None\<rparr>) (static_module None 0) = Some (0, m)"
    "param_dev (mod_conf m) = None" "param_port (mod_conf m) = 0"
    "in_scope (mod_conf m) (Some ''eth0'') sample_skb \<noteq> None \<longrightarrow>
       module_step sample_api (Outgoing sample_env (Some ''eth0'') sample_skb) m = None"
    using missing_table_faults [where ans = "all_answers_good\<lparr>ans_vmalloc := None\<rparr>" and dev = None
        and port = 0 and api = sample_api and env = sample_env and out = "Some ''eth0''"
        and skb = sample_skb]
    by (auto simp: all_answers_good_def simp del: module_step.simps)
  moreover have "in_scope (mod_conf m) (Some ''eth0'') sample_skb \<noteq> None"
    using m(2,3) by (simp add: in_scope_def sample_skb_def sample_iphdr_def dev_mismatch_def
        port_mismatch_def IPPROTO_TCP_def)
  ultimately show ?thesis by blast
qed

lemma trim_dev_newline:
  "CHR 0x0A \<notin> set name \<Longrightarrow> length name < n \<Longrightarrow> trim_dev n (name @ CHR 0x0A # rest) = name"
proof (induction name arbitrary: n)
  case Nil
  then show ?case by (cases n) auto
next
  case (Cons c name)
  then show ?case by (cases n) auto
qed

lemma set_trim_dev: "set (trim_dev n cs) \<subseteq> set cs"
  by (induction n cs rule: trim_dev.induct) auto

text \<open>
  A device name given to \<open>insmod\<close> with a newline after it, as a shell pipe leaves it, filters
  like the name itself: once the module is loaded, the hooks skip exactly the devices whose
  first 16 characters differ from those of the name.
\<close>

theorem device_filter_ignores_newline:
  assumes "CHR 0x0A \<notin> set name" and "length name < 32" and "no_NUL name" and "no_NUL dev"
    and "ans_vmalloc ans = Some buf" and "length buf = PIAS_HASH_RANGE"
  shows "\<exists>r m. pias_module_init ans (static_module (Some (name @ CHR 0x0A # rest)) port) = Some (r, m)
    \<and> (dev_mismatch (mod_conf m) dev = (take 16 dev \<noteq> take 16 name))"
proof -
  obtain r m where m: "pias_module_init ans (static_module (Some (name @ CHR 0x0A # rest)) port) = Some (r, m)"
    and dev: "param_dev (mod_conf m) = map_option (trim_dev 32) (Some (name @ CHR 0x0A # rest))"
    using pias_module_init_result [OF assms(5,6)] by blast
  from dev have "param_dev (mod_conf m) = Some name"
    by (simp add: trim_dev_newline [OF assms(1,2)])
  with m assms(3,4) show ?thesis
    by (simp add: dev_mismatch_def c_strncmp_eq_0_iff IFNAMSIZ_def)
qed

theorem device_filter_ignores_newline_witness:
  "\<exists>r m. pias_module_init all_answers_good (static_module (Some (''eth1'' @ CHR 0x0A # [])) 5001) = Some (r, m)
    \<and> \<not> dev_mismatch (mod_conf m) ''eth1''"
  using device_filter_ignores_newline [of "''eth1''" "''eth1''" all_answers_good "flow_lists empty_table" "[]" 5001]
  by (simp add: no_NUL_def all_answers_good_def empty_table_def)

text \<open>
  A write to the operations file does not fault on a well-formed table and returns 0.  Any text
  that begins with \<open>clear\<close> empties a table of fewer than \<open>2 ^ 32\<close> flows; any other text leaves
  the table as it is, and one that begins with \<open>print\<close> prints it.
\<close>

theorem operations_file:
  assumes "wf_table ft" and "num_flows (flow_lists ft) < 2 ^ 32" and "no_NUL val"
  shows "\<exists>ft' out. pias_set_operation val ft = Some (0, ft', out) \<and> wf_table ft'
    \<and> (if take 5 val = ''clear'' then flow_map ft' = Map.empty \<and> out = []
       else ft' = ft \<and> (if take 5 val = ''print'' then PIAS_Print_Table (Some ft) = Some out else out = []))"
proof -
  have ops: "no_NUL ''clear''" "no_NUL ''print''"
    by (simp_all add: no_NUL_def)
  have cmp: "c_strncmp 5 val ''clear'' = 0 \<longleftrightarrow> take 5 val = ''clear''"
    "c_strncmp 5 val ''print'' = 0 \<longleftrightarrow> take 5 val = ''print''"
    using c_strncmp_eq_0_iff [OF assms(3) ops(1), of 5] c_strncmp_eq_0_iff [OF assms(3) ops(2), of 5]
    by simp_all
  show ?thesis
    using PIAS_Clear_Table_spec [OF assms(1)] PIAS_Print_Table_total [of ft] assms(1,2)
    by (auto simp: pias_set_operation_def cmp wf_table_def
        simp del: PIAS_Clear_Table.simps PIAS_Print_Table.simps)
qed

theorem operations_file_witness:
  "\<exists>ft' out. pias_set_operation ''clear'' sample_table = Some (0, ft', out) \<and> flow_map ft' = Map.empty"
  using operations_file [OF sample_table_spec(1), of "''clear''"] num_flows_sample_table
  by (auto simp: no_NUL_def)

end
