(* ===== verification/PIAS_Callers_Hooks.thy ===== *)
theory PIAS_Callers_Hooks
  imports PIAS_Callers_Spec PIAS_Main
begin

text \<open>
  The handlers of the module as callers of the flow table: the call each of them makes for a packet
  or a copy of data, so that \<open>PIAS_Callers\<close> and \<open>PIAS_Callers_Spec\<close> are about the module.
\<close>

section \<open>The call of a handler\<close>

definition zero_flow :: PIAS_Flow where
  "zero_flow = \<lparr>local_ip = 0, remote_ip = 0, local_port = 0, remote_port = 0, info = zero_info\<rparr>"

definition out_call :: "kernel_api \<Rightarrow> params \<Rightarrow> hook_env \<Rightarrow> iphdr \<Rightarrow> tcphdr \<Rightarrow> table_call" where
  "out_call api ps env iph th =
     (let f = out_flow zero_flow iph th in
      if tcp_syn th then Insert_call
        (f\<lparr>info := (info f)\<lparr>last_seq := ntohl (tcp_seq th), last_update_time := env_now env\<rparr>\<rparr>)
      else if tcp_fin th \<or> tcp_rst th then Delete_call f
      else Update_call f (update_out_info api ps (env_now env) (out_seq iph th) (tcp_payload_len iph th)) True)"

definition in_call :: "iphdr \<Rightarrow> tcphdr \<Rightarrow> table_call" where
  "in_call iph th = Update_call (in_flow zero_flow iph th) (update_in_info (ntohl (tcp_ack_seq th))) False"

definition send_call :: "kernel_api \<Rightarrow> params \<Rightarrow> hook_env \<Rightarrow> sock \<Rightarrow> table_call" where
  "send_call api ps env sk =
     Update_call (sock_flow (env_stack env) sk) (update_send_info api ps (env_now env) sk) False"

definition handler_call :: "kernel_api \<Rightarrow> module_conf \<Rightarrow> event \<Rightarrow> table_call option" where
  "handler_call api conf e = (case e of
     Outgoing env dev skb \<Rightarrow> map_option (\<lambda>(iph, th). out_call api (tunables conf) env iph th) (in_scope conf dev skb)
   | Incoming env dev skb \<Rightarrow> Option.bind (in_scope conf dev skb) (\<lambda>(iph, th). if tcp_ack th then Some (in_call iph th) else None)
   | Sendmsg env sk \<Rightarrow> if sock_in_scope conf sk then Some (send_call api (tunables conf) env sk) else None
   | _ \<Rightarrow> None)"

definition handler_memory :: "event \<Rightarrow> bool" where
  "handler_memory e = (case e of Outgoing env dev skb \<Rightarrow> env_kmalloc env | _ \<Rightarrow> True)"

definition is_handler :: "event \<Rightarrow> bool" where
  "is_handler e = (case e of Outgoing env dev skb \<Rightarrow> True | Incoming env dev skb \<Rightarrow> True | Sendmsg env sk \<Rightarrow> True | _ \<Rightarrow> False)"

section \<open>A handler is its call\<close>

lemma init_zero_flow: "PIAS_Init_Flow (Some f) = (True, Some zero_flow)"
  unfolding zero_flow_def by (rule PIAS_Init_Flow_zero)

lemma hook_out_call:
  assumes ps: "wf_params (tunables conf)" and scope: "in_scope conf dev skb = Some (iph, th)"
  shows "map_option (\<lambda>(_, _, ft'). ft') (pias_hook_func_out api conf env dev skb ft) =
    map_option snd (run_op (op_of_call (env_kmalloc env) (out_call api (tunables conf) env iph th)) ft)"
proof -
  from scope obtain name where name: "dev = Some name" "\<not> dev_mismatch conf name"
    "skb_ip skb = Some iph" "ip_protocol iph = IPPROTO_TCP"
    "skb_tcp_at skb (unat (ip_ihl iph)) = th" "\<not> port_mismatch conf th"
    by (auto elim: in_scopeD)
  note pre = pias_hook_func_out_def out_call_def op_of_call_def name Let_def init_zero_flow mark_step pias_priority_total [OF ps]
  note opaque = PIAS_Insert_Table.simps PIAS_Delete_Table.simps PIAS_Search_Table.simps PIAS_Init_Flow.simps
  show ?thesis
  proof (cases "tcp_syn th \<or> tcp_fin th \<or> tcp_rst th")
    case True
    then show ?thesis
      by (cases "tcp_syn th") (simp_all add: pre del: opaque split: bind_split prod.split)
  next
    case False
    then show ?thesis
      by (simp add: pre del: opaque split: bind_split option.split)
  qed
qed

lemma hook_in_call:
  assumes scope: "in_scope conf dev skb = Some (iph, th)"
  shows "map_option (\<lambda>(_, _, ft'). ft') (pias_hook_func_in conf env dev skb ft) =
    (if tcp_ack th then map_option snd (run_op (op_of_call k (in_call iph th)) ft) else Some ft)"
proof -
  from scope obtain name where name: "dev = Some name" "\<not> dev_mismatch conf name"
    "skb_ip skb = Some iph" "ip_protocol iph = IPPROTO_TCP"
    "skb_tcp_at skb (unat (ip_ihl iph)) = th" "\<not> port_mismatch conf th"
    by (auto elim: in_scopeD)
  show ?thesis
    by (simp add: pias_hook_func_in_def in_call_def op_of_call_def name Let_def init_zero_flow
        del: PIAS_Search_Table.simps PIAS_Init_Flow.simps split: bind_split option.split)
qed

lemma jtcp_sendmsg_call:
  "map_option snd (jtcp_sendmsg api conf env sk ft) =
    (if sock_in_scope conf sk then map_option snd (run_op (op_of_call k (send_call api (tunables conf) env sk)) ft)
     else Some ft)"
  by (simp add: jtcp_sendmsg_def sock_in_scope_def send_call_def op_of_call_def Let_def
      del: PIAS_Search_Table.simps split: bind_split option.split)

text \<open>
  In a well-formed module the two hooks and the probe change the flow table as the one operation of
  the call they make, and leave it alone when they make none.
\<close>

theorem handlers_are_calls:
  assumes "wf_module m" "is_handler e"
  shows "module_step api e m = (case handler_call api (mod_conf m) e of
      None \<Rightarrow> Some m
    | Some call \<Rightarrow> map_option (\<lambda>(_, ft). m\<lparr>mod_table := ft\<rparr>)
        (run_op (op_of_call (handler_memory e) call) (mod_table m)))"
proof -
  have only: "map_option (\<lambda>(v, skb, ft). m\<lparr>mod_table := ft\<rparr>) x =
      map_option (\<lambda>ft. m\<lparr>mod_table := ft\<rparr>) (map_option (\<lambda>(v, skb, ft). ft) x)"
    "map_option (\<lambda>(v, ft). m\<lparr>mod_table := ft\<rparr>) y = map_option (\<lambda>ft. m\<lparr>mod_table := ft\<rparr>) (map_option snd y)"
    for x :: "(nf_verdict \<times> sk_buff \<times> PIAS_Flow_Table) option" and y :: "('a \<times> PIAS_Flow_Table) option"
    by (cases x; cases y; auto)+
  have ps: "wf_params (tunables (mod_conf m))" using assms(1) by (simp add: wf_module_def)
  show ?thesis
  proof (cases e)
    case (Outgoing env dev skb)
    then show ?thesis
      using hook_out_not_in_scope [of "mod_conf m" dev skb] hook_out_call [OF ps, of dev skb]
      by (cases "in_scope (mod_conf m) dev skb")
        (auto simp: handler_call_def handler_memory_def only simp del: run_op.simps)
  next
    case (Incoming env dev skb)
    then show ?thesis
      using hook_in_not_in_scope [of "mod_conf m" dev skb] hook_in_call [of "mod_conf m" dev skb _ _ _ _ True]
      by (cases "in_scope (mod_conf m) dev skb")
        (auto simp: handler_call_def handler_memory_def only simp del: run_op.simps)
  next
    case (Sendmsg env sk)
    then show ?thesis
      using jtcp_sendmsg_call [of api "mod_conf m" env sk "mod_table m" True]
      by (auto simp: handler_call_def handler_memory_def only(2) simp del: run_op.simps)
  qed (use assms(2) in \<open>simp_all add: is_handler_def\<close>)
qed

end
