(* ===== verification/FG_Double.thy ===== *)
theory FG_Double
  imports Complex_Main Prelude
begin

text \<open>
  The type \<open>double\<close> of the C sources (\<open>client/cdf.c\<close>, and one comparison in \<open>client/client.c\<close>).

  A \<open>double\<close> is a rational number \<open>x\<close> with \<open>is_double x\<close>, and an arithmetic operation is the exact one
  followed by \<open>round64\<close>, the rounding of IEEE 754 binary64: to the nearest multiple of a power of
  two with 53 significant bits, ties to even, and with gradual underflow below \<open>2 ^ (-1022)\<close>.
  Infinities and NaN are left out: the operations here are on numbers far below \<open>2 ^ 1024\<close>.
\<close>

section \<open>Rounding to an integer\<close>

definition round_even :: "rat \<Rightarrow> int" where
  "round_even z =
     (let f = \<lfloor>z\<rfloor>; d = z - of_int f in if d < 1 / 2 \<or> d = 1 / 2 \<and> even f then f else f + 1)"

lemma round_even_of_int [simp]: "round_even (of_int n) = n"
  by (simp add: round_even_def)

lemma round_even_bounds: "\<bar>of_int (round_even z) - z\<bar> \<le> 1 / 2"
proof -
  have "of_int \<lfloor>z\<rfloor> \<le> z" "z < of_int \<lfloor>z\<rfloor> + 1" by linarith+
  then show ?thesis by (auto simp: round_even_def Let_def abs_le_iff field_simps)
qed

lemma round_even_close:
  assumes "\<bar>z - of_int n\<bar> < 1 / 2"
  shows "round_even z = n"
proof -
  have "\<bar>rat_of_int (round_even z) - of_int n\<bar> < 1"
    using round_even_bounds [of z] assms by linarith
  then have "\<bar>rat_of_int (round_even z - n)\<bar> < 1" by simp
  then show ?thesis by (simp only: of_int_abs [symmetric] of_int_less_1_iff)
qed

lemma round_even_tie:
  assumes "\<bar>z - of_int n\<bar> = 1 / 2" "even n"
  shows "round_even z = n"
proof -
  consider "z = of_int n + 1 / 2" | "z = of_int (n - 1) + 1 / 2"
    using assms(1) by (cases "of_int n \<le> z") (simp_all add: field_simps)
  then show ?thesis
  proof cases
    case 1
    then have "\<lfloor>z\<rfloor> = n" by (simp add: floor_eq_iff)
    with 1 assms(2) show ?thesis by (simp add: round_even_def)
  next
    case 2
    then have "\<lfloor>z\<rfloor> = n - 1" by (simp add: floor_eq_iff)
    with 2 assms(2) show ?thesis by (simp add: round_even_def)
  qed
qed

lemma round_even_mono:
  assumes "x \<le> y"
  shows "round_even x \<le> round_even y"
proof (cases "\<lfloor>x\<rfloor> = \<lfloor>y\<rfloor>")
  case True
  with assms show ?thesis by (auto simp: round_even_def Let_def)
next
  case False
  with assms have "\<lfloor>x\<rfloor> + 1 \<le> \<lfloor>y\<rfloor>" by (simp add: floor_mono order.strict_iff_order add1_zle_eq)
  moreover have "round_even x \<le> \<lfloor>x\<rfloor> + 1" "\<lfloor>y\<rfloor> \<le> round_even y"
    by (simp_all add: round_even_def Let_def)
  ultimately show ?thesis by linarith
qed

section \<open>The exponent of a number\<close>

fun log2_nat :: "nat \<Rightarrow> nat" where
  "log2_nat n = (if n < 2 then 0 else Suc (log2_nat (n div 2)))"

declare log2_nat.simps [simp del]

lemma log2_nat_bounds: "0 < n \<Longrightarrow> 2 ^ log2_nat n \<le> n \<and> n < 2 ^ Suc (log2_nat n)"
proof (induction n rule: log2_nat.induct)
  case (1 n)
  show ?case
  proof (cases "n < 2")
    case True
    with 1 show ?thesis by (simp add: log2_nat.simps [of n])
  next
    case False
    with 1 have "2 ^ log2_nat (n div 2) \<le> n div 2 \<and> n div 2 < 2 ^ Suc (log2_nat (n div 2))" by simp
    with False show ?thesis by (simp add: log2_nat.simps [of n]) linarith
  qed
qed

lemma pow2_mono: "i \<le> j \<Longrightarrow> (2 :: rat) powi i \<le> 2 powi j"
  by (simp add: power_int_increasing)

lemma pow2_lessD: "(2 :: rat) powi i < 2 powi j \<Longrightarrow> i < j"
  using pow2_mono [of j i] by linarith

lemma pow2_pos [simp]: "0 < (2 :: rat) powi i"
  by simp

text \<open>For a positive number, the greatest power of two below it.\<close>

definition log2_rat :: "rat \<Rightarrow> int" where
  "log2_rat x =
     (let (p, q) = quotient_of x; k = int (log2_nat (nat p)) - int (log2_nat (nat q))
      in if 2 powi k \<le> x then k else k - 1)"

lemma log2_rat_bounds:
  assumes "0 < x"
  shows "2 powi log2_rat x \<le> x" "x < 2 powi (log2_rat x + 1)"
proof -
  obtain p q where pq: "quotient_of x = (p, q)" by (cases "quotient_of x")
  have q: "0 < q" "x = of_int p / of_int q"
    using quotient_of_denom_pos [OF pq] quotient_of_div [OF pq] by simp_all
  with assms have p: "0 < p" by (simp add: zero_less_divide_iff)
  define a b where "a = log2_nat (nat p)" and "b = log2_nat (nat q)"
  have nats: "2 ^ a \<le> nat p" "nat p < 2 ^ Suc a" "2 ^ b \<le> nat q" "nat q < 2 ^ Suc b"
    using log2_nat_bounds [of "nat p"] log2_nat_bounds [of "nat q"] p q(1) by (simp_all add: a_def b_def)
  have ints: "2 ^ a \<le> p" "p < 2 ^ Suc a" "2 ^ b \<le> q" "q < 2 ^ Suc b"
    using nats p q(1) by (simp_all add: le_nat_iff nat_less_iff)
  have rats: "(2 :: rat) ^ a \<le> of_int p" "of_int p < (2 :: rat) ^ Suc a"
      "(2 :: rat) ^ b \<le> of_int q" "of_int q < (2 :: rat) ^ Suc b"
    using of_int_le_iff [of "2 ^ a" p, where 'a = rat] of_int_less_iff [of p "2 ^ Suc a", where 'a = rat]
      of_int_le_iff [of "2 ^ b" q, where 'a = rat] of_int_less_iff [of q "2 ^ Suc b", where 'a = rat] ints
    by simp_all
  have pow: "(2 :: rat) powi (int a - int b) = 2 ^ a / 2 ^ b"
    by (simp add: power_int_diff)
  have up: "x < 2 ^ Suc a / 2 ^ b"
    unfolding q(2) using rats p by (intro frac_less) simp_all
  have low: "2 ^ a / 2 ^ Suc b < x"
    unfolding q(2) using rats p q(1) by (intro frac_less2) simp_all
  have rat: "log2_rat x = (if 2 powi (int a - int b) \<le> x then int a - int b else int a - int b - 1)"
    by (simp add: log2_rat_def pq a_def b_def Let_def)
  have "(2 :: rat) powi (int a - int b + 1) = 2 ^ Suc a / 2 ^ b"
    by (simp add: power_int_add pow)
  moreover have "(2 :: rat) powi (int a - int b - 1) = 2 ^ a / 2 ^ Suc b"
    by (simp add: power_int_diff)
  ultimately show "2 powi log2_rat x \<le> x" "x < 2 powi (log2_rat x + 1)"
    using up low by (simp_all add: rat pow)
qed

lemma log2_rat_eqI:
  assumes "2 powi k \<le> x" "x < 2 powi (k + 1)"
  shows "log2_rat x = k"
proof -
  have "0 < x" using assms(1) by (rule less_le_trans [rotated]) simp
  note log2_rat_bounds [OF this]
  then have "(2 :: rat) powi k < 2 powi (log2_rat x + 1)" "(2 :: rat) powi log2_rat x < 2 powi (k + 1)"
    using assms by (blast intro: le_less_trans)+
  then have "k < log2_rat x + 1" "log2_rat x < k + 1" by (blast dest: pow2_lessD)+
  then show ?thesis by simp
qed

lemma log2_rat_mono:
  assumes "0 < x" "x \<le> y"
  shows "log2_rat x \<le> log2_rat y"
proof -
  have "(2 :: rat) powi log2_rat x < 2 powi (log2_rat y + 1)"
    using log2_rat_bounds(1) [OF assms(1)] log2_rat_bounds(2) [of y] assms by linarith
  then have "log2_rat x < log2_rat y + 1" by (rule pow2_lessD)
  then show ?thesis by simp
qed

section \<open>Rounding to a double\<close>

text \<open>The exponent of the unit in the last place of the doubles around a positive number.\<close>

definition ulp_exp :: "rat \<Rightarrow> int" where
  "ulp_exp x = max (log2_rat x - 52) (- 1074)"

definition round64 :: "rat \<Rightarrow> rat" where
  "round64 x =
     (if x = 0 then 0
      else let u = 2 powi ulp_exp \<bar>x\<bar>
        in if 0 < x then of_int (round_even (x / u)) * u else - (of_int (round_even (- x / u)) * u))"

definition is_double :: "rat \<Rightarrow> bool" where
  "is_double x \<longleftrightarrow> round64 x = x"

lemma round64_0 [simp]: "round64 0 = 0"
  by (simp add: round64_def)

lemma round64_pos: "0 < x \<Longrightarrow> round64 x = of_int (round_even (x / 2 powi ulp_exp x)) * 2 powi ulp_exp x"
  by (simp add: round64_def Let_def)

lemma round64_minus: "round64 (- x) = - round64 x"
  by (simp add: round64_def Let_def)

lemma ulp_exp_mono: "0 < x \<Longrightarrow> x \<le> y \<Longrightarrow> ulp_exp x \<le> ulp_exp y"
  using log2_rat_mono [of x y] by (simp add: ulp_exp_def)

text \<open>Rounding respects the multiples of a power of two that is not below the unit.\<close>

lemma grid_scaled:
  assumes "k \<le> e"
  shows "rat_of_int m * 2 powi e = of_int (m * 2 ^ nat (e - k)) * 2 powi k"
proof -
  have "(2 :: rat) powi e = 2 powi (e - k) * 2 powi k" by (simp flip: power_int_add)
  also have "(2 :: rat) powi (e - k) = 2 ^ nat (e - k)" using assms by (simp add: power_int_def)
  finally show ?thesis by simp
qed

lemma round64_le_grid:
  assumes "0 < x" "x \<le> of_int m * 2 powi e" "ulp_exp x \<le> e"
  shows "round64 x \<le> of_int m * 2 powi e"
proof -
  define n where "n = m * 2 ^ nat (e - ulp_exp x)"
  have grid: "rat_of_int m * 2 powi e = of_int n * 2 powi ulp_exp x"
    using grid_scaled [OF assms(3)] by (simp add: n_def)
  then have "x / 2 powi ulp_exp x \<le> of_int n" using assms(2) by (simp add: pos_divide_le_eq)
  then have "round_even (x / 2 powi ulp_exp x) \<le> n" using round_even_mono round_even_of_int by metis
  then show ?thesis by (simp add: round64_pos assms(1) grid)
qed

lemma round64_ge_grid:
  assumes "0 < x" "of_int m * 2 powi e \<le> x" "ulp_exp x \<le> e"
  shows "of_int m * 2 powi e \<le> round64 x"
proof -
  define n where "n = m * 2 ^ nat (e - ulp_exp x)"
  have grid: "rat_of_int m * 2 powi e = of_int n * 2 powi ulp_exp x"
    using grid_scaled [OF assms(3)] by (simp add: n_def)
  then have "of_int n \<le> x / 2 powi ulp_exp x" using assms(2) by (simp add: pos_le_divide_eq)
  then have "n \<le> round_even (x / 2 powi ulp_exp x)" using round_even_mono round_even_of_int by metis
  then show ?thesis by (simp add: round64_pos assms(1) grid)
qed

lemma round64_nonneg: "0 \<le> x \<Longrightarrow> 0 \<le> round64 x"
  using round64_ge_grid [of x 0 "ulp_exp x"] by (cases "x = 0") simp_all

lemma round64_mono_pos:
  assumes "0 < x" "x \<le> y"
  shows "round64 x \<le> round64 y"
proof (cases "ulp_exp x = ulp_exp y")
  case True
  have "x / 2 powi ulp_exp y \<le> y / 2 powi ulp_exp y"
    using assms by (intro divide_right_mono) simp_all
  then have "round_even (x / 2 powi ulp_exp y) \<le> round_even (y / 2 powi ulp_exp y)"
    by (rule round_even_mono)
  with True assms show ?thesis by (simp add: round64_pos)
next
  case False
  define b where "b = (2 :: rat) powi log2_rat y"
  have exps: "ulp_exp x \<le> log2_rat y" "ulp_exp y \<le> log2_rat y" "log2_rat x + 1 \<le> log2_rat y"
    using False ulp_exp_mono [OF assms] by (auto simp: ulp_exp_def)
  have "x \<le> b"
    using log2_rat_bounds(2) [OF assms(1)] pow2_mono [OF exps(3)] by (simp add: b_def)
  then have "round64 x \<le> b"
    using round64_le_grid [OF assms(1), of 1 "log2_rat y"] exps(1) by (simp add: b_def)
  moreover have "b \<le> y" using log2_rat_bounds(1) [of y] assms by (simp add: b_def)
  then have "b \<le> round64 y"
    using round64_ge_grid [of y 1 "log2_rat y"] exps(2) assms by (simp add: b_def)
  ultimately show ?thesis by simp
qed

lemma round64_mono:
  assumes "x \<le> y"
  shows "round64 x \<le> round64 y"
proof -
  consider "0 < x" | "x \<le> 0" "0 \<le> y" | "y < 0" using assms by linarith
  then show ?thesis
  proof cases
    case 1
    with assms show ?thesis by (rule round64_mono_pos [rotated])
  next
    case 2
    then show ?thesis using round64_nonneg [of "- x"] round64_nonneg [of y] by (simp add: round64_minus)
  next
    case 3
    then show ?thesis using round64_mono_pos [of "- y" "- x"] assms by (simp add: round64_minus)
  qed
qed

text \<open>Numbers with few significant bits are doubles.\<close>

lemma is_double_0 [simp]: "is_double 0"
  by (simp add: is_double_def)

lemma is_double_pos:
  assumes "0 < m" "m < 2 ^ 53" "- 1074 \<le> e"
  shows "is_double (of_int m * 2 powi e)"
proof -
  let ?x = "rat_of_int m * 2 powi e"
  have pos: "0 < ?x" using assms(1) by simp
  have "rat_of_int m < 2 ^ 53" using of_int_less_iff [of m "2 ^ 53", where 'a = rat] assms(2) by simp
  then have "?x < 2 ^ 53 * 2 powi e" by simp
  also have "\<dots> = 2 powi (53 + e)" by (simp add: power_int_add)
  finally have "2 powi log2_rat ?x < (2 :: rat) powi (53 + e)"
    using log2_rat_bounds(1) [OF pos] by linarith
  then have "ulp_exp ?x \<le> e" using assms(3) by (auto simp: ulp_exp_def dest: pow2_lessD)
  then show ?thesis
    using round64_le_grid [OF pos order.refl] round64_ge_grid [OF pos order.refl]
    by (simp add: is_double_def)
qed

lemma is_double_scaled:
  assumes "\<bar>m\<bar> < 2 ^ 53" "- 1074 \<le> e"
  shows "is_double (of_int m * 2 powi e)"
proof -
  consider "m = 0" | "0 < m" | "0 < - m" by linarith
  then show ?thesis
  proof cases
    case 3
    with is_double_pos [of "- m" e] assms show ?thesis
      by (simp add: is_double_def round64_minus)
  qed (use assms is_double_pos [of m e] in simp_all)
qed

lemma is_double_of_int: "\<bar>n\<bar> < 2 ^ 53 \<Longrightarrow> is_double (of_int n)"
  using is_double_scaled [of n 0] by simp

lemma is_double_half: "\<bar>n\<bar> < 2 ^ 53 \<Longrightarrow> is_double (of_int n / 2)"
  using is_double_scaled [of n "- 1"] by (simp add: power_int_minus field_simps)

lemma round64_of_int: "\<bar>n\<bar> < 2 ^ 53 \<Longrightarrow> round64 (of_int n) = of_int n"
  using is_double_of_int by (simp add: is_double_def)

text \<open>The error is at most half a unit: a relative part, and an absolute one from underflow.\<close>

lemma round64_error:
  assumes "0 \<le> x"
  shows "\<bar>round64 x - x\<bar> \<le> x / 2 ^ 53 + 1 / 2 ^ 1075"
proof (cases "x = 0")
  case False
  with assms have pos: "0 < x" by simp
  let ?u = "(2 :: rat) powi ulp_exp x"
  have "round64 x - x = (of_int (round_even (x / ?u)) - x / ?u) * ?u"
    by (simp add: round64_pos pos left_diff_distrib)
  then have "\<bar>round64 x - x\<bar> = \<bar>of_int (round_even (x / ?u)) - x / ?u\<bar> * ?u"
    by (simp add: abs_mult)
  also have "\<dots> \<le> 1 / 2 * ?u"
    by (intro mult_right_mono round_even_bounds) simp
  also have "\<dots> \<le> 1 / 2 * (2 powi (log2_rat x - 52) + 2 powi (- 1074))"
    by (simp add: ulp_exp_def max_def)
  also have "2 powi (log2_rat x - 52) \<le> x / 2 ^ 52"
    using log2_rat_bounds(1) [OF pos] by (simp add: power_int_diff divide_right_mono)
  finally show ?thesis by (simp add: power_int_minus field_simps)
qed simp

text \<open>Two consequences for numbers of the size the programs use.\<close>

lemma round64_close:
  assumes "0 \<le> x" "x \<le> 2 ^ 32"
  shows "\<bar>round64 x - x\<bar> \<le> 1 / 2 ^ 20"
proof -
  have "\<bar>round64 x - x\<bar> \<le> x / 2 ^ 53 + 1 / 2 ^ 1075" by (rule round64_error [OF assms(1)])
  also have "\<dots> \<le> 2 ^ 32 / 2 ^ 53 + 1 / 2 ^ 1075"
    using assms(2) by (intro add_right_mono divide_right_mono) simp_all
  also have "\<dots> \<le> 1 / 2 ^ 20" by simp
  finally show ?thesis .
qed

lemma round64_upper: "0 \<le> x \<Longrightarrow> x \<le> 2 ^ 32 \<Longrightarrow> round64 x \<le> x + 1 / 2 ^ 20"
  using round64_close [of x] by linarith

text \<open>A quotient of a rounded product: with a divisor that is not tiny, it is close to exact.\<close>

lemma round64_product_quotient:
  assumes "0 \<le> a" "a \<le> d" "0 \<le> w" "w \<le> 2 ^ 31" "1 / 2 ^ 500 \<le> d"
  shows "0 \<le> round64 (round64 (a * w) / d)" "round64 (round64 (a * w) / d) \<le> w + 1 / 2 ^ 19"
proof -
  have d: "0 < d" using assms(5) by (rule less_le_trans [rotated]) simp
  have "round64 (a * w) \<le> round64 (d * w)"
    using assms by (intro round64_mono mult_right_mono) simp_all
  also have "round64 (d * w) \<le> d * w + (d * w / 2 ^ 53 + 1 / 2 ^ 1075)"
    using round64_error [of "d * w"] assms d by (simp add: abs_le_iff algebra_simps)
  finally have "round64 (a * w) / d \<le> (d * w + (d * w / 2 ^ 53 + 1 / 2 ^ 1075)) / d"
    using d by (simp add: divide_right_mono)
  also have "\<dots> = w + (w / 2 ^ 53 + 1 / 2 ^ 1075 / d)" using d by (simp add: field_simps)
  also have "1 / 2 ^ 1075 / d \<le> (1 :: rat) / 2 ^ 575"
  proof -
    have "(1 :: rat) / 2 ^ 1075 = 1 / 2 ^ 575 * (1 / 2 ^ 500)" by simp
    also have "\<dots> \<le> 1 / 2 ^ 575 * d" using assms(5) by (intro mult_left_mono) simp_all
    finally show ?thesis using d by (simp add: pos_divide_le_eq)
  qed
  also have "w / 2 ^ 53 \<le> (1 :: rat) / 2 ^ 22" using assms(4) by simp
  finally have q: "round64 (a * w) / d \<le> w + 1 / 2 ^ 20" by simp
  have "0 \<le> round64 (a * w)" using assms by (intro round64_nonneg) simp
  then have nonneg: "0 \<le> round64 (a * w) / d" using d by simp
  then show "0 \<le> round64 (round64 (a * w) / d)" by (rule round64_nonneg)
  have "round64 (a * w) / d \<le> 2 ^ 32" using q assms(4) by simp
  from round64_upper [OF nonneg this] have "round64 (round64 (a * w) / d) \<le> round64 (a * w) / d + 1 / 2 ^ 20" .
  also have "\<dots> \<le> w + 1 / 2 ^ 20 + 1 / 2 ^ 20" using q by (rule add_right_mono)
  finally show "round64 (round64 (a * w) / d) \<le> w + 1 / 2 ^ 19" by simp
qed

text \<open>A way to compute a rounding: guess the significand \<open>n\<close> and the exponent \<open>- k\<close>.\<close>

lemma round64_eqI:
  assumes "\<bar>x * 2 ^ k - of_int n\<bar> < 1 / 2 \<or> \<bar>x * 2 ^ k - of_int n\<bar> = 1 / 2 \<and> even n" "2 ^ 52 < n" "n < 2 ^ 53" "k \<le> 1074"
  shows "round64 x = of_int n / 2 ^ k"
proof -
  have "2 ^ 52 + 1 \<le> rat_of_int n" "rat_of_int n + 1 \<le> 2 ^ 53"
    using of_int_le_iff [of "2 ^ 52 + 1" n, where 'a = rat] of_int_le_iff [of "n + 1" "2 ^ 53", where 'a = rat]
      assms(2,3) by simp_all
  with assms(1) have x: "2 ^ 52 \<le> x * 2 ^ k" "x * 2 ^ k < 2 ^ 53" by linarith+
  have "(2 :: rat) powi (52 - int k) = 2 ^ 52 / 2 ^ k" "(2 :: rat) powi (52 - int k + 1) = 2 ^ 53 / 2 ^ k"
    by (simp_all add: power_int_diff power_int_add)
  then have "log2_rat x = 52 - int k"
    using x by (intro log2_rat_eqI) (simp_all add: pos_divide_le_eq pos_less_divide_eq)
  then have e: "ulp_exp x = - int k" using assms(4) by (simp add: ulp_exp_def)
  have "0 < x * 2 ^ k" using x(1) by (rule less_le_trans [rotated]) simp
  then have "0 < x" by (simp add: zero_less_mult_iff)
  moreover have "round_even (x * 2 ^ k) = n" using assms(1) by (auto intro: round_even_close round_even_tie)
  ultimately show ?thesis
    by (simp add: round64_pos e power_int_minus divide_inverse)
qed

text \<open>A whole number plus a part in \<open>2 ^ 54\<close> of it is rounded back.\<close>

lemma tie_rounds_down:
  assumes "0 < m" "m < 2 ^ 31"
  shows "round64 (of_int m * (1 + 1 / 2 ^ 54)) \<le> of_int m"
proof -
  define x where "x = rat_of_int m * (1 + 1 / 2 ^ 54)"
  let ?u = "(2 :: rat) powi ulp_exp x"
  have m: "1 \<le> rat_of_int m" "rat_of_int m \<le> 2 ^ 31"
    using assms of_int_le_iff [of m "2 ^ 31", where 'a = rat] by simp_all
  have x: "rat_of_int m \<le> x" "0 < x" "x \<le> 2 ^ 32"
    using m by (simp_all add: x_def distrib_left)
  have log: "0 \<le> log2_rat x" "log2_rat x \<le> 32"
  proof -
    have "log2_rat (1 :: rat) = 0" "log2_rat (2 ^ 32 :: rat) = 32"
      by (rule log2_rat_eqI; simp)+
    then show "0 \<le> log2_rat x" "log2_rat x \<le> 32"
      using log2_rat_mono [of 1 x] log2_rat_mono [of x "2 ^ 32"] x m(1) by simp_all
  qed
  then have e: "ulp_exp x = log2_rat x - 52" by (simp add: ulp_exp_def)
  define k where "k = m * 2 ^ nat (0 - ulp_exp x)"
  have k: "rat_of_int m = of_int k * ?u"
    using grid_scaled [of "ulp_exp x" 0 m] log(2) e unfolding k_def by simp
  have "rat_of_int m < 2 powi (log2_rat x + 1)" using x log2_rat_bounds(2) [OF x(2)] by linarith
  also have "\<dots> = 2 ^ 53 * ?u" by (simp add: e power_int_diff power_int_add)
  finally have "rat_of_int m / 2 ^ 54 < ?u / 2" by simp
  moreover have "x - of_int k * ?u = rat_of_int m / 2 ^ 54"
    unfolding k [symmetric] by (simp add: x_def algebra_simps)
  ultimately have "\<bar>x - of_int k * ?u\<bar> < ?u / 2" using m(1) by simp
  then have "\<bar>x / ?u - of_int k\<bar> < 1 / 2"
    by (simp add: abs_less_iff field_simps)
  then have "round_even (x / ?u) = k" by (rule round_even_close)
  then have "round64 x = of_int m" by (simp only: round64_pos [OF x(2)] k [symmetric])
  then show ?thesis by (simp add: x_def)
qed

end
