(* ===== verification/FG_Common.thy ===== *)
theory FG_Common
  imports Step_Systems
begin

text \<open>
  The traffic generator's shared helpers, from \<open>flow_generator/src/common/common.c\<close> and
  \<open>common.h\<close>: how a function of the generator can end, C string buffers, printing of section
  titles, and the big-endian serialisation of unsigned integers.

  A buffer is the list of its bytes and a pointer into it is an offset.  The locale
  \<open>codec\<close> is the contract of one pair of \<open>serialize\<close> and \<open>deserialize\<close>; the four pairs of
  the source are its interpretations.
\<close>

section \<open>How a call ends\<close>

text \<open>
  \<open>Returned\<close>: the call returns a value.  \<open>Exited\<close>: it calls \<open>exit\<close> with this code.
  \<open>Aborted\<close>: an \<open>assert\<close> fails.  \<open>Blocked\<close>: it is still running when the given answers of the
  operating system are used up.  \<open>Faulted\<close>: it has accessed memory out of bounds or overflowed
  an \<open>int\<close>.
\<close>

datatype 'a run = Returned 'a | Exited int | Aborted | Blocked | Faulted

fun run_bind :: "'a run \<Rightarrow> ('a \<Rightarrow> 'b run) \<Rightarrow> 'b run" where
  "run_bind (Returned x) f = f x"
| "run_bind (Exited n) f = Exited n"
| "run_bind Aborted f = Aborted"
| "run_bind Blocked f = Blocked"
| "run_bind Faulted f = Faulted"

fun of_access :: "'a option \<Rightarrow> 'a run" where
  "of_access (Some x) = Returned x"
| "of_access None = Faulted"

lemma run_bind_eq_Returned_iff:
  "run_bind m f = Returned y \<longleftrightarrow> (\<exists>x. m = Returned x \<and> f x = Returned y)"
  by (cases m) auto

lemma of_access_eq_Returned_iff [simp]: "of_access x = Returned y \<longleftrightarrow> x = Some y"
  by (cases x) auto

text \<open>The state after a step that returns.\<close>

fun returned :: "'a run \<Rightarrow> 'a option" where
  "returned (Returned x) = Some x"
| "returned _ = None"

lemma returned_Some [simp]: "returned m = Some x \<longleftrightarrow> m = Returned x"
  by (cases m) auto

text \<open>A call that does not end the program.\<close>

definition no_exit :: "'a run \<Rightarrow> bool" where
  "no_exit m \<longleftrightarrow> (\<forall>k. m \<noteq> Exited k)"

lemma no_exit_simps [simp]:
  "no_exit (Returned x)" "no_exit Aborted" "no_exit Blocked" "no_exit Faulted" "\<not> no_exit (Exited k)"
  "no_exit (of_access y)"
  by (simp_all add: no_exit_def) (cases y, simp_all)

lemma no_exit_bind: "no_exit m \<Longrightarrow> (\<And>x. m = Returned x \<Longrightarrow> no_exit (f x)) \<Longrightarrow> no_exit (run_bind m f)"
  by (cases m) simp_all

definition EXIT_SUCCESS :: int where
  "EXIT_SUCCESS = 0"

definition EXIT_FAILURE :: int where
  "EXIT_FAILURE = 1"

definition SUCCESS :: int where
  "SUCCESS = 0"

definition FAILURE :: int where
  "FAILURE = -1"

definition INT_MAX :: int where
  "INT_MAX = 2147483647"

text \<open>The \<open>int\<close> that has the bits of an unsigned number, and a number truncated to \<open>int\<close>.\<close>

definition to_int :: "int \<Rightarrow> int" where
  "to_int n = signed_take_bit 31 n"

lemma to_int_id: "- (2 ^ 31) \<le> n \<Longrightarrow> n < 2 ^ 31 \<Longrightarrow> to_int n = n"
  by (simp add: to_int_def signed_take_bit_int_eq_self)

section \<open>String buffers\<close>

definition FILENAME_SIZE :: nat where
  "FILENAME_SIZE = 128"

text \<open>
  \<open>strcpy\<close> and \<open>strcat\<close> into a buffer of the given size: the string with its NUL has to fit.
\<close>

definition c_strcpy :: "nat \<Rightarrow> string \<Rightarrow> string option" where
  "c_strcpy cap src = (if length src < cap then Some src else None)"

definition c_strcat :: "nat \<Rightarrow> string \<Rightarrow> string \<Rightarrow> string option" where
  "c_strcat cap dest src = c_strcpy cap (dest @ src)"

definition string_joint :: "nat \<Rightarrow> string \<Rightarrow> string \<Rightarrow> string option" where
  "string_joint cap str1 str2 =
     do {
       dest \<leftarrow> c_strcpy cap str1;
       c_strcat cap dest str2
     }"

lemma string_joint_eq:
  "string_joint cap s t = (if length s + length t < cap then Some (s @ t) else None)"
  by (simp add: string_joint_def c_strcat_def c_strcpy_def)

text \<open>\<open>%d\<close> on an \<open>int\<close>.\<close>

definition show_int :: "int \<Rightarrow> string" where
  "show_int n = (if n < 0 then ''-'' @ show_nat (nat (- n)) else show_nat (nat n))"

definition newline :: string where
  "newline = [CHR 0x0A]"

definition print_split_line :: string where
  "print_split_line = ''==========================='' @ newline"

definition print_split :: "string \<Rightarrow> string" where
  "print_split str =
     print_split_line @ (if str = '''' then [] else str @ newline @ print_split_line)"

lemma length_show_nat:
  "0 < k \<Longrightarrow> length (show_nat n) \<le> k \<longleftrightarrow> n < 10 ^ k"
proof (induction k arbitrary: n)
  case (Suc k)
  show ?case
  proof (cases "n < 10")
    case True
    have "(1::nat) \<le> 10 ^ k" by simp
    with True have "n < 10 ^ Suc k" by (simp only: power_Suc)
    with True show ?thesis by (subst show_nat.simps) simp
  next
    case False
    have eq: "length (show_nat n) = Suc (length (show_nat (n div 10)))"
      using False by (subst show_nat.simps) simp
    show ?thesis
    proof (cases "k = 0")
      case True
      have "show_nat (n div 10) \<noteq> []" by (subst show_nat.simps) simp
      with True False eq show ?thesis by simp
    next
      case False
      then have "length (show_nat (n div 10)) \<le> k \<longleftrightarrow> n div 10 < 10 ^ k"
        by (intro Suc.IH) simp
      with eq show ?thesis by (simp add: less_mult_imp_div_less div_less_iff_less_mult mult.commute)
    qed
  qed
qed simp

section \<open>The array of flow sizes\<close>

text \<open>\<open>flows_size\<close>, an array of \<open>MAX_FLOWS\<close> numbers indexed by socket.\<close>

definition MAX_FLOWS :: int where
  "MAX_FLOWS = 65536"

definition write_flows_size :: "(int \<Rightarrow> u32) \<Rightarrow> int \<Rightarrow> u32 \<Rightarrow> (int \<Rightarrow> u32) option" where
  "write_flows_size sizes fd v = (if 0 \<le> fd \<and> fd < MAX_FLOWS then Some (sizes(fd := v)) else None)"

definition read_flows_size :: "(int \<Rightarrow> u32) \<Rightarrow> int \<Rightarrow> u32 option" where
  "read_flows_size sizes fd = (if 0 \<le> fd \<and> fd < MAX_FLOWS then Some (sizes fd) else None)"

section \<open>Serialisation\<close>

text \<open>
  \<open>serialize_u64(buffer, value)\<close> writes the bytes of \<open>value\<close>, most significant first, at
  \<open>buffer\<close> and returns the pointer behind them.  Here \<open>mem\<close> is the array the pointer points into
  and \<open>buffer\<close> its offset there.
\<close>

definition serialize_u64 :: "u8 list \<Rightarrow> nat \<Rightarrow> u64 \<Rightarrow> (u8 list \<times> nat) option" where
  "serialize_u64 mem buffer value =
     do {
       mem' \<leftarrow> fold_option
         (\<lambda>bit m. c_write m (buffer + bit) (ucast (drop_bit ((7 - bit) * 8) value)))
         [0..<8] mem;
       Some (mem', buffer + 8)
     }"

definition serialize_u32 :: "u8 list \<Rightarrow> nat \<Rightarrow> u32 \<Rightarrow> (u8 list \<times> nat) option" where
  "serialize_u32 mem buffer value =
     do {
       mem' \<leftarrow> fold_option
         (\<lambda>bit m. c_write m (buffer + bit) (ucast (drop_bit ((3 - bit) * 8) value)))
         [0..<4] mem;
       Some (mem', buffer + 4)
     }"

definition serialize_u16 :: "u8 list \<Rightarrow> nat \<Rightarrow> u16 \<Rightarrow> (u8 list \<times> nat) option" where
  "serialize_u16 mem buffer value =
     do {
       mem' \<leftarrow> fold_option
         (\<lambda>bit m. c_write m (buffer + bit) (ucast (drop_bit ((1 - bit) * 8) value)))
         [0..<2] mem;
       Some (mem', buffer + 2)
     }"

definition serialize_u8 :: "u8 list \<Rightarrow> nat \<Rightarrow> u8 \<Rightarrow> (u8 list \<times> nat) option" where
  "serialize_u8 mem buffer value =
     do {
       mem' \<leftarrow> c_write mem buffer value;
       Some (mem', buffer + 1)
     }"

definition deserialize_u8 :: "u8 list \<Rightarrow> nat \<Rightarrow> u8 option" where
  "deserialize_u8 mem buffer = c_read mem buffer"

definition deserialize_u16 :: "u8 list \<Rightarrow> nat \<Rightarrow> u16 option" where
  "deserialize_u16 mem buffer =
     fold_option
       (\<lambda>i value. do { b \<leftarrow> c_read mem (buffer + i); Some (push_bit 8 value + ucast b) })
       [0..<2] 0"

definition deserialize_u32 :: "u8 list \<Rightarrow> nat \<Rightarrow> u32 option" where
  "deserialize_u32 mem buffer =
     fold_option
       (\<lambda>i value. do { b \<leftarrow> c_read mem (buffer + i); Some (push_bit 8 value + ucast b) })
       [0..<4] 0"

definition deserialize_u64 :: "u8 list \<Rightarrow> nat \<Rightarrow> u64 option" where
  "deserialize_u64 mem buffer =
     fold_option
       (\<lambda>i value. do { b \<leftarrow> c_read mem (buffer + i); Some (push_bit 8 value + ucast b) })
       [0..<8] 0"

subsection \<open>The contract of a codec\<close>

text \<open>
  An encoder writes exactly \<open>width\<close> bytes at the pointer, faults if they do not fit, and returns
  the advanced pointer; the decoder reads only these bytes and gives the value back.
\<close>

locale codec =
  fixes width :: nat
    and enc :: "u8 list \<Rightarrow> nat \<Rightarrow> 'v \<Rightarrow> (u8 list \<times> nat) option"
    and dec :: "u8 list \<Rightarrow> nat \<Rightarrow> 'v option"
    and bytes :: "'v \<Rightarrow> u8 list"
  assumes length_bytes: "length (bytes v) = width"
    and enc_writes: "enc mem p v = (if p + width \<le> length mem
        then Some (take p mem @ bytes v @ drop (p + width) mem, p + width) else None)"
    and dec_bytes: "dec (pre @ bytes v @ post) (length pre) = Some v"
begin

lemma dec_enc:
  assumes "enc mem p v = Some (mem', q)"
  shows "dec mem' p = Some v"
proof -
  from assms have bd: "p + width \<le> length mem"
    and mem': "mem' = take p mem @ bytes v @ drop (p + width) mem"
    by (auto simp: enc_writes split: if_splits)
  from bd have "length (take p mem) = p" by simp
  with mem' show ?thesis using dec_bytes [of "take p mem" v "drop (p + width) mem"] by simp
qed

lemma enc_total_iff: "enc mem p v \<noteq> None \<longleftrightarrow> p + width \<le> length mem"
  by (simp add: enc_writes)

lemma enc_frame:
  assumes "enc mem p v = Some (mem', q)"
  shows "length mem' = length mem" "q = p + width"
    and "i < p \<or> q \<le> i \<Longrightarrow> i < length mem \<Longrightarrow> mem' ! i = mem ! i"
proof -
  from assms have bd: "p + width \<le> length mem" and q: "q = p + width"
    and mem': "mem' = take p mem @ bytes v @ drop (p + width) mem"
    by (auto simp: enc_writes split: if_splits)
  show "length mem' = length mem" "q = p + width"
    using bd by (simp_all add: mem' q length_bytes)
  assume "i < p \<or> q \<le> i" "i < length mem"
  then show "mem' ! i = mem ! i"
    using bd by (auto simp: mem' q nth_append length_bytes)
qed

lemma enc_injective:
  assumes "enc mem p v = Some r" "enc mem p w = Some r"
  shows "v = w"
  using dec_enc [of mem p v "fst r" "snd r"] dec_enc [of mem p w "fst r" "snd r"] assms by simp

end

subsection \<open>The four codecs\<close>

definition be_bytes :: "nat \<Rightarrow> 'a::len word \<Rightarrow> u8 list" where
  "be_bytes n v = map (\<lambda>i. ucast (drop_bit ((n - 1 - i) * 8) v)) [0..<n]"

lemma length_be_bytes [simp]: "length (be_bytes n v) = n"
  by (simp add: be_bytes_def)

lemma write_loop:
  "fold_option (\<lambda>bit m. c_write m (p + bit) (f bit)) [0..<n] mem =
     (if n = 0 \<or> p + n \<le> length mem
      then Some (take p mem @ map f [0..<n] @ drop (p + n) mem) else None)"
proof (induction n)
  case (Suc n)
  show ?case
  proof (cases "p + n < length mem")
    case True
    then have "fold_option (\<lambda>bit m. c_write m (p + bit) (f bit)) [0..<n] mem =
        Some (take p mem @ map f [0..<n] @ drop (p + n) mem)"
      using Suc.IH by simp
    moreover have "drop (p + n) mem = mem ! (p + n) # drop (Suc (p + n)) mem"
      using True by (rule Cons_nth_drop_Suc [symmetric])
    ultimately show ?thesis
      using True by (simp add: fold_option_append c_array list_update_append)
  next
    case False
    then have "fold_option (\<lambda>bit m. c_write m (p + bit) (f bit)) [0..<n] mem = None
        \<or> n = 0 \<or> p + n = length mem"
      using Suc.IH by auto
    with False show ?thesis
      using Suc.IH by (auto simp: fold_option_append c_write_out_of_bounds)
  qed
qed simp

lemma shift_in_byte:
  fixes v :: "'a::len word"
  assumes "8 \<le> LENGTH('a)"
  shows "push_bit 8 (drop_bit (8 + m) v) + ucast (ucast (drop_bit m v) :: u8) = drop_bit m v"
proof -
  have "ucast (ucast (drop_bit m v) :: u8) = take_bit 8 (drop_bit m v)"
    using assms by (intro bit_word_eqI) (auto simp: bit_simps)
  moreover have "drop_bit (8 + m) v = drop_bit 8 (drop_bit m v)"
    by simp
  ultimately show ?thesis
    using bits_ident [of 8 "drop_bit m v"] by simp
qed

lemma read_loop:
  fixes v :: "'a::len word"
  assumes len: "LENGTH('a) = 8 * n" and n: "0 < n" and k: "k \<le> n"
  shows "fold_option (\<lambda>i value. do {
             b \<leftarrow> c_read (pre @ be_bytes n v @ post) (length pre + i);
             Some (push_bit 8 value + ucast b) })
           [0..<k] 0 = Some (drop_bit ((n - k) * 8) v)"
  using k
proof (induction k)
  case 0
  have "drop_bit (n * 8) v = 0"
    by (rule bit_word_eqI) (auto simp: bit_simps len dest: bit_imp_le_length)
  then show ?case by simp
next
  case (Suc k)
  have eight: "8 \<le> LENGTH('a)" using len n by simp
  have "n - k = Suc (n - Suc k)" using Suc.prems by simp
  then have shift: "(n - k) * 8 = 8 + (n - Suc k) * 8" by simp
  have "n - 1 - k = n - Suc k" by simp
  then have "c_read (pre @ be_bytes n v @ post) (length pre + k)
      = Some (ucast (drop_bit ((n - Suc k) * 8) v))"
    using Suc.prems by (simp add: c_read_def be_bytes_def nth_append)
  with Suc show ?case
    by (simp add: fold_option_append shift shift_in_byte [OF eight])
qed

interpretation u64_codec: codec 8 serialize_u64 deserialize_u64 "be_bytes 8 :: u64 \<Rightarrow> u8 list"
proof
  show "serialize_u64 mem p v = (if p + 8 \<le> length mem
      then Some (take p mem @ be_bytes 8 v @ drop (p + 8) mem, p + 8) else None)" for mem p v
    unfolding serialize_u64_def write_loop by (simp add: be_bytes_def)
  show "deserialize_u64 (pre @ be_bytes 8 v @ post) (length pre) = Some v" for pre v post
    unfolding deserialize_u64_def by (subst read_loop) simp_all
qed simp

interpretation u32_codec: codec 4 serialize_u32 deserialize_u32 "be_bytes 4 :: u32 \<Rightarrow> u8 list"
proof
  show "serialize_u32 mem p v = (if p + 4 \<le> length mem
      then Some (take p mem @ be_bytes 4 v @ drop (p + 4) mem, p + 4) else None)" for mem p v
    unfolding serialize_u32_def write_loop by (simp add: be_bytes_def)
  show "deserialize_u32 (pre @ be_bytes 4 v @ post) (length pre) = Some v" for pre v post
    unfolding deserialize_u32_def by (subst read_loop) simp_all
qed simp

interpretation u16_codec: codec 2 serialize_u16 deserialize_u16 "be_bytes 2 :: u16 \<Rightarrow> u8 list"
proof
  show "serialize_u16 mem p v = (if p + 2 \<le> length mem
      then Some (take p mem @ be_bytes 2 v @ drop (p + 2) mem, p + 2) else None)" for mem p v
    unfolding serialize_u16_def write_loop by (simp add: be_bytes_def)
  show "deserialize_u16 (pre @ be_bytes 2 v @ post) (length pre) = Some v" for pre v post
    unfolding deserialize_u16_def by (subst read_loop) simp_all
qed simp

interpretation u8_codec: codec 1 serialize_u8 deserialize_u8 "\<lambda>v. [v]"
proof
  show "serialize_u8 mem p v = (if p + 1 \<le> length mem
      then Some (take p mem @ [v] @ drop (p + 1) mem, p + 1) else None)" for mem p v
    by (simp add: serialize_u8_def c_write_def upd_conv_take_nth_drop)
qed (simp_all add: deserialize_u8_def c_read_def)

section \<open>Round trips\<close>

text \<open>
  At any offset that leaves room, each \<open>serialize\<close> function writes the bytes of the value,
  changes nothing else in the buffer and returns the pointer behind them; the \<open>deserialize\<close>
  function of the same width reads the value back.
\<close>

theorem serialization_roundtrip:
  assumes "p + 8 \<le> length mem"
  shows "(\<exists>m. serialize_u64 mem p a = Some (m, p + 8) \<and> deserialize_u64 m p = Some a \<and>
            take p m = take p mem \<and> drop (p + 8) m = drop (p + 8) mem)
       \<and> (\<exists>m. serialize_u32 mem p b = Some (m, p + 4) \<and> deserialize_u32 m p = Some b \<and>
            take p m = take p mem \<and> drop (p + 4) m = drop (p + 4) mem)
       \<and> (\<exists>m. serialize_u16 mem p c = Some (m, p + 2) \<and> deserialize_u16 m p = Some c \<and>
            take p m = take p mem \<and> drop (p + 2) m = drop (p + 2) mem)
       \<and> (\<exists>m. serialize_u8 mem p d = Some (m, p + 1) \<and> deserialize_u8 m p = Some d \<and>
            take p m = take p mem \<and> drop (p + 1) m = drop (p + 1) mem)"
  using assms
  by (auto simp: u64_codec.enc_writes u32_codec.enc_writes u16_codec.enc_writes u8_codec.enc_writes
      intro!: u64_codec.dec_enc [where mem = mem] u32_codec.dec_enc [where mem = mem]
        u16_codec.dec_enc [where mem = mem] u8_codec.dec_enc [where mem = mem])

theorem serialization_roundtrip_witness:
  "\<exists>m. serialize_u32 (replicate 12 0) 3 0x01020304 = Some (m, 7)
     \<and> deserialize_u32 m 3 = Some 0x01020304
     \<and> m = [0, 0, 0, 1, 2, 3, 4, 0, 0, 0, 0, 0]"
proof -
  have "3 + 8 \<le> length (replicate 12 (0::u8))" by simp
  from serialization_roundtrip [OF this, of 0 "0x01020304" 0 0]
  obtain m where m: "serialize_u32 (replicate 12 0) 3 0x01020304 = Some (m, 7)"
    "deserialize_u32 m 3 = Some 0x01020304" by auto
  moreover have "serialize_u32 (replicate 12 0) 3 0x01020304
      = Some ([0, 0, 0, 1, 2, 3, 4, 0, 0, 0, 0, 0], 7)"
    by code_simp
  ultimately show ?thesis by simp
qed

end
