(* ===== verification/FG_CDF.thy ===== *)
theory FG_CDF
  imports FG_Double FG_Common
begin

text \<open>
  The flow size distribution, from \<open>flow_generator/src/client/cdf.c\<close> and \<open>cdf.h\<close>: loading the
  table of a cumulative distribution function, and drawing a size by inverting it.

  Every operation on a \<open>double\<close> is followed by its rounding (\<open>FG_Double\<close>).  The answers of
  \<open>malloc\<close> (a block with arbitrary content, or NULL), of \<open>sscanf\<close> on a line (the numbers it
  reads) and of \<open>rand\<close> are arguments.  Counts of entries are natural numbers; they would overflow
  an \<open>int\<close> only for a file with \<open>2 ^ 30\<close> lines.
\<close>

definition CDF_TABLE_ENTRY :: nat where
  "CDF_TABLE_ENTRY = 32"

definition MAX_CDF :: rat where
  "MAX_CDF = 1"

definition RAND_MAX :: int where
  "RAND_MAX = 2147483647"

record cdf_entry =
  entry_value :: rat
  entry_cdf :: rat

record cdf_table =
  cdf_entries :: "cdf_entry list option"
  num_entry :: nat
  max_entry :: nat
  min_cdf :: rat
  max_cdf :: rat

section \<open>Loading\<close>

definition init_cdf :: "(nat \<Rightarrow> cdf_entry list option) \<Rightarrow> cdf_table option \<Rightarrow> cdf_table option" where
  "init_cdf malloc table =
     (case table of
        None \<Rightarrow> None
      | Some t \<Rightarrow>
          Some (t\<lparr>cdf_entries := malloc CDF_TABLE_ENTRY, num_entry := 0,
                  max_entry := CDF_TABLE_ENTRY, min_cdf := 0, max_cdf := 1\<rparr>))"

definition free_cdf :: "cdf_table option \<Rightarrow> cdf_table option" where
  "free_cdf table = map_option (\<lambda>t. t\<lparr>cdf_entries := None\<rparr>) table"

text \<open>An access to the array \<open>entries\<close>, which may be NULL.\<close>

definition read_entry :: "cdf_table \<Rightarrow> nat \<Rightarrow> cdf_entry option" where
  "read_entry t i = do { es \<leftarrow> cdf_entries t; c_read es i }"

definition copy_entry :: "cdf_table \<Rightarrow> nat \<Rightarrow> cdf_entry list option \<Rightarrow> cdf_entry list option option" where
  "copy_entry t i e =
     do {
       block \<leftarrow> e;
       x \<leftarrow> read_entry t i;
       block' \<leftarrow> c_write block i x;
       Some (Some block')
     }"

definition resize_entries :: "(nat \<Rightarrow> cdf_entry list option) \<Rightarrow> cdf_table \<Rightarrow> cdf_table option" where
  "resize_entries malloc t =
     (if num_entry t \<ge> max_entry t then
        let max' = max_entry t * 2 in
        do {
          e \<leftarrow> fold_option (copy_entry t) [0..<num_entry t] (malloc max');
          Some (t\<lparr>max_entry := max', cdf_entries := e\<rparr>)
        }
      else Some t)"

text \<open>\<open>sscanf(line, "%lf %lf", ...)\<close> sets the fields whose numbers it can read.\<close>

definition scan_entry :: "(string \<Rightarrow> rat option \<times> rat option) \<Rightarrow> string \<Rightarrow> cdf_entry \<Rightarrow> cdf_entry" where
  "scan_entry scan line x =
     (let (v, c) = scan line in
      x\<lparr>entry_value := (case v of Some a \<Rightarrow> a | None \<Rightarrow> entry_value x),
        entry_cdf := (case c of Some a \<Rightarrow> a | None \<Rightarrow> entry_cdf x)\<rparr>)"

definition load_line ::
    "(nat \<Rightarrow> cdf_entry list option) \<Rightarrow> (string \<Rightarrow> rat option \<times> rat option) \<Rightarrow> string \<Rightarrow> cdf_table
     \<Rightarrow> cdf_table run" where
  "load_line malloc scan line t0 =
     run_bind (of_access (resize_entries malloc t0)) (\<lambda>t.
     run_bind (of_access (read_entry t (num_entry t))) (\<lambda>x0.
       let x = scan_entry scan line x0 in
       run_bind (of_access (Option.bind (cdf_entries t) (\<lambda>es. c_write es (num_entry t) x))) (\<lambda>es.
         if entry_cdf x > MAX_CDF then Exited 0
         else Returned (t\<lparr>cdf_entries := Some es,
                min_cdf := (if min_cdf t > entry_cdf x then entry_cdf x else min_cdf t),
                max_cdf := (if max_cdf t < entry_cdf x then entry_cdf x else max_cdf t),
                num_entry := num_entry t + 1\<rparr>))))"

fun load_lines ::
    "(nat \<Rightarrow> cdf_entry list option) \<Rightarrow> (string \<Rightarrow> rat option \<times> rat option) \<Rightarrow> string list
     \<Rightarrow> cdf_table \<Rightarrow> cdf_table run" where
  "load_lines malloc scan [] t = Returned t"
| "load_lines malloc scan (line # rest) t =
     run_bind (load_line malloc scan line t) (load_lines malloc scan rest)"

text \<open>The file is the list of the lines \<open>fgets\<close> returns, or none if it cannot be opened.\<close>

definition load_cdf ::
    "(nat \<Rightarrow> cdf_entry list option) \<Rightarrow> (string \<Rightarrow> rat option \<times> rat option)
     \<Rightarrow> cdf_table option \<Rightarrow> string list option \<Rightarrow> cdf_table option run" where
  "load_cdf malloc scan table file =
     (case table of
        None \<Rightarrow> Returned None
      | Some t \<Rightarrow>
          case file of
            None \<Rightarrow> Exited 0
          | Some lines \<Rightarrow> run_bind (load_lines malloc scan lines t) (\<lambda>t'. Returned (Some t')))"

definition get_cdf ::
    "(nat \<Rightarrow> cdf_entry list option) \<Rightarrow> (string \<Rightarrow> rat option \<times> rat option)
     \<Rightarrow> cdf_table option \<Rightarrow> string list option \<Rightarrow> cdf_table option run" where
  "get_cdf malloc scan table file = load_cdf malloc scan (init_cdf malloc table) file"

text \<open>\<open>print_cdf\<close>; the argument \<open>show_double\<close> is the format \<open>%.2f\<close>.\<close>

definition print_cdf :: "(rat \<Rightarrow> string) \<Rightarrow> cdf_table option \<Rightarrow> string option" where
  "print_cdf show_double table =
     (case table of
        None \<Rightarrow> Some []
      | Some t \<Rightarrow>
          fold_option (\<lambda>i out. do {
              x \<leftarrow> read_entry t i;
              Some (out @ show_double (entry_value x) @ '' '' @ show_double (entry_cdf x) @ newline) })
            [0..<num_entry t] (print_split ''Cumulative Distribution Function''))"

section \<open>Drawing\<close>

definition avg_step :: "cdf_table \<Rightarrow> nat \<Rightarrow> rat \<Rightarrow> rat option" where
  "avg_step t i avg =
     (if i = 0 then do {
        x \<leftarrow> read_entry t i;
        let value = round64 (entry_value x / 2);
        let prob = entry_cdf x;
        Some (round64 (avg + round64 (value * prob))) }
      else do {
        x \<leftarrow> read_entry t i;
        y \<leftarrow> read_entry t (i - 1);
        let value = round64 (round64 (entry_value x + entry_value y) / 2);
        let prob = round64 (entry_cdf x - entry_cdf y);
        Some (round64 (avg + round64 (value * prob))) })"

definition avg_cdf :: "cdf_table option \<Rightarrow> rat option" where
  "avg_cdf table =
     (case table of None \<Rightarrow> Some 0 | Some t \<Rightarrow> fold_option (avg_step t) [0..<num_entry t] 0)"

definition interpolate :: "rat \<Rightarrow> rat \<Rightarrow> rat \<Rightarrow> rat \<Rightarrow> rat \<Rightarrow> rat" where
  "interpolate x x1 y1 x2 y2 =
     (if x1 = x2 then round64 (round64 (y1 + y2) / 2)
      else round64 (y1 + round64 (round64 (round64 (x - x1) * round64 (y2 - y1)) / round64 (x2 - x1))))"

definition rand_range :: "int \<Rightarrow> rat \<Rightarrow> rat \<Rightarrow> rat" where
  "rand_range r lo hi =
     round64 (lo + round64 (round64 (of_int r * round64 (hi - lo)) / of_int RAND_MAX))"

text \<open>The loop of \<open>gen_random_cdf\<close> from entry \<open>i\<close> on, with \<open>k\<close> entries left.\<close>

fun gen_loop :: "cdf_table \<Rightarrow> rat \<Rightarrow> nat \<Rightarrow> nat \<Rightarrow> rat run" where
  "gen_loop t x i 0 =
     (if num_entry t = 0 then Faulted
      else run_bind (of_access (read_entry t (num_entry t - 1))) (\<lambda>e. Returned (entry_value e)))"
| "gen_loop t x i (Suc k) =
     run_bind (of_access (read_entry t i)) (\<lambda>e.
       if x \<le> entry_cdf e then
         if i = 0 then Returned (interpolate x 0 0 (entry_cdf e) (entry_value e))
         else run_bind (of_access (read_entry t (i - 1))) (\<lambda>p.
           Returned (interpolate x (entry_cdf p) (entry_value p) (entry_cdf e) (entry_value e)))
       else gen_loop t x (i + 1) k)"

text \<open>The test for NULL comes after the table has been read.\<close>

definition gen_random_cdf :: "cdf_table option \<Rightarrow> int \<Rightarrow> rat run" where
  "gen_random_cdf table r =
     (case table of
        None \<Rightarrow> Faulted
      | Some t \<Rightarrow> gen_loop t (rand_range r (min_cdf t) (max_cdf t)) 0 (num_entry t))"

end
