(* ===== verification/FG_CDF_Spec.thy ===== *)
theory FG_CDF_Spec
  imports FG_CDF
begin

text \<open>
  What the distribution of \<open>flow_generator/src/client/cdf.c\<close> promises: loading keeps the
  accesses in the allocated block and stores the lines of the file, and a drawn size realises the
  distribution of the table.
\<close>

section \<open>Loading\<close>

text \<open>The abstraction of a table: the entries in use.\<close>

definition wf_cdf :: "cdf_table \<Rightarrow> cdf_entry list \<Rightarrow> bool" where
  "wf_cdf t rows \<longleftrightarrow> (\<exists>es. cdf_entries t = Some es \<and> length es = max_entry t \<and> 0 < max_entry t
     \<and> num_entry t \<le> max_entry t \<and> rows = take (num_entry t) es)"

lemma wf_cdf_length: "wf_cdf t rows \<Longrightarrow> num_entry t = length rows"
  by (auto simp: wf_cdf_def)

lemma read_entry_rows: "wf_cdf t rows \<Longrightarrow> i < length rows \<Longrightarrow> read_entry t i = Some (rows ! i)"
  by (auto simp: wf_cdf_def read_entry_def c_read_def)

definition malloc_ok :: "(nat \<Rightarrow> cdf_entry list option) \<Rightarrow> bool" where
  "malloc_ok malloc \<longleftrightarrow> (\<forall>n. \<exists>block. malloc n = Some block \<and> length block = n)"

lemma malloc_ok_obtains:
  assumes "malloc_ok malloc"
  obtains block where "malloc n = Some block" "length block = n"
  using assms unfolding malloc_ok_def by blast

lemma wf_cdf_init:
  assumes "malloc_ok malloc"
  shows "\<exists>t'. init_cdf malloc (Some t) = Some t' \<and> wf_cdf t' [] \<and> min_cdf t' = 0 \<and> max_cdf t' = 1"
  using malloc_ok_obtains [OF assms, of CDF_TABLE_ENTRY]
  by (auto simp: init_cdf_def wf_cdf_def CDF_TABLE_ENTRY_def)

lemma copy_entries:
  assumes "k \<le> length es" "cdf_entries t = Some es" "k \<le> length block"
  shows "fold_option (copy_entry t) [0..<k] (Some block) = Some (Some (take k es @ drop k block))"
  using assms
proof (induction k)
  case (Suc k)
  then have "drop k block = block ! k # drop (Suc k) block" by (simp add: Cons_nth_drop_Suc)
  with Suc show ?case
    by (simp add: fold_option_append copy_entry_def read_entry_def c_read_def c_write_def
        list_update_append take_Suc_conv_app_nth)
qed simp

lemma resize_entries_spec:
  assumes "malloc_ok malloc" "wf_cdf t rows"
  shows "\<exists>t'. resize_entries malloc t = Some t' \<and> wf_cdf t' rows \<and> num_entry t' < max_entry t'
    \<and> min_cdf t' = min_cdf t \<and> max_cdf t' = max_cdf t"
proof (cases "num_entry t \<ge> max_entry t")
  case True
  from assms(2) obtain es where es: "cdf_entries t = Some es" "length es = max_entry t"
    "0 < max_entry t" "num_entry t \<le> max_entry t" "rows = take (num_entry t) es"
    by (auto simp: wf_cdf_def)
  obtain block where block: "malloc (max_entry t * 2) = Some block" "length block = max_entry t * 2"
    using malloc_ok_obtains [OF assms(1)] .
  have "fold_option (copy_entry t) [0..<num_entry t] (Some block)
      = Some (Some (rows @ drop (num_entry t) block))"
    using copy_entries [of "num_entry t" es t block] es block by simp
  with True es block show ?thesis
    by (simp add: resize_entries_def Let_def wf_cdf_def)
next
  case False
  with assms(2) show ?thesis by (simp add: resize_entries_def)
qed

lemma load_line_spec:
  assumes "malloc_ok malloc" "wf_cdf t rows" "scan line = (Some v, Some c)"
  shows "(MAX_CDF < c \<longrightarrow> load_line malloc scan line t = Exited 0)
    \<and> (c \<le> MAX_CDF \<longrightarrow> (\<exists>t'. load_line malloc scan line t = Returned t'
         \<and> wf_cdf t' (rows @ [\<lparr>entry_value = v, entry_cdf = c\<rparr>])
         \<and> min_cdf t' = min (min_cdf t) c \<and> max_cdf t' = max (max_cdf t) c))"
proof -
  obtain u where u: "resize_entries malloc t = Some u" "wf_cdf u rows" "num_entry u < max_entry u"
    "min_cdf u = min_cdf t" "max_cdf u = max_cdf t"
    using resize_entries_spec [OF assms(1,2)] by blast
  then obtain es where es: "cdf_entries u = Some es" "length es = max_entry u"
    "rows = take (num_entry u) es" by (auto simp: wf_cdf_def)
  define row where "row = \<lparr>entry_value = v, entry_cdf = c\<rparr>"
  have scanned: "scan_entry scan line x = row" for x
    by (cases x) (simp add: scan_entry_def assms(3) row_def)
  have bd: "num_entry u < length es" using es(2) u(3) by simp
  have "load_line malloc scan line t =
      (if c > MAX_CDF then Exited 0
       else Returned (u\<lparr>cdf_entries := Some (es[num_entry u := row]),
                min_cdf := (if min_cdf u > c then c else min_cdf u),
                max_cdf := (if max_cdf u < c then c else max_cdf u),
                num_entry := num_entry u + 1\<rparr>))"
    using u(1) es(1) bd
    by (simp add: load_line_def read_entry_def c_read_def c_write_def scanned row_def)
  moreover have "take (num_entry u + 1) (es[num_entry u := row]) = rows @ [row]"
    using bd es(3) by (simp add: take_Suc_conv_app_nth)
  ultimately show ?thesis
    using u es bd
    by (auto simp: wf_cdf_def row_def min_def max_def)
qed

lemma cdf_entry_eta [simp]: "\<lparr>entry_value = entry_value r, entry_cdf = entry_cdf r\<rparr> = r"
  by (cases r) simp

text \<open>The entries of a file all of whose lines hold two numbers.\<close>

definition scans :: "(string \<Rightarrow> rat option \<times> rat option) \<Rightarrow> string list \<Rightarrow> cdf_entry list \<Rightarrow> bool" where
  "scans scan lines rows \<longleftrightarrow>
     map scan lines = map (\<lambda>r. (Some (entry_value r), Some (entry_cdf r))) rows"

lemma load_lines_spec:
  assumes "malloc_ok malloc" "wf_cdf t rows0" "scans scan lines rows" "max_cdf t = 1"
  shows "(list_all (\<lambda>r. entry_cdf r \<le> MAX_CDF) rows \<longrightarrow>
            (\<exists>t'. load_lines malloc scan lines t = Returned t' \<and> wf_cdf t' (rows0 @ rows)
               \<and> min_cdf t' = fold (\<lambda>r m. min m (entry_cdf r)) rows (min_cdf t) \<and> max_cdf t' = 1))
       \<and> (\<not> list_all (\<lambda>r. entry_cdf r \<le> MAX_CDF) rows \<longrightarrow> load_lines malloc scan lines t = Exited 0)"
  using assms(2-4)
proof (induction lines arbitrary: t rows0 rows)
  case Nil
  then show ?case by (simp add: scans_def)
next
  case (Cons line lines)
  then obtain r rs where rows: "rows = r # rs" "scan line = (Some (entry_value r), Some (entry_cdf r))"
    "scans scan lines rs"
    by (cases rows) (auto simp: scans_def)
  note line_spec = load_line_spec [where scan = scan and line = line, OF assms(1) Cons.prems(1) rows(2)]
  show ?case
  proof (cases "entry_cdf r \<le> MAX_CDF")
    case False
    with line_spec rows show ?thesis by simp
  next
    case True
    with line_spec obtain t' where t': "load_line malloc scan line t = Returned t'"
      "wf_cdf t' (rows0 @ [r])" "min_cdf t' = min (min_cdf t) (entry_cdf r)"
      "max_cdf t' = max (max_cdf t) (entry_cdf r)" by auto
    have "max_cdf t' = 1" using t'(4) Cons.prems(3) True by (simp add: MAX_CDF_def)
    with Cons.IH [OF t'(2) rows(3)] t' True rows show ?thesis by simp
  qed
qed

lemma get_cdf_returns:
  assumes "malloc_ok malloc" "scans scan lines rows"
  shows "(list_all (\<lambda>r. entry_cdf r \<le> MAX_CDF) rows \<longrightarrow>
            (\<exists>t'. get_cdf malloc scan (Some t) (Some lines) = Returned (Some t') \<and> wf_cdf t' rows
               \<and> min_cdf t' = fold (\<lambda>r m. min m (entry_cdf r)) rows 0 \<and> max_cdf t' = 1))
       \<and> (\<not> list_all (\<lambda>r. entry_cdf r \<le> MAX_CDF) rows \<longrightarrow>
            get_cdf malloc scan (Some t) (Some lines) = Exited 0)"
proof -
  obtain u where u: "init_cdf malloc (Some t) = Some u" "wf_cdf u []" "min_cdf u = 0" "max_cdf u = 1"
    using wf_cdf_init [OF assms(1)] by blast
  from load_lines_spec [OF assms(1) u(2) assms(2) u(4)] u(1,3) show ?thesis
    by (auto simp: get_cdf_def load_cdf_def)
qed

text \<open>
  C33.  When \<open>malloc\<close> succeeds and every line of the file holds two numbers, \<open>get_cdf\<close> makes no access
  outside the block: it ends the program if a probability is above 1, and otherwise the
  table holds exactly the lines of the file, in order, however often the block had to grow;
  \<open>min_cdf\<close> is the least of 0 and the probabilities, and \<open>max_cdf\<close> stays 1.
\<close>

theorem get_cdf_loads_file:
  assumes "malloc_ok malloc" "scans scan lines rows"
  shows "(list_all (\<lambda>r. entry_cdf r \<le> MAX_CDF) rows \<longrightarrow>
            (\<exists>t'. get_cdf malloc scan (Some t) (Some lines) = Returned (Some t') \<and> wf_cdf t' rows
               \<and> min_cdf t' = fold (\<lambda>r m. min m (entry_cdf r)) rows 0 \<and> max_cdf t' = 1))
       \<and> (\<not> list_all (\<lambda>r. entry_cdf r \<le> MAX_CDF) rows \<longrightarrow>
            get_cdf malloc scan (Some t) (Some lines) = Exited 0)"
  using assms by (rule get_cdf_returns)

text \<open>The file \<open>conf/cdf\<close> of the repository.\<close>

definition conf_cdf :: "string list" where
  "conf_cdf = [''100 0'', ''200 1'']"

definition conf_rows :: "cdf_entry list" where
  "conf_rows = [\<lparr>entry_value = 100, entry_cdf = 0\<rparr>, \<lparr>entry_value = 200, entry_cdf = 1\<rparr>]"

definition conf_scan :: "string \<Rightarrow> rat option \<times> rat option" where
  "conf_scan line = (if line = ''100 0'' then (Some 100, Some 0)
     else if line = ''200 1'' then (Some 200, Some 1) else (None, None))"

definition zero_malloc :: "nat \<Rightarrow> cdf_entry list option" where
  "zero_malloc n = Some (replicate n \<lparr>entry_value = 0, entry_cdf = 0\<rparr>)"

definition unset_table :: cdf_table where
  "unset_table = \<lparr>cdf_entries = None, num_entry = 0, max_entry = 0, min_cdf = 0, max_cdf = 0\<rparr>"

lemma zero_malloc_ok: "malloc_ok zero_malloc"
  by (simp add: malloc_ok_def zero_malloc_def)

lemma conf_scans: "scans conf_scan conf_cdf conf_rows"
  by (simp add: scans_def conf_scan_def conf_cdf_def conf_rows_def)

theorem get_cdf_loads_file_witness:
  "\<exists>t. get_cdf zero_malloc conf_scan (Some unset_table) (Some conf_cdf) = Returned (Some t)
     \<and> wf_cdf t conf_rows \<and> min_cdf t = 0 \<and> max_cdf t = 1"
  using get_cdf_loads_file [OF zero_malloc_ok conf_scans, of unset_table]
  by (simp add: conf_rows_def MAX_CDF_def)

section \<open>Drawing\<close>

text \<open>
  A distribution of flow sizes: values and probabilities do not fall and are not negative, a value
  is a whole number that fits an \<open>int\<close>, and two successive probabilities are equal or not
  extremely close, so that their difference does not underflow.
\<close>

definition apart :: "rat \<Rightarrow> rat \<Rightarrow> bool" where
  "apart a b \<longleftrightarrow> a = b \<or> a + 1 / 2 ^ 500 \<le> b"

definition is_distribution :: "cdf_entry list \<Rightarrow> bool" where
  "is_distribution rows \<longleftrightarrow> rows \<noteq> [] \<and> sorted (map entry_value rows) \<and> sorted (map entry_cdf rows)
     \<and> 0 \<le> entry_value (hd rows) \<and> 0 \<le> entry_cdf (hd rows)
     \<and> (\<forall>row\<in>set rows. entry_value row = of_int \<lfloor>entry_value row\<rfloor> \<and> \<lfloor>entry_value row\<rfloor> < 2 ^ 31)
     \<and> successively apart (0 # map entry_cdf rows)"

lemma is_distribution_mono:
  assumes "is_distribution rows" "i \<le> j" "j < length rows"
  shows "entry_value (rows ! i) \<le> entry_value (rows ! j)" "entry_cdf (rows ! i) \<le> entry_cdf (rows ! j)"
  using assms sorted_nth_mono [of "map entry_value rows" i j] sorted_nth_mono [of "map entry_cdf rows" i j]
  by (auto simp: is_distribution_def)

lemma is_distribution_nonneg:
  assumes "is_distribution rows" "j < length rows"
  shows "0 \<le> entry_value (rows ! j)" "0 \<le> entry_cdf (rows ! j)"
  using is_distribution_mono [OF assms(1), of 0 j] assms by (auto simp: is_distribution_def hd_conv_nth)

lemma is_distribution_whole:
  assumes "is_distribution rows" "j < length rows"
  obtains n where "entry_value (rows ! j) = of_int n" "0 \<le> n" "n < 2 ^ 31"
proof
  let ?n = "\<lfloor>entry_value (rows ! j)\<rfloor>"
  show "entry_value (rows ! j) = of_int ?n" "?n < 2 ^ 31"
    using assms nth_mem [OF assms(2)] by (auto simp: is_distribution_def)
  show "0 \<le> ?n" using is_distribution_nonneg(1) [OF assms] by simp
qed

lemma is_distribution_apart:
  assumes "is_distribution rows"
  shows "apart 0 (entry_cdf (rows ! 0))"
    "\<lbrakk>0 < i; i < length rows\<rbrakk> \<Longrightarrow> apart (entry_cdf (rows ! (i - 1))) (entry_cdf (rows ! i))"
proof -
  have "successively apart (0 # map entry_cdf rows)" "rows \<noteq> []"
    using assms by (simp_all add: is_distribution_def)
  then have nth: "apart ((0 # map entry_cdf rows) ! k) (map entry_cdf rows ! k)" if "k < length rows" for k
    using that by (simp add: successively_conv_nth)
  show "apart 0 (entry_cdf (rows ! 0))" using nth [of 0] \<open>rows \<noteq> []\<close> by simp
  show "apart (entry_cdf (rows ! (i - 1))) (entry_cdf (rows ! i))" if "0 < i" "i < length rows"
    using nth [of i] that by (simp add: nth_Cons')
qed

subsection \<open>Interpolation\<close>

text \<open>
  The divisor of a quotient does not vanish, and the result is between the two values up to an
  error far below one at the upper end: \<open>(x - x1) * (y2 - y1) / (x2 - x1)\<close> can be rounded above
  \<open>y2 - y1\<close>.
\<close>

lemma interpolate_between:
  assumes "x1 \<le> x" "x \<le> x2" "apart x1 x2" "0 \<le> m" "m \<le> n" "n < 2 ^ 31"
  shows "of_int m \<le> interpolate x x1 (of_int m) x2 (of_int n)"
    "interpolate x x1 (of_int m) x2 (of_int n) \<le> of_int n + 1 / 2 ^ 18"
proof -
  let ?y = "interpolate x x1 (of_int m) x2 (of_int n)"
  have fixed: "round64 (of_int m) = of_int m" "round64 (of_int n) = of_int n"
    "round64 (of_int m + of_int n) = of_int (m + n)" "round64 (of_int n - of_int m) = of_int (n - m)"
    using assms(4-6) by (simp_all add: round64_of_int flip: of_int_add of_int_diff)
  have "of_int m \<le> ?y \<and> ?y \<le> of_int n + 1 / 2 ^ 18"
  proof (cases "x1 = x2")
    case True
    then have "?y = of_int (m + n) / 2"
      using is_double_half [of "m + n"] assms(4-6) by (simp add: interpolate_def fixed is_double_def)
    moreover have "rat_of_int m \<le> of_int n" using assms(5) by simp
    ultimately show ?thesis by (simp add: field_simps)
  next
    case False
    define a d q where "a = round64 (x - x1)" and "d = round64 (x2 - x1)"
      and "q = round64 (round64 (a * of_int (n - m)) / d)"
    have y: "?y = round64 (of_int m + q)"
      using False by (simp add: interpolate_def fixed a_def d_def q_def)
    have "is_double (1 / 2 ^ 500)"
      using is_double_scaled [of 1 "- 500"] by (simp add: power_int_minus inverse_eq_divide)
    moreover have "1 / 2 ^ 500 \<le> x2 - x1" using assms(3) False by (simp add: apart_def)
    then have "round64 (1 / 2 ^ 500) \<le> d" unfolding d_def by (rule round64_mono)
    ultimately have d: "1 / 2 ^ 500 \<le> d" by (simp add: is_double_def)
    have a: "0 \<le> a" "a \<le> d"
      using assms(1,2) by (auto simp: a_def d_def intro: round64_nonneg round64_mono)
    have w: "0 \<le> rat_of_int (n - m)" "rat_of_int (n - m) \<le> 2 ^ 31"
      using assms(4-6) of_int_le_iff [of "n - m" "2 ^ 31", where 'a = rat] by simp_all
    have q: "0 \<le> q" "q \<le> of_int (n - m) + 1 / 2 ^ 19"
      using round64_product_quotient [OF a w d] by (simp_all add: q_def)
    have "round64 (of_int m) \<le> ?y" unfolding y using q(1) by (intro round64_mono) simp
    moreover have "rat_of_int n \<le> 2 ^ 31"
      using assms(6) of_int_le_iff [of n "2 ^ 31", where 'a = rat] by simp
    then have "of_int m + q \<le> 2 ^ 32" using q(2) by simp
    then have "?y \<le> of_int m + q + 1 / 2 ^ 20"
      unfolding y using q(1) assms(4) by (intro round64_upper) simp_all
    ultimately show ?thesis using q(2) by (simp add: fixed)
  qed
  then show "of_int m \<le> ?y" "?y \<le> of_int n + 1 / 2 ^ 18" by simp_all
qed

lemma interpolate_floor:
  assumes "x1 \<le> x" "x \<le> x2" "apart x1 x2" "0 \<le> m" "m \<le> n" "n < 2 ^ 31"
  shows "m \<le> \<lfloor>interpolate x x1 (of_int m) x2 (of_int n)\<rfloor>"
    "\<lfloor>interpolate x x1 (of_int m) x2 (of_int n)\<rfloor> \<le> n"
  using interpolate_between [OF assms] by (simp_all add: le_floor_iff floor_le_iff)

lemma interpolate_mono:
  assumes "x1 \<le> x" "x \<le> x'" "x' \<le> x2" "y1 \<le> y2"
  shows "interpolate x x1 y1 x2 y2 \<le> interpolate x' x1 y1 x2 y2"
  using assms
  by (auto simp: interpolate_def intro!: round64_mono add_left_mono divide_right_mono mult_right_mono
      round64_nonneg)

subsection \<open>Inversion\<close>

text \<open>What it means that the size \<open>n\<close> is a value of the inverse of the distribution at \<open>x\<close>.\<close>

definition inverse_at :: "cdf_entry list \<Rightarrow> rat \<Rightarrow> int \<Rightarrow> bool" where
  "inverse_at rows x n \<longleftrightarrow> 0 \<le> n \<and> of_int n \<le> entry_value (last rows) \<and>
     (\<forall>j<length rows. (x \<le> entry_cdf (rows ! j) \<longrightarrow> of_int n \<le> entry_value (rows ! j))
       \<and> (entry_cdf (rows ! j) < x \<longrightarrow> entry_value (rows ! j) \<le> of_int n))"

lemma inverse_at_segment:
  assumes dist: "is_distribution rows" and i: "i < length rows"
    and x: "x \<le> entry_cdf (rows ! i)" and below: "\<forall>j<i. entry_cdf (rows ! j) < x"
    and n: "of_int n \<le> entry_value (rows ! i)" "0 \<le> n" "0 < i \<Longrightarrow> entry_value (rows ! (i - 1)) \<le> of_int n"
  shows "inverse_at rows x n"
  unfolding inverse_at_def
proof (intro conjI allI impI)
  show "0 \<le> n" by fact
  have "entry_value (rows ! i) \<le> entry_value (rows ! (length rows - 1))"
    using i by (intro is_distribution_mono(1) [OF dist]) simp_all
  then show "of_int n \<le> entry_value (last rows)"
    using n(1) dist by (simp add: last_conv_nth is_distribution_def)
next
  fix j assume j: "j < length rows" "x \<le> entry_cdf (rows ! j)"
  then have "i \<le> j" using below by (metis leD not_le)
  then show "of_int n \<le> entry_value (rows ! j)"
    using n(1) is_distribution_mono(1) [OF dist _ j(1)] by fastforce
next
  fix j assume j: "j < length rows" "entry_cdf (rows ! j) < x"
  then have "j < i" using x is_distribution_mono(2) [OF dist _ j(1), of i] by force
  then show "entry_value (rows ! j) \<le> of_int n"
    using n(3) is_distribution_mono(1) [OF dist, of j "i - 1"] i by fastforce
qed

text \<open>The value the loop returns in the segment before entry \<open>i\<close>.\<close>

definition segment_value :: "cdf_entry list \<Rightarrow> nat \<Rightarrow> rat \<Rightarrow> rat" where
  "segment_value rows i x =
     (if i = 0 then interpolate x 0 0 (entry_cdf (rows ! 0)) (entry_value (rows ! 0))
      else interpolate x (entry_cdf (rows ! (i - 1))) (entry_value (rows ! (i - 1)))
             (entry_cdf (rows ! i)) (entry_value (rows ! i)))"

lemma gen_loop_segment:
  assumes "wf_cdf t rows" "i < length rows"
  shows "gen_loop t x i (Suc k) =
     (if x \<le> entry_cdf (rows ! i) then Returned (segment_value rows i x) else gen_loop t x (Suc i) k)"
  using assms read_entry_rows [OF assms(1)] by (auto simp: segment_value_def)

lemma segment_value_inverse:
  assumes "is_distribution rows" "i < length rows" "0 \<le> x"
    and "x \<le> entry_cdf (rows ! i)" "\<forall>j<i. entry_cdf (rows ! j) < x"
  shows "inverse_at rows x \<lfloor>segment_value rows i x\<rfloor>"
proof -
  obtain n where n: "entry_value (rows ! i) = of_int n" "0 \<le> n" "n < 2 ^ 31"
    using is_distribution_whole [OF assms(1,2)] .
  show ?thesis
  proof (cases "i = 0")
    case True
    have "apart 0 (entry_cdf (rows ! i))" using is_distribution_apart(1) [OF assms(1)] True by simp
    from interpolate_floor [OF assms(3,4) this, of 0 n] n True show ?thesis
      using assms by (intro inverse_at_segment [OF assms(1,2)]) (simp_all add: segment_value_def)
  next
    case False
    obtain m where m: "entry_value (rows ! (i - 1)) = of_int m" "0 \<le> m"
      using is_distribution_whole [OF assms(1), of "i - 1"] assms(2) by (metis less_imp_diff_less)
    have "m \<le> n"
      using is_distribution_mono(1) [OF assms(1), of "i - 1" i] assms(2) m(1) n(1) by simp
    moreover have "entry_cdf (rows ! (i - 1)) \<le> x" using assms(5) False by (simp add: less_imp_le)
    moreover have "apart (entry_cdf (rows ! (i - 1))) (entry_cdf (rows ! i))"
      using False assms(2) by (intro is_distribution_apart(2) [OF assms(1)]) simp_all
    moreover have "segment_value rows i x
        = interpolate x (entry_cdf (rows ! (i - 1))) (of_int m) (entry_cdf (rows ! i)) (of_int n)"
      using False unfolding segment_value_def m(1) n(1) by simp
    ultimately have v: "m \<le> \<lfloor>segment_value rows i x\<rfloor>" "\<lfloor>segment_value rows i x\<rfloor> \<le> n"
      using interpolate_floor [of "entry_cdf (rows ! (i - 1))" x "entry_cdf (rows ! i)" m n] assms(4) m(2) n(3)
      by simp_all
    then have "0 \<le> \<lfloor>segment_value rows i x\<rfloor>" using m(2) by linarith
    with v show ?thesis
      using assms(4,5) m(1) by (intro inverse_at_segment [OF assms(1,2)]) (simp_all add: n)
  qed
qed

lemma segment_value_mono:
  assumes "is_distribution rows" "i < length rows" "0 \<le> x" "x \<le> x'"
    and "x' \<le> entry_cdf (rows ! i)" "\<forall>j<i. entry_cdf (rows ! j) < x"
  shows "segment_value rows i x \<le> segment_value rows i x'"
proof (cases "i = 0")
  case True
  have "0 < length rows" using assms(2) by (rule le_less_trans [OF le0])
  with True show ?thesis
    using assms interpolate_mono [of 0 x x' "entry_cdf (rows ! 0)" 0 "entry_value (rows ! 0)"]
      is_distribution_nonneg(1) [OF assms(1)] by (simp add: segment_value_def)
next
  case False
  then have "entry_value (rows ! (i - 1)) \<le> entry_value (rows ! i)" "entry_cdf (rows ! (i - 1)) \<le> x"
    using is_distribution_mono(1) [OF assms(1), of "i - 1" i] assms(2,6) by (simp_all add: less_imp_le)
  with False show ?thesis
    using interpolate_mono [of "entry_cdf (rows ! (i - 1))" x x'] assms(4,5) by (simp add: segment_value_def)
qed

lemma gen_loop_inverse:
  assumes "wf_cdf t rows" "is_distribution rows" "0 \<le> x" "i + k = length rows"
    and "\<forall>j<i. entry_cdf (rows ! j) < x"
  shows "\<exists>y. gen_loop t x i k = Returned y \<and> inverse_at rows x \<lfloor>y\<rfloor>"
  using assms(4,5)
proof (induction k arbitrary: i)
  case 0
  have ne: "rows \<noteq> []" using assms(2) by (simp add: is_distribution_def)
  let ?i = "length rows - 1"
  have i: "?i < length rows" using ne by simp
  obtain n where n: "entry_value (rows ! ?i) = of_int n" "0 \<le> n"
    using is_distribution_whole [OF assms(2) i] .
  have "gen_loop t x i 0 = Returned (of_int n)"
    using ne read_entry_rows [OF assms(1) i] n by (simp add: wf_cdf_length [OF assms(1)])
  moreover have "entry_value (rows ! j) \<le> of_int n" if "j < length rows" for j
    unfolding n(1) [symmetric] using that ne by (intro is_distribution_mono(1) [OF assms(2)]) simp_all
  ultimately show ?case
    using 0 ne n by (auto simp: inverse_at_def last_conv_nth)
next
  case (Suc k)
  then have i: "i < length rows" by simp
  show ?case
  proof (cases "x \<le> entry_cdf (rows ! i)")
    case False
    then have "\<forall>j<Suc i. entry_cdf (rows ! j) < x" using Suc.prems(2) by (auto simp: less_Suc_eq)
    with Suc.IH [of "Suc i"] Suc.prems(1) False i show ?thesis
      by (simp add: gen_loop_segment [OF assms(1)] del: gen_loop.simps)
  next
    case True
    with segment_value_inverse [OF assms(2) i assms(3)] Suc.prems(2) show ?thesis
      by (simp add: gen_loop_segment [OF assms(1) i] del: gen_loop.simps)
  qed
qed

text \<open>A larger number draws a size that is not smaller.\<close>

lemma gen_loop_mono:
  assumes "wf_cdf t rows" "is_distribution rows" "0 \<le> x" "x \<le> x'" "i + k = length rows"
    and "\<forall>j<i. entry_cdf (rows ! j) < x"
    and "gen_loop t x i k = Returned y" "gen_loop t x' i k = Returned y'"
  shows "\<lfloor>y\<rfloor> \<le> \<lfloor>y'\<rfloor>"
  using assms(5-8)
proof (induction k arbitrary: i)
  case (Suc k)
  then have i: "i < length rows" by simp
  note loop = gen_loop_segment [OF assms(1) i]
  note inv = gen_loop_inverse [OF assms(1,2) _ Suc.prems(1)]
  consider "x' \<le> entry_cdf (rows ! i)" | "x \<le> entry_cdf (rows ! i)" "entry_cdf (rows ! i) < x'"
    | "entry_cdf (rows ! i) < x" by linarith
  then show ?case
  proof cases
    case 1
    then have "y = segment_value rows i x" "y' = segment_value rows i x'"
      using Suc.prems(3,4) assms(4) by (simp_all add: loop del: gen_loop.simps)
    then show ?thesis
      using segment_value_mono [OF assms(2) i assms(3,4) 1 Suc.prems(2)] by (simp add: floor_mono)
  next
    case 2
    have "\<forall>j<i. entry_cdf (rows ! j) < x'" using Suc.prems(2) assms(4) by force
    then have "inverse_at rows x \<lfloor>y\<rfloor>" "inverse_at rows x' \<lfloor>y'\<rfloor>"
      using inv [of x] inv [of x'] Suc.prems(2-4) assms(3,4) by auto
    then have "rat_of_int \<lfloor>y\<rfloor> \<le> entry_value (rows ! i)" "entry_value (rows ! i) \<le> rat_of_int \<lfloor>y'\<rfloor>"
      using 2 i by (simp_all add: inverse_at_def)
    then have "rat_of_int \<lfloor>y\<rfloor> \<le> rat_of_int \<lfloor>y'\<rfloor>" by (rule order.trans)
    then show ?thesis by simp
  next
    case 3
    then have "\<forall>j<Suc i. entry_cdf (rows ! j) < x"
      using Suc.prems(2) by (auto simp: less_Suc_eq)
    moreover have "gen_loop t x (Suc i) k = Returned y" "gen_loop t x' (Suc i) k = Returned y'"
      using Suc.prems(3,4) 3 assms(4) by (simp_all add: loop del: gen_loop.simps)
    ultimately show ?thesis
      using Suc.IH [of "Suc i"] Suc.prems(1) by simp
  qed
qed simp

text \<open>The drawn number; a quotient by \<open>RAND_MAX\<close> of at most \<open>RAND_MAX\<close> is at most 1 when rounded.\<close>

lemma rand_range_unit: "\<bar>r\<bar> \<le> RAND_MAX \<Longrightarrow> rand_range r 0 1 = round64 (round64 (of_int r / of_int RAND_MAX))"
  using round64_of_int [of 1] round64_of_int [of r] by (simp add: rand_range_def RAND_MAX_def)

lemma rand_range_mono:
  assumes "0 \<le> r" "r \<le> r'" "r' \<le> RAND_MAX"
  shows "rand_range r 0 1 \<le> rand_range r' 0 1"
  using assms
  by (auto simp: rand_range_unit RAND_MAX_def intro!: round64_mono divide_right_mono)

lemma rand_range_ends: "rand_range 0 0 1 = 0" "rand_range RAND_MAX 0 1 = 1"
  using round64_of_int [of 1] by (simp_all add: rand_range_unit RAND_MAX_def)

lemma rand_range_bounds:
  assumes "0 \<le> r" "r \<le> RAND_MAX"
  shows "0 \<le> rand_range r 0 1" "rand_range r 0 1 \<le> 1"
  using rand_range_mono [of 0 r] rand_range_mono [of r RAND_MAX] assms by (simp_all add: rand_range_ends)

lemma rand_range_pos:
  assumes "0 < r" "r \<le> RAND_MAX"
  shows "0 < rand_range r 0 1"
proof -
  have tiny: "round64 (1 / 2 ^ 31) = 1 / 2 ^ 31"
    using is_double_scaled [of 1 "- 31"] by (simp add: power_int_minus inverse_eq_divide is_double_def)
  have "1 / 2 ^ 31 \<le> rat_of_int r / of_int RAND_MAX"
    using assms by (simp add: RAND_MAX_def field_simps)
  then have "round64 (round64 (1 / 2 ^ 31)) \<le> round64 (round64 (of_int r / of_int RAND_MAX))"
    by (intro round64_mono)
  then have "1 / 2 ^ 31 \<le> rand_range r 0 1"
    unfolding tiny using assms by (simp add: rand_range_unit)
  then show ?thesis by (rule less_le_trans [rotated]) simp
qed

lemma gen_random_cdf_inverse:
  assumes "wf_cdf t rows" "is_distribution rows" "min_cdf t = 0" "max_cdf t = 1"
    and "0 \<le> r" "r \<le> RAND_MAX"
  shows "\<exists>y. gen_random_cdf (Some t) r = Returned y \<and> inverse_at rows (rand_range r 0 1) \<lfloor>y\<rfloor>"
  using gen_loop_inverse [OF assms(1,2) rand_range_bounds(1) [OF assms(5,6)], of 0 "length rows"] assms(3,4)
  by (simp add: gen_random_cdf_def wf_cdf_length [OF assms(1)])

lemma gen_random_cdf_mono:
  assumes "wf_cdf t rows" "is_distribution rows" "min_cdf t = 0" "max_cdf t = 1"
    and "0 \<le> r" "r \<le> r'" "r' \<le> RAND_MAX"
    and "gen_random_cdf (Some t) r = Returned y" "gen_random_cdf (Some t) r' = Returned y'"
  shows "\<lfloor>y\<rfloor> \<le> \<lfloor>y'\<rfloor>"
proof -
  have "0 \<le> rand_range r 0 1" using assms by (intro rand_range_bounds(1)) simp_all
  from gen_loop_mono [OF assms(1,2) this rand_range_mono [OF assms(5-7)], of 0 "length rows"] assms
  show ?thesis by (simp add: gen_random_cdf_def wf_cdf_length [OF assms(1)])
qed

definition conf_table :: cdf_table where
  "conf_table = \<lparr>cdf_entries = Some conf_rows, num_entry = 2, max_entry = 2, min_cdf = 0, max_cdf = 1\<rparr>"

lemma conf_table_facts:
  "wf_cdf conf_table conf_rows" "is_distribution conf_rows"
  "min_cdf conf_table = 0" "max_cdf conf_table = 1"
  by (simp_all add: wf_cdf_def conf_table_def conf_rows_def is_distribution_def apart_def)

text \<open>
  When the first probability is 0, meaning that no flow is smaller than the first value,
  a drawn number of 0 still gives half the first value: interpolation from the origin divides by
  zero and takes the mean instead.  For the file \<open>conf/cdf\<close> of the repository this is 50, below its
  least value 100.  A larger drawn number gives at least the first value.
\<close>

theorem zero_draw_below_first_value:
  assumes "wf_cdf t rows" "is_distribution rows" "entry_cdf (hd rows) = 0" "min_cdf t = 0" "max_cdf t = 1"
    and "0 \<le> r" "r \<le> RAND_MAX"
  shows "\<exists>y. gen_random_cdf (Some t) r = Returned y
    \<and> (r = 0 \<longrightarrow> y = entry_value (hd rows) / 2) \<and> (0 < r \<longrightarrow> entry_value (hd rows) \<le> of_int \<lfloor>y\<rfloor>)"
proof -
  have hd: "hd rows = rows ! 0" "rows \<noteq> []"
    using assms(2) by (simp_all add: is_distribution_def hd_conv_nth)
  then have ne: "0 < length rows" by simp
  obtain y where y: "gen_random_cdf (Some t) r = Returned y" "inverse_at rows (rand_range r 0 1) \<lfloor>y\<rfloor>"
    using gen_random_cdf_inverse [OF assms(1,2,4-7)] by blast
  have "entry_value (rows ! 0) \<le> of_int \<lfloor>y\<rfloor>" if "0 < r"
    using y(2) rand_range_pos [OF that assms(7)] ne assms(3) hd by (simp add: inverse_at_def)
  moreover have "y = entry_value (rows ! 0) / 2" if "r = 0"
  proof -
    obtain n where n: "entry_value (rows ! 0) = of_int n" "0 \<le> n" "n < 2 ^ 31"
      using is_distribution_whole [OF assms(2) ne] .
    obtain k where k: "length rows = Suc k" using ne by (cases rows) simp_all
    have "gen_random_cdf (Some t) 0 = gen_loop t 0 0 (Suc k)"
      using assms(4,5) wf_cdf_length [OF assms(1)] k by (simp add: gen_random_cdf_def rand_range_ends)
    also have "\<dots> = Returned (segment_value rows 0 0)"
      using gen_loop_segment [OF assms(1) ne] assms(3) hd by simp
    also have "segment_value rows 0 0 = entry_value (rows ! 0) / 2"
      using assms(3) hd n is_double_half [of n] round64_of_int [of n]
      by (simp add: segment_value_def interpolate_def is_double_def)
    finally show ?thesis using y(1) that by simp
  qed
  ultimately show ?thesis
    using y(1) hd by auto
qed

theorem zero_draw_below_first_value_witness:
  "gen_random_cdf (Some conf_table) 0 = Returned 50"
proof -
  have "entry_cdf (hd conf_rows) = 0" "entry_value (hd conf_rows) = 100"
    by (simp_all add: conf_rows_def)
  then show ?thesis
    using zero_draw_below_first_value [OF conf_table_facts(1,2), of 0] conf_table_facts(3,4)
    by (auto simp: RAND_MAX_def)
qed

text \<open>
  Rounding shows.  With the value 3 at probability 0.99 the number 0.99 itself gives slightly less than 3, so
  that the size is 2; between the values 0 at 0.01 and 3 at 0.39 the number 0.39 gives more than 3.
\<close>

lemma hundredths:
  "round64 (99 / 100) = of_int 8917127262193582 / 2 ^ 53"
  "round64 (1 / 100) = of_int 5764607523034235 / 2 ^ 59"
  "round64 (39 / 100) = of_int 7025615418697974 / 2 ^ 54"
  by (rule round64_eqI; simp)+

theorem interpolation_rounds:
  "\<lfloor>interpolate (round64 (99 / 100)) 0 0 (round64 (99 / 100)) 3\<rfloor> = 2
   \<and> 3 < interpolate (round64 (39 / 100)) (round64 (1 / 100)) 0 (round64 (39 / 100)) 3"
proof
  have three: "round64 3 = 3" using round64_of_int [of 3] by simp
  have x: "round64 (of_int 8917127262193582 / 2 ^ 53) = of_int 8917127262193582 / 2 ^ 53"
    by (rule round64_eqI) simp_all
  have p: "round64 (of_int 8917127262193582 / 2 ^ 53 * 3) = of_int 6687845446645186 / 2 ^ 51"
    by (rule round64_eqI) simp_all
  have q: "round64 (of_int 6687845446645186 / 2 ^ 51 / (of_int 8917127262193582 / 2 ^ 53)) = of_int 6755399441055743 / 2 ^ 51"
    by (rule round64_eqI) simp_all
  have y: "round64 (of_int 6755399441055743 / 2 ^ 51) = of_int 6755399441055743 / 2 ^ 51"
    by (rule round64_eqI) simp_all
  have "interpolate (round64 (99 / 100)) 0 0 (round64 (99 / 100)) 3 = of_int 6755399441055743 / 2 ^ 51"
    unfolding hundredths interpolate_def diff_zero add_0 three x p q y by simp
  then show "\<lfloor>interpolate (round64 (99 / 100)) 0 0 (round64 (99 / 100)) 3\<rfloor> = 2"
    by (simp add: floor_eq_iff)
next
  have three: "round64 3 = 3" using round64_of_int [of 3] by simp
  have d: "round64 (of_int 7025615418697974 / 2 ^ 54 - of_int 5764607523034235 / 2 ^ 59) = of_int 6845471433603154 / 2 ^ 54"
    by (rule round64_eqI) simp_all
  have p: "round64 (of_int 6845471433603154 / 2 ^ 54 * 3) = of_int 5134103575202366 / 2 ^ 52"
    by (rule round64_eqI) simp_all
  have q: "round64 (of_int 5134103575202366 / 2 ^ 52 / (of_int 6845471433603154 / 2 ^ 54)) = of_int 6755399441055745 / 2 ^ 51"
    by (rule round64_eqI) simp_all
  have y: "round64 (of_int 6755399441055745 / 2 ^ 51) = of_int 6755399441055745 / 2 ^ 51"
    by (rule round64_eqI) simp_all
  have "interpolate (round64 (39 / 100)) (round64 (1 / 100)) 0 (round64 (39 / 100)) 3 = of_int 6755399441055745 / 2 ^ 51"
    unfolding hundredths interpolate_def diff_zero add_0 three d p q y by simp
  then show "3 < interpolate (round64 (39 / 100)) (round64 (1 / 100)) 0 (round64 (39 / 100)) 3" by simp
qed

end
