(* ===== verification/FG_Statistics.thy ===== *)
theory FG_Statistics
  imports FG_Common "HOL-Library.Signed_Division"
begin

text \<open>
  The flow completion times, from \<open>flow_generator/src/client/statistics.c\<close> and \<open>statistics.h\<close>:
  the table of flows, indexed by socket, and the statistics printed at the end.

  The two arrays of pointers are optional lists of optional blocks: a missing list is a NULL
  array, a missing block a NULL element; after \<open>free\<close> they are missing too, so that a later access
  faults.  Whether the \<open>k\<close>-th allocation of a call succeeds, the current time, the opening of files
  and \<open>qsort\<close> are arguments.  The product \<open>counter * 0.99\<close>, a \<open>double\<close>, is rounded down exactly.
  The 64-bit sums cannot overflow, because there are less than \<open>2 ^ 31\<close> summands of 32 bits.
\<close>

definition S_TO_US :: int where
  "S_TO_US = 1000000"

definition THRES_NUM :: nat where
  "THRES_NUM = 3"

definition CONNECTION_ERROR :: int where
  "CONNECTION_ERROR = -1"

record timeval =
  tv_sec :: int
  tv_usec :: int

record flow_time =
  ft_fd :: int
  ft_req_time :: timeval
  ft_resp_time :: timeval
  ft_flow_size :: int
  ft_fct :: int

record stat_result =
  sr_threshold :: u32
  sr_counter :: int
  sr_avg_flow_size :: int
  sr_avg_fct :: int
  sr_flow_size_tmp :: int
  sr_fct_tmp :: int

record stat_error =
  total_flows :: u32
  size_error :: u32
  connection_error :: u32

record flow_time_table =
  max_entries :: int
  flows_time :: "flow_time option list option"
  flows_fct :: "u32 list option list option"
  thresholds :: "u32 list"
  results :: "stat_result list"
  stat_errors :: stat_error

definition cmp :: "u32 \<Rightarrow> u32 \<Rightarrow> int" where
  "cmp a b = (if a > b then 1 else 0)"

section \<open>The table\<close>

definition zero_time :: flow_time where
  "zero_time = \<lparr>ft_fd = 0, ft_req_time = \<lparr>tv_sec = 0, tv_usec = 0\<rparr>,
     ft_resp_time = \<lparr>tv_sec = 0, tv_usec = 0\<rparr>, ft_flow_size = 0, ft_fct = 0\<rparr>"

definition zero_result :: stat_result where
  "zero_result = \<lparr>sr_threshold = 0, sr_counter = 0, sr_avg_flow_size = 0, sr_avg_fct = 0,
     sr_flow_size_tmp = 0, sr_fct_tmp = 0\<rparr>"

text \<open>Access to the entry of a socket: \<open>flows_time[fd]->...\<close>\<close>

definition get_entry :: "flow_time_table \<Rightarrow> int \<Rightarrow> flow_time option" where
  "get_entry t fd =
     do {
       rows \<leftarrow> flows_time t;
       p \<leftarrow> (if fd < 0 then None else c_read rows (nat fd));
       p
     }"

definition set_entry :: "flow_time_table \<Rightarrow> int \<Rightarrow> flow_time \<Rightarrow> flow_time_table option" where
  "set_entry t fd x =
     do {
       rows \<leftarrow> flows_time t;
       old \<leftarrow> get_entry t fd;
       rows' \<leftarrow> c_write rows (nat fd) (Some x);
       Some (t\<lparr>flows_time := Some rows'\<rparr>)
     }"

definition del_flow_time_table :: "flow_time_table \<Rightarrow> flow_time_table option" where
  "del_flow_time_table t =
     do {
       rows \<leftarrow> (if max_entries t \<le> 0 then Some []
                else do { r \<leftarrow> flows_time t; if max_entries t \<le> int (length r) then Some r else None });
       fcts \<leftarrow> flows_fct t;
       if THRES_NUM \<le> length fcts
       then Some (t\<lparr>flows_time := None, flows_fct := None\<rparr>) else None
     }"

text \<open>
  \<open>init_flow_time_table\<close>: \<open>alloc k\<close> says whether the \<open>k\<close>-th call of \<open>calloc\<close> succeeds.  After the
  first failing element the elements of the array are NULL.
\<close>

definition calloc_rows :: "(nat \<Rightarrow> bool) \<Rightarrow> nat \<Rightarrow> nat \<Rightarrow> 'a \<Rightarrow> 'a option list" where
  "calloc_rows alloc first n x =
     (let good = takeWhile alloc [first..<first + n]
      in map (\<lambda>_. Some x) good @ replicate (n - length good) None)"

definition init_result :: "u32 \<Rightarrow> stat_result" where
  "init_result threshold = zero_result\<lparr>sr_threshold := threshold\<rparr>"

definition fail_after_delete :: "flow_time_table \<Rightarrow> (flow_time_table \<times> int) run" where
  "fail_after_delete t = run_bind (of_access (del_flow_time_table t)) (\<lambda>t'. Returned (t', FAILURE))"

definition init_flow_time_table ::
    "(nat \<Rightarrow> bool) \<Rightarrow> flow_time_table \<Rightarrow> int \<Rightarrow> (flow_time_table \<times> int) run" where
  "init_flow_time_table alloc t0 max' =
     (let n = nat max';
          t1 = t0\<lparr>max_entries := max'\<rparr>;
          rows = calloc_rows alloc 1 n zero_time;
          fcts = calloc_rows alloc (n + 2) THRES_NUM (replicate n (0 :: u32))
      in if \<not> alloc 0 then Returned (t1\<lparr>flows_time := None\<rparr>, FAILURE)
         else if None \<in> set rows then fail_after_delete (t1\<lparr>flows_time := Some rows\<rparr>)
         else if \<not> alloc (n + 1) then
           fail_after_delete (t1\<lparr>flows_time := Some rows, flows_fct := None\<rparr>)
         else if None \<in> set fcts then
           fail_after_delete (t1\<lparr>flows_time := Some rows, flows_fct := Some fcts\<rparr>)
         else
           let thres = [100 * 1000, 10 * 1000 * 1000, 0xffffffff]
           in Returned (t1\<lparr>flows_time := Some rows, flows_fct := Some fcts,
                 thresholds := thres, results := map init_result thres,
                 stat_errors := \<lparr>total_flows = word_of_int max', size_error = 0,
                                 connection_error = 0\<rparr>\<rparr>, SUCCESS))"

definition incre_error_flows :: "flow_time_table \<Rightarrow> int \<Rightarrow> flow_time_table" where
  "incre_error_flows t e =
     (if e = CONNECTION_ERROR
      then t\<lparr>stat_errors := (stat_errors t)\<lparr>connection_error := connection_error (stat_errors t) + 1\<rparr>\<rparr>
      else t\<lparr>stat_errors := (stat_errors t)\<lparr>size_error := size_error (stat_errors t) + 1\<rparr>\<rparr>)"

definition del_flow_time_entry :: "flow_time_table \<Rightarrow> int \<Rightarrow> flow_time_table run" where
  "del_flow_time_entry t fd =
     run_bind (of_access (get_entry t fd)) (\<lambda>x.
     of_access (set_entry t fd (x\<lparr>ft_fd := 0\<rparr>)))"

definition set_req_time :: "timeval \<Rightarrow> flow_time_table \<Rightarrow> int \<Rightarrow> flow_time_table run" where
  "set_req_time now t fd =
     run_bind (of_access (get_entry t fd)) (\<lambda>x.
       if ft_fd x = 0 then Aborted
       else of_access (set_entry t fd (x\<lparr>ft_req_time := now\<rparr>)))"

definition get_time_diff :: "timeval \<Rightarrow> timeval \<Rightarrow> int" where
  "get_time_diff start end' =
     to_int ((tv_sec end' - tv_sec start) * S_TO_US + (tv_usec end' - tv_usec start))"

definition set_resp_time :: "timeval \<Rightarrow> flow_time_table \<Rightarrow> int \<Rightarrow> flow_time_table run" where
  "set_resp_time now t fd =
     run_bind (of_access (get_entry t fd)) (\<lambda>x.
       if ft_fd x = 0 then Aborted
       else
         let x' = x\<lparr>ft_resp_time := now\<rparr>
         in of_access (set_entry t fd (x'\<lparr>ft_fct := get_time_diff (ft_req_time x') (ft_resp_time x')\<rparr>)))"

text \<open>
  The growth of the table: \<open>alloc 0\<close> is the answer of \<open>realloc\<close>, \<open>alloc (k + 1)\<close> that of the \<open>calloc\<close>
  for the \<open>k\<close>-th new element.  When one fails the table is freed, which frees the elements behind
  it too, whose pointers have not been set.
\<close>

definition grow_table :: "(nat \<Rightarrow> bool) \<Rightarrow> flow_time_table \<Rightarrow> (flow_time_table \<times> int) run" where
  "grow_table alloc t =
     (let entries = max_entries t;
          t1 = t\<lparr>max_entries := entries * 2\<rparr>
      in if \<not> alloc 0 then fail_after_delete (t1\<lparr>flows_time := None\<rparr>)
         else
           run_bind (of_access (flows_time t)) (\<lambda>rows.
             let rows' = take (nat entries) rows @ calloc_rows alloc 1 (nat entries) zero_time;
                 t2 = t1\<lparr>flows_time := Some rows'\<rparr>
             in if None \<in> set (butlast rows') then Faulted
                else if None \<in> set rows' then fail_after_delete t2
                else Returned (t2, SUCCESS)))"

definition set_flow_time_flowsize ::
    "(nat \<Rightarrow> bool) \<Rightarrow> flow_time_table \<Rightarrow> int \<Rightarrow> int \<Rightarrow> (flow_time_table \<times> int) run" where
  "set_flow_time_flowsize alloc t fd flow_size =
     run_bind (of_access (get_entry t fd)) (\<lambda>x0.
       if ft_fd x0 \<noteq> 0 then Aborted
       else
         run_bind (if fd \<ge> max_entries t then grow_table alloc t else Returned (t, SUCCESS))
           (\<lambda>(t1, r).
              if r = FAILURE then Returned (t1, FAILURE)
              else
                run_bind (of_access (get_entry t1 fd)) (\<lambda>x.
                run_bind (of_access (set_entry t1 fd (x\<lparr>ft_fd := fd, ft_flow_size := flow_size\<rparr>)))
                  (\<lambda>t2. Returned (t2, SUCCESS)))))"

definition add_flow_time_entry ::
    "(nat \<Rightarrow> bool) \<Rightarrow> timeval \<Rightarrow> flow_time_table \<Rightarrow> int \<Rightarrow> int \<Rightarrow> (flow_time_table \<times> int) run" where
  "add_flow_time_entry alloc now t fd flow_size =
     run_bind (set_flow_time_flowsize alloc t fd flow_size) (\<lambda>(t1, r).
     run_bind (set_req_time now t1 fd) (\<lambda>t2. Returned (t2, r)))"

section \<open>Statistics\<close>

text \<open>The loop of \<open>get_group_index\<close>: the size is compared as an unsigned number.\<close>

fun group_loop :: "u32 list \<Rightarrow> int \<Rightarrow> nat \<Rightarrow> nat \<Rightarrow> nat option" where
  "group_loop thres flow_size i 0 = Some i"
| "group_loop thres flow_size i (Suc k) =
     do {
       bound \<leftarrow> c_read thres i;
       if (word_of_int flow_size :: u32) < bound then Some i
       else group_loop thres flow_size (i + 1) k
     }"

definition get_group_index :: "u32 list \<Rightarrow> int \<Rightarrow> nat option" where
  "get_group_index thres flow_size = group_loop thres flow_size 0 (THRES_NUM - 1)"

text \<open>\<open>flows_fct[index][k] = v\<close>\<close>

definition write_fct :: "flow_time_table \<Rightarrow> nat \<Rightarrow> int \<Rightarrow> u32 \<Rightarrow> flow_time_table option" where
  "write_fct t index k v =
     do {
       fcts \<leftarrow> flows_fct t;
       row \<leftarrow> Option.bind (c_read fcts index) id;
       row' \<leftarrow> (if k < 0 then None else c_write row (nat k) v);
       fcts' \<leftarrow> c_write fcts index (Some row');
       Some (t\<lparr>flows_fct := Some fcts'\<rparr>)
     }"

text \<open>
  One round of the loop of \<open>print_statistics\<close>: the table, the running number of the flow (\<open>count\<close>,
  which counts in verbose mode only) and the text written so far.
\<close>

definition stat_round ::
    "bool \<Rightarrow> nat \<Rightarrow> flow_time_table \<times> nat \<times> string \<Rightarrow> (flow_time_table \<times> nat \<times> string) option" where
  "stat_round verbose i s =
     (case s of (t, count, out) \<Rightarrow>
        do {
          x \<leftarrow> get_entry t (int i);
          if ft_fd x = 0 then Some (t, count, out)
          else do {
            let flow_size = ft_flow_size x;
            let fct = ft_fct x;
            let (count', out') =
              (if verbose
               then (count + 1, out @ show_nat count @ '': ['' @ show_int flow_size @ '', ''
                       @ show_int fct @ '']'' @ newline)
               else (count, out @ show_int flow_size @ '' '' @ show_int fct @ newline));
            index \<leftarrow> get_group_index (thresholds t) flow_size;
            r \<leftarrow> c_read (results t) index;
            t1 \<leftarrow> write_fct t index (sr_counter r) (word_of_int fct);
            results' \<leftarrow> c_write (results t1) index
              (r\<lparr>sr_counter := sr_counter r + 1,
                 sr_flow_size_tmp := sr_flow_size_tmp r + flow_size,
                 sr_fct_tmp := sr_fct_tmp r + fct\<rparr>);
            Some (t1\<lparr>results := results'\<rparr>, count', out')
          }
        })"

definition finish_result ::
    "((u32 \<Rightarrow> u32 \<Rightarrow> int) \<Rightarrow> u32 list \<Rightarrow> u32 list) \<Rightarrow> nat \<Rightarrow> flow_time_table \<Rightarrow> flow_time_table option" where
  "finish_result qsort i t =
     do {
       r \<leftarrow> c_read (results t) i;
       results' \<leftarrow> c_write (results t) i
         (if sr_counter r > 0
          then r\<lparr>sr_avg_flow_size := to_int (sr_flow_size_tmp r sdiv sr_counter r),
                 sr_avg_fct := to_int (sr_fct_tmp r sdiv sr_counter r)\<rparr>
          else r);
       fcts \<leftarrow> flows_fct t;
       row \<leftarrow> Option.bind (c_read fcts i) id;
       let k = nat (sr_counter r);
       row' \<leftarrow> (if k \<le> length row then Some (qsort cmp (take k row) @ drop k row) else None);
       fcts' \<leftarrow> c_write fcts i (Some row');
       Some (t\<lparr>results := results', flows_fct := Some fcts'\<rparr>)
     }"

text \<open>The value \<open>flows_fct[g][(int)(counter * 0.99)]\<close> of group \<open>g\<close>.\<close>

definition percentile :: "flow_time_table \<Rightarrow> nat \<Rightarrow> u32 option" where
  "percentile t g =
     do {
       r \<leftarrow> c_read (results t) g;
       fcts \<leftarrow> flows_fct t;
       row \<leftarrow> Option.bind (c_read fcts g) id;
       c_read row (nat (sr_counter r) * 99 div 100)
     }"

definition error_lines :: "flow_time_table \<Rightarrow> string" where
  "error_lines t =
     (if size_error (stat_errors t) > 0
      then show_int (sint (size_error (stat_errors t))) @ '' flows occur size error.'' @ newline else [])
     @ (if connection_error (stat_errors t) > 0
        then show_int (sint (connection_error (stat_errors t))) @ '' flows occur connection error.'' @ newline
        else [])"

definition group_line :: "flow_time_table \<Rightarrow> nat \<Rightarrow> string \<Rightarrow> string option" where
  "group_line t g interval =
     do {
       r \<leftarrow> c_read (results t) g;
       Some (show_int (sr_counter r) @ '' flows among '' @ interval @ '', average FCT is ''
             @ show_int (sr_avg_fct r))
     }"

definition group_file_line :: "flow_time_table \<Rightarrow> nat \<Rightarrow> string \<Rightarrow> string option" where
  "group_file_line t g interval =
     do {
       l \<leftarrow> group_line t g interval;
       p \<leftarrow> percentile t g;
       Some (l @ '', 99th FCT is '' @ show_int (sint p))
     }"

text \<open>
  \<open>print_results\<close>: the text printed and, unless the name is empty, the text appended to the
  file; \<open>can_open\<close> is the answer of \<open>fopen\<close>.
\<close>

definition print_results :: "flow_time_table \<Rightarrow> string \<Rightarrow> bool \<Rightarrow> (string \<times> string) run" where
  "print_results t filename can_open =
     run_bind (of_access (do {
         a \<leftarrow> group_line t 0 ''(0, 100K)'';
         b \<leftarrow> group_line t 1 ''[100K, 10M)'';
         c \<leftarrow> group_line t 2 ''[10M, )'';
         Some (a @ newline @ b @ newline @ c @ newline) })) (\<lambda>lines.
       let out = print_split ''Flow Completion time (FCT) results'' @ error_lines t @ lines in
       if filename = '''' then Returned (out, [])
       else if \<not> can_open then Exited EXIT_SUCCESS
       else
         run_bind (of_access (do {
           a \<leftarrow> group_file_line t 0 ''(0, 100K)'';
           b \<leftarrow> group_file_line t 1 ''[100K, 10M)'';
           c \<leftarrow> group_file_line t 2 ''[10M, )'';
           Some (a @ newline @ b @ newline @ c @ newline @ newline) })) (\<lambda>file_lines.
         Returned (out, ''Flow Completion time (FCT) results'' @ newline @ error_lines t @ file_lines)))"

text \<open>
  \<open>print_statistics\<close>: the table at the end, the text printed, and the contents of the two files.
\<close>

definition print_statistics ::
    "((u32 \<Rightarrow> u32 \<Rightarrow> int) \<Rightarrow> u32 list \<Rightarrow> u32 list) \<Rightarrow> (string \<Rightarrow> bool) \<Rightarrow> flow_time_table \<Rightarrow> string \<Rightarrow> string
     \<Rightarrow> (flow_time_table \<times> string \<times> string \<times> string) run" where
  "print_statistics qsort can_open t filename stats_filename =
     (let verbose = (filename = '''') in
      if \<not> verbose \<and> \<not> can_open filename then Exited EXIT_SUCCESS
      else
        run_bind (of_access (fold_option (stat_round verbose) [0..<nat (max_entries t)] (t, 0, [])))
          (\<lambda>(t1, count, flows_text).
        run_bind (of_access (fold_option (finish_result qsort) [0..<THRES_NUM] t1)) (\<lambda>t2.
        run_bind (print_results t2 stats_filename (can_open stats_filename)) (\<lambda>(out, stats).
          Returned (t2,
            (if verbose then print_split ''Flow size and FCT'' @ flows_text else []) @ out,
            (if verbose then [] else flows_text), stats)))))"

end
