(* ===== verification/FG_Statistics_Spec.thy ===== *)
theory FG_Statistics_Spec
  imports FG_Statistics "HOL-Library.Multiset"
begin

text \<open>
  What the table of flow completion times of \<open>flow_generator/src/client/statistics.c\<close> promises:
  its invariant, the record of a flow from request to response, the dead growth of the table,
  and the statistics as functions of the list of recorded flows.
\<close>

section \<open>The invariant\<close>

definition standard_thresholds :: "u32 list" where
  "standard_thresholds = [100000, 10000000, 0xffffffff]"

text \<open>The table holds the entries \<open>rows\<close> and the completion times \<open>fcts\<close> of the three groups.\<close>

definition holds_rows :: "flow_time_table \<Rightarrow> flow_time list \<Rightarrow> u32 list list \<Rightarrow> bool" where
  "holds_rows t rows fcts \<longleftrightarrow>
     max_entries t = int (length rows)
   \<and> flows_time t = Some (map Some rows)
   \<and> flows_fct t = Some (map Some fcts)
   \<and> length fcts = THRES_NUM \<and> (\<forall>row\<in>set fcts. length row = length rows)
   \<and> length (results t) = THRES_NUM
   \<and> thresholds t = standard_thresholds"

lemma get_entry_row:
  assumes "holds_rows t rows fcts"
  shows "get_entry t fd = (if 0 \<le> fd \<and> fd < int (length rows) then Some (rows ! nat fd) else None)"
  using assms by (auto simp: holds_rows_def get_entry_def c_read_def)

lemma set_entry_row:
  assumes "holds_rows t rows fcts" "0 \<le> fd" "fd < int (length rows)"
  shows "\<exists>t'. set_entry t fd x = Some t' \<and> holds_rows t' (rows[nat fd := x]) fcts
    \<and> results t' = results t \<and> stat_errors t' = stat_errors t"
  using assms get_entry_row [OF assms(1), of fd]
  by (auto simp: holds_rows_def set_entry_def c_write_def map_update)

lemma calloc_rows_all:
  assumes "\<forall>k. alloc k"
  shows "calloc_rows alloc first n x = replicate n (Some x)"
proof -
  have "takeWhile alloc [first..<first + n] = [first..<first + n]"
    using assms by (simp add: takeWhile_eq_all_conv)
  then show ?thesis unfolding calloc_rows_def by (simp only: Let_def) (simp add: map_replicate_const)
qed

lemma calloc_rows_fails:
  assumes "first \<le> k" "k < first + n" "\<not> alloc k"
  shows "None \<in> set (calloc_rows alloc first n x)"
proof -
  have "\<not> (\<forall>j\<in>set [first..<first + n]. alloc j)" using assms by auto
  then have "length (takeWhile alloc [first..<first + n]) < n"
    by (metis length_takeWhile_le length_upt add_diff_cancel_left' le_neq_implies_less
        takeWhile_eq_all_conv takeWhile_eq_take take_all_iff order_refl)
  then show ?thesis by (simp add: calloc_rows_def Let_def)
qed

lemma init_table_ok:
  assumes "\<forall>k. alloc k"
  shows "\<exists>t. init_flow_time_table alloc t0 (int n) = Returned (t, SUCCESS)
            \<and> holds_rows t (replicate n zero_time) (replicate THRES_NUM (replicate n 0))
            \<and> results t = map init_result standard_thresholds"
  using assms
  by (simp add: init_flow_time_table_def calloc_rows_all holds_rows_def standard_thresholds_def
      THRES_NUM_def Let_def)

text \<open>
  When memory is available \<open>init_flow_time_table\<close> gives a table of \<open>n\<close> unused entries with
  empty statistics.  When the memory for an entry is missing it does not report the failure: the
  clean-up reads \<open>flows_fct\<close>, which is still NULL.
\<close>

theorem init_table_outcome:
  assumes "flows_fct t0 = None"
  shows "((\<forall>k. alloc k) \<longrightarrow> (\<exists>t. init_flow_time_table alloc t0 (int n) = Returned (t, SUCCESS)
            \<and> holds_rows t (replicate n zero_time) (replicate THRES_NUM (replicate n 0))
            \<and> results t = map init_result standard_thresholds))
    \<and> (alloc 0 \<and> (\<exists>k. 1 \<le> k \<and> k \<le> n \<and> \<not> alloc k) \<longrightarrow>
         init_flow_time_table alloc t0 (int n) = Faulted)"
proof (intro conjI impI)
  assume "\<forall>k. alloc k"
  then show "\<exists>t. init_flow_time_table alloc t0 (int n) = Returned (t, SUCCESS)
            \<and> holds_rows t (replicate n zero_time) (replicate THRES_NUM (replicate n 0))
            \<and> results t = map init_result standard_thresholds"
    by (rule init_table_ok)
next
  assume a: "alloc 0 \<and> (\<exists>k. 1 \<le> k \<and> k \<le> n \<and> \<not> alloc k)"
  then obtain k where k: "1 \<le> k" "k < 1 + n" "\<not> alloc k" by auto
  have "None \<in> set (calloc_rows alloc 1 n zero_time)" using k by (intro calloc_rows_fails [of 1 k])
  with a assms show "init_flow_time_table alloc t0 (int n) = Faulted"
    by (simp add: init_flow_time_table_def Let_def fail_after_delete_def del_flow_time_table_def
        Option.bind_eq_None_conv)
qed

section \<open>The record of a flow\<close>

lemma add_flow_time_entry_row:
  assumes "holds_rows t rows fcts" "0 < fd" "fd < int (length rows)" "ft_fd (rows ! nat fd) = 0"
  shows "\<exists>t'. add_flow_time_entry alloc now t fd size' = Returned (t', SUCCESS)
    \<and> holds_rows t' (rows[nat fd := (rows ! nat fd)\<lparr>ft_fd := fd, ft_flow_size := size',
         ft_req_time := now\<rparr>]) fcts
    \<and> results t' = results t \<and> stat_errors t' = stat_errors t"
proof -
  let ?i = "nat fd" and ?x = "(rows ! nat fd)\<lparr>ft_fd := fd, ft_flow_size := size'\<rparr>"
  have bd: "0 \<le> fd" "?i < length rows" using assms(2,3) by auto
  obtain t1 where t1: "set_entry t fd ?x = Some t1" "holds_rows t1 (rows[?i := ?x]) fcts"
    "results t1 = results t" "stat_errors t1 = stat_errors t"
    using set_entry_row [OF assms(1) bd(1) assms(3), of ?x] by blast
  have "max_entries t = int (length rows)" using assms(1) by (simp add: holds_rows_def)
  then have set: "set_flow_time_flowsize alloc t fd size' = Returned (t1, SUCCESS)"
    using assms bd t1(1) get_entry_row [OF assms(1), of fd]
    by (simp add: set_flow_time_flowsize_def SUCCESS_def FAILURE_def)
  have fd1: "fd < int (length (rows[?i := ?x]))" using assms(3) by simp
  obtain t2 where "set_entry t1 fd (?x\<lparr>ft_req_time := now\<rparr>) = Some t2"
    "holds_rows t2 ((rows[?i := ?x])[?i := ?x\<lparr>ft_req_time := now\<rparr>]) fcts"
    "results t2 = results t1" "stat_errors t2 = stat_errors t1"
    using set_entry_row [OF t1(2) bd(1) fd1, of "?x\<lparr>ft_req_time := now\<rparr>"] by blast
  with set t1 bd assms(2,3) get_entry_row [OF t1(2), of fd] show ?thesis
    by (simp add: add_flow_time_entry_def set_req_time_def)
qed

lemma set_resp_time_row:
  assumes "holds_rows t rows fcts" "0 \<le> fd" "fd < int (length rows)" "ft_fd (rows ! nat fd) \<noteq> 0"
  shows "\<exists>t'. set_resp_time now t fd = Returned t'
    \<and> holds_rows t' (rows[nat fd := (rows ! nat fd)\<lparr>ft_resp_time := now,
         ft_fct := get_time_diff (ft_req_time (rows ! nat fd)) now\<rparr>]) fcts
    \<and> results t' = results t \<and> stat_errors t' = stat_errors t"
  using assms get_entry_row [OF assms(1), of fd] set_entry_row [OF assms(1-3)]
  by (simp add: set_resp_time_def)

lemma del_flow_time_entry_row:
  assumes "holds_rows t rows fcts" "0 \<le> fd" "fd < int (length rows)"
  shows "\<exists>t'. del_flow_time_entry t fd = Returned t'
    \<and> holds_rows t' (rows[nat fd := (rows ! nat fd)\<lparr>ft_fd := 0\<rparr>]) fcts
    \<and> results t' = results t \<and> stat_errors t' = stat_errors t"
  using assms get_entry_row [OF assms(1), of fd] set_entry_row [OF assms]
  by (simp add: del_flow_time_entry_def)

text \<open>
  For an unused entry of a positive socket number inside the table, \<open>add_flow_time_entry\<close> and
  then \<open>set_resp_time\<close> record the socket, the size, both times and their difference, and change no
  other entry; adding the flow again before it is deleted fails the assertion.  For a socket number
  beyond the table \<open>add_flow_time_entry\<close> always faults: the assertion reads the entry before the
  comparison that would double the table, so the table never grows.
\<close>

theorem flow_record_lifecycle:
  assumes "holds_rows t rows fcts" "0 < fd"
  shows "(int (length rows) \<le> fd \<longrightarrow> add_flow_time_entry alloc now t fd size' = Faulted)
    \<and> (fd < int (length rows) \<and> ft_fd (rows ! nat fd) = 0 \<longrightarrow>
        (\<exists>t1 t2. add_flow_time_entry alloc now t fd size' = Returned (t1, SUCCESS)
           \<and> set_resp_time later t1 fd = Returned t2
           \<and> holds_rows t2 (rows[nat fd := \<lparr>ft_fd = fd, ft_req_time = now, ft_resp_time = later,
                ft_flow_size = size', ft_fct = get_time_diff now later\<rparr>]) fcts
           \<and> add_flow_time_entry alloc now' t2 fd size'' = Aborted))"
proof (intro conjI impI)
  assume "int (length rows) \<le> fd"
  then show "add_flow_time_entry alloc now t fd size' = Faulted"
    using get_entry_row [OF assms(1), of fd]
    by (simp add: add_flow_time_entry_def set_flow_time_flowsize_def)
next
  assume a: "fd < int (length rows) \<and> ft_fd (rows ! nat fd) = 0"
  let ?x = "(rows ! nat fd)\<lparr>ft_fd := fd, ft_flow_size := size', ft_req_time := now\<rparr>"
  let ?y = "\<lparr>ft_fd = fd, ft_req_time = now, ft_resp_time = later, ft_flow_size = size',
    ft_fct = get_time_diff now later\<rparr>"
  have i: "nat fd < length rows" using a assms(2) by auto
  obtain t1 where t1: "add_flow_time_entry alloc now t fd size' = Returned (t1, SUCCESS)"
    "holds_rows t1 (rows[nat fd := ?x]) fcts"
    using add_flow_time_entry_row [OF assms(1,2), of alloc now size'] a by blast
  have eq: "(rows[nat fd := ?x])[nat fd := (rows[nat fd := ?x] ! nat fd)\<lparr>ft_resp_time := later,
      ft_fct := get_time_diff (ft_req_time (rows[nat fd := ?x] ! nat fd)) later\<rparr>] = rows[nat fd := ?y]"
    using i by (cases "rows ! nat fd") simp
  have "0 \<le> fd" "fd < int (length (rows[nat fd := ?x]))" "ft_fd (rows[nat fd := ?x] ! nat fd) \<noteq> 0"
    using a assms(2) i by simp_all
  then obtain t2 where t2: "set_resp_time later t1 fd = Returned t2"
    "holds_rows t2 (rows[nat fd := ?y]) fcts"
    using set_resp_time_row [OF t1(2), of fd later] unfolding eq by blast
  have "add_flow_time_entry alloc now' t2 fd size'' = Aborted"
    using get_entry_row [OF t2(2), of fd] a assms(2) i
    by (simp add: add_flow_time_entry_def set_flow_time_flowsize_def)
  with t1 t2 show "\<exists>t1 t2. add_flow_time_entry alloc now t fd size' = Returned (t1, SUCCESS)
           \<and> set_resp_time later t1 fd = Returned t2
           \<and> holds_rows t2 (rows[nat fd := ?y]) fcts
           \<and> add_flow_time_entry alloc now' t2 fd size'' = Aborted"
    by blast
qed

definition sample_rows :: "flow_time list" where
  "sample_rows = replicate 6 zero_time"

definition sample_times :: flow_time_table where
  "sample_times = \<lparr>max_entries = 6, flows_time = Some (map Some sample_rows),
     flows_fct = Some (map Some (replicate THRES_NUM (replicate 6 0))), thresholds = standard_thresholds,
     results = map init_result standard_thresholds,
     stat_errors = \<lparr>total_flows = 6, size_error = 0, connection_error = 0\<rparr>\<rparr>"

lemma sample_times_holds: "holds_rows sample_times sample_rows (replicate THRES_NUM (replicate 6 0))"
  by (simp add: holds_rows_def sample_times_def sample_rows_def THRES_NUM_def standard_thresholds_def)

theorem flow_record_lifecycle_witness:
  "add_flow_time_entry (\<lambda>_. True) \<lparr>tv_sec = 1, tv_usec = 0\<rparr> sample_times 6 1000 = Faulted
   \<and> (\<exists>t. add_flow_time_entry (\<lambda>_. True) \<lparr>tv_sec = 1, tv_usec = 0\<rparr> sample_times 5 1000
            = Returned (t, SUCCESS))"
  using flow_record_lifecycle [OF sample_times_holds, of 6]
    flow_record_lifecycle [OF sample_times_holds, of 5]
  by (simp add: sample_rows_def zero_time_def) blast

theorem init_table_outcome_witness:
  "(\<exists>t. init_flow_time_table (\<lambda>_. True) (sample_times\<lparr>flows_fct := None\<rparr>) (int 5) = Returned (t, SUCCESS))
   \<and> init_flow_time_table (\<lambda>k. k \<noteq> 3) (sample_times\<lparr>flows_fct := None\<rparr>) (int 5) = Faulted"
  using init_table_outcome [of "sample_times\<lparr>flows_fct := None\<rparr>" "\<lambda>_. True" 5]
    init_table_outcome [of "sample_times\<lparr>flows_fct := None\<rparr>" "\<lambda>k. k \<noteq> 3" 5]
  by auto

section \<open>Groups\<close>

definition is_int :: "int \<Rightarrow> bool" where
  "is_int n \<longleftrightarrow> - (2 ^ 31) \<le> n \<and> n < 2 ^ 31"

text \<open>The three groups of sizes: below 100 KB, below 10 MB, and the rest with the negative ones.\<close>

definition group_of :: "int \<Rightarrow> nat" where
  "group_of n = (if 0 \<le> n \<and> n < 100000 then 0 else if 0 \<le> n \<and> n < 10000000 then 1 else 2)"

lemma group_of_less [simp]: "group_of n < THRES_NUM"
  by (simp add: group_of_def THRES_NUM_def)

lemma word_less_bound:
  assumes "is_int n" "0 < b" "b < 2 ^ 31"
  shows "(word_of_int n :: u32) < word_of_int b \<longleftrightarrow> 0 \<le> n \<and> n < b"
proof -
  have b: "b mod 2 ^ 32 = b" using assms(2,3) by simp
  have n: "n mod 2 ^ 32 = (if 0 \<le> n then n else n + 2 ^ 32)"
  proof (cases "0 \<le> n")
    case False
    then have "(n + 2 ^ 32) mod 2 ^ 32 = n + 2 ^ 32"
      using assms(1) by (intro mod_pos_pos_trivial) (simp_all add: is_int_def)
    with False show ?thesis by simp
  qed (use assms(1) in \<open>simp add: is_int_def\<close>)
  have "(word_of_int n :: u32) < word_of_int b \<longleftrightarrow> n mod 2 ^ 32 < b mod 2 ^ 32"
    by (simp add: word_less_def uint_word_of_int)
  also have "\<dots> \<longleftrightarrow> 0 \<le> n \<and> n < b"
    using assms unfolding b n by (auto simp: is_int_def)
  finally show ?thesis .
qed

lemma get_group_index_spec:
  assumes "is_int n"
  shows "get_group_index standard_thresholds n = Some (group_of n)"
proof -
  have "(word_of_int n :: u32) < 100000 \<longleftrightarrow> 0 \<le> n \<and> n < 100000"
    using word_less_bound [OF assms, of 100000] by simp
  moreover have "(word_of_int n :: u32) < 10000000 \<longleftrightarrow> 0 \<le> n \<and> n < 10000000"
    using word_less_bound [OF assms, of 10000000] by simp
  moreover have "THRES_NUM - 1 = Suc (Suc 0)" by (simp add: THRES_NUM_def)
  ultimately show ?thesis
    by (simp add: get_group_index_def standard_thresholds_def c_read_def group_of_def)
qed

text \<open>The recorded flows of group \<open>g\<close>.\<close>

definition group_rows :: "nat \<Rightarrow> flow_time list \<Rightarrow> flow_time list" where
  "group_rows g rows = filter (\<lambda>x. ft_fd x \<noteq> 0 \<and> group_of (ft_flow_size x) = g) rows"

lemma length_group_rows: "length (group_rows g rows) \<le> length rows"
  by (simp add: group_rows_def)

text \<open>What \<open>print_statistics\<close> has computed for the rows \<open>visited\<close>.\<close>

definition counted :: "flow_time_table \<Rightarrow> u32 list list \<Rightarrow> flow_time list \<Rightarrow> bool" where
  "counted t fcts visited \<longleftrightarrow> (\<forall>g<THRES_NUM.
     sr_counter (results t ! g) = int (length (group_rows g visited))
   \<and> sr_flow_size_tmp (results t ! g) = sum_list (map ft_flow_size (group_rows g visited))
   \<and> sr_fct_tmp (results t ! g) = sum_list (map ft_fct (group_rows g visited))
   \<and> take (length (group_rows g visited)) (fcts ! g)
       = map (\<lambda>x. word_of_int (ft_fct x)) (group_rows g visited))"

lemma holds_rows_row: "holds_rows t rows fcts \<Longrightarrow> j < THRES_NUM \<Longrightarrow> length (fcts ! j) = length rows"
  by (auto simp: holds_rows_def)

lemma write_fct_spec:
  assumes "holds_rows t rows fcts" "g < THRES_NUM" "k < length rows"
  shows "write_fct t g (int k) v = Some (t\<lparr>flows_fct := Some (map Some (fcts[g := (fcts ! g)[k := v]]))\<rparr>)"
proof -
  have "length (fcts ! g) = length rows" "g < length fcts" "flows_fct t = Some (map Some fcts)"
    using assms by (auto simp: holds_rows_def)
  with assms(3) show ?thesis
    by (simp add: write_fct_def c_read_def c_write_def map_update)
qed

lemma stat_round_skips:
  assumes "holds_rows t rows fcts" "i < length rows" "ft_fd (rows ! i) = 0"
  shows "stat_round verbose i (t, c0, out) = Some (t, c0, out)"
  using assms by (simp add: stat_round_def get_entry_row [OF assms(1)])

lemma stat_round_counts:
  assumes holds: "holds_rows t rows fcts" and i: "i < length rows" and used: "ft_fd (rows ! i) \<noteq> 0"
    and int: "is_int (ft_flow_size (rows ! i))"
    and counted: "counted t fcts (take i rows)"
  shows "\<exists>t' fcts' count' out'. stat_round verbose i (t, c0, out) = Some (t', count', out')
    \<and> holds_rows t' rows fcts' \<and> counted t' fcts' (take (Suc i) rows) \<and> stat_errors t' = stat_errors t"
proof -
  define x where "x = rows ! i"
  define g where "g = group_of (ft_flow_size x)"
  define k where "k = length (group_rows g (take i rows))"
  have g: "g < THRES_NUM" by (simp add: g_def)
  have k: "k < length rows" "sr_counter (results t ! g) = int k"
    using length_group_rows [of g "take i rows"] i counted g by (auto simp: k_def counted_def)
  define fcts' where "fcts' = fcts[g := (fcts ! g)[k := word_of_int (ft_fct x)]]"
  define r where "r = (results t ! g)\<lparr>sr_counter := int k + 1,
     sr_flow_size_tmp := sr_flow_size_tmp (results t ! g) + ft_flow_size x,
     sr_fct_tmp := sr_fct_tmp (results t ! g) + ft_fct x\<rparr>"
  define t' where "t' = t\<lparr>flows_fct := Some (map Some fcts'), results := (results t)[g := r]\<rparr>"
  have len: "length (results t) = THRES_NUM" "length fcts = THRES_NUM" "thresholds t = standard_thresholds"
    "\<forall>j<THRES_NUM. length (fcts ! j) = length rows"
    using holds holds_rows_row [OF holds] by (simp_all add: holds_rows_def)
  have group: "get_group_index (thresholds t) (ft_flow_size x) = Some g"
    using int get_group_index_spec by (simp add: len g_def x_def)
  have wf: "write_fct t g (sr_counter (results t ! g)) (word_of_int (ft_fct x))
      = Some (t\<lparr>flows_fct := Some (map Some fcts')\<rparr>)"
    unfolding k(2) fcts'_def by (rule write_fct_spec [OF holds g k(1)])
  have entry: "get_entry t (int i) = Some x"
    using get_entry_row [OF holds, of "int i"] i by (simp add: x_def)
  have "\<exists>count' out'. stat_round verbose i (t, c0, out) = Some (t', count', out')"
    using used group wf entry g len k(2)
    by (auto simp: stat_round_def x_def [symmetric] c_read_def c_write_def t'_def r_def Let_def)
  moreover have "holds_rows t' rows fcts'"
  proof -
    have "length (fcts' ! j) = length rows" if "j < THRES_NUM" for j
      using len g that by (simp add: fcts'_def nth_list_update)
    moreover have "length fcts' = THRES_NUM" using len by (simp add: fcts'_def)
    ultimately show ?thesis
      using holds by (auto simp: holds_rows_def t'_def in_set_conv_nth)
  qed
  moreover have "counted t' fcts' (take (Suc i) rows)"
  proof -
    have take: "take (Suc i) rows = take i rows @ [x]" using i by (simp add: x_def take_Suc_conv_app_nth)
    have grp: "group_rows j (take (Suc i) rows) = (if j = g then group_rows g (take i rows) @ [x]
        else group_rows j (take i rows))" for j
      using used by (simp add: take group_rows_def g_def x_def)
    have "take (Suc k) ((fcts ! g)[k := word_of_int (ft_fct x)])
        = take k (fcts ! g) @ [word_of_int (ft_fct x)]"
      using k len g by (simp add: take_Suc_conv_app_nth)
    then show ?thesis
      using counted g len by (auto simp: counted_def grp t'_def fcts'_def r_def nth_list_update k_def)
  qed
  ultimately show ?thesis by (auto simp: t'_def)
qed

lemma group_rows_unused:
  "i < length rows \<Longrightarrow> ft_fd (rows ! i) = 0 \<Longrightarrow> group_rows g (take (Suc i) rows) = group_rows g (take i rows)"
  by (simp add: take_Suc_conv_app_nth group_rows_def)

lemma stat_loop:
  assumes "holds_rows t rows fcts" "counted t fcts []" "\<forall>x\<in>set rows. is_int (ft_flow_size x)"
  shows "i \<le> length rows \<Longrightarrow> \<exists>t' fcts' count' out'.
    fold_option (stat_round verbose) [0..<i] (t, c, out) = Some (t', count', out')
    \<and> holds_rows t' rows fcts' \<and> counted t' fcts' (take i rows) \<and> stat_errors t' = stat_errors t"
proof (induction i)
  case 0
  with assms show ?case by auto
next
  case (Suc i)
  then obtain t1 fcts1 c1 out1 where IH:
    "fold_option (stat_round verbose) [0..<i] (t, c, out) = Some (t1, c1, out1)"
    "holds_rows t1 rows fcts1" "counted t1 fcts1 (take i rows)" "stat_errors t1 = stat_errors t"
    by auto
  have i: "i < length rows" using Suc.prems by simp
  have fold: "fold_option (stat_round verbose) [0..<Suc i] (t, c, out)
      = stat_round verbose i (t1, c1, out1)"
    using IH(1) by (simp add: fold_option_snoc)
  show ?case
  proof (cases "ft_fd (rows ! i) = 0")
    case True
    then show ?thesis
      using IH i unfolding fold
      by (intro exI [of _ t1] exI [of _ fcts1])
        (simp add: stat_round_skips counted_def group_rows_unused)
  next
    case False
    from stat_round_counts [OF IH(2) i False _ IH(3), of verbose c1 out1] assms(3) i IH(4)
    show ?thesis by (simp only: fold) auto
  qed
qed

section \<open>The printed statistics\<close>

definition averaged :: "stat_result \<Rightarrow> stat_result" where
  "averaged r =
     (if sr_counter r > 0
      then r\<lparr>sr_avg_flow_size := to_int (sr_flow_size_tmp r sdiv sr_counter r),
             sr_avg_fct := to_int (sr_fct_tmp r sdiv sr_counter r)\<rparr>
      else r)"

lemma averaged_counter [simp]: "sr_counter (averaged r) = sr_counter r"
  by (simp add: averaged_def)

lemma groups_upto: "[0..<THRES_NUM] = [0, 1, 2]"
  by (simp add: THRES_NUM_def upt_rec)

lemma three_elements:
  assumes "length xs = THRES_NUM"
  obtains a b c where "xs = [a, b, c]"
  using assms by (auto simp: THRES_NUM_def length_Suc_conv numeral_eq_Suc)

lemma finish_results:
  assumes "holds_rows t rows fcts" "\<forall>g<THRES_NUM. nat (sr_counter (results t ! g)) \<le> length rows"
    and "\<forall>xs. length (qsort cmp xs) = length xs"
  shows "\<exists>t' fcts'. fold_option (finish_result qsort) [0..<THRES_NUM] t = Some t'
    \<and> holds_rows t' rows fcts' \<and> results t' = map averaged (results t)
    \<and> (\<forall>g<THRES_NUM. let k = nat (sr_counter (results t ! g))
         in take k (fcts' ! g) = qsort cmp (take k (fcts ! g)))"
proof -
  obtain r0 r1 r2 where r: "results t = [r0, r1, r2]"
    using assms(1) by (auto simp: holds_rows_def elim: three_elements)
  obtain f0 f1 f2 where f: "fcts = [f0, f1, f2]"
    using assms(1) by (auto simp: holds_rows_def elim: three_elements)
  have t: "flows_fct t = Some [Some f0, Some f1, Some f2]"
    "length f0 = length rows" "length f1 = length rows" "length f2 = length rows"
    using assms(1) by (auto simp: holds_rows_def f)
  have k: "nat (sr_counter r0) \<le> length f0" "nat (sr_counter r1) \<le> length f1"
    "nat (sr_counter r2) \<le> length f2"
    using assms(2) t by (auto simp: r THRES_NUM_def numeral_eq_Suc)
  define srt where "srt r row = (let k = nat (sr_counter r)
    in qsort cmp (take k row) @ drop k row)" for r :: stat_result and row
  define t' where "t' = t\<lparr>results := map averaged (results t),
    flows_fct := Some [Some (srt r0 f0), Some (srt r1 f1), Some (srt r2 f2)]\<rparr>"
  have "fold_option (finish_result qsort) [0..<THRES_NUM] t = Some t'"
    using k by (simp add: groups_upto finish_result_def c_read_def c_write_def r t t'_def
        srt_def averaged_def [symmetric] Let_def)
  moreover have "length (srt r0 f0) = length rows" "length (srt r1 f1) = length rows"
    "length (srt r2 f2) = length rows"
    using k t assms(3) by (simp_all add: srt_def Let_def)
  then have "holds_rows t' rows [srt r0 f0, srt r1 f1, srt r2 f2]"
    using assms(1) by (simp add: holds_rows_def t'_def THRES_NUM_def)
  moreover have "take (nat (sr_counter r0)) (srt r0 f0) = qsort cmp (take (nat (sr_counter r0)) f0)"
    "take (nat (sr_counter r1)) (srt r1 f1) = qsort cmp (take (nat (sr_counter r1)) f1)"
    "take (nat (sr_counter r2)) (srt r2 f2) = qsort cmp (take (nat (sr_counter r2)) f2)"
    using k assms(3) by (simp_all add: srt_def Let_def)
  then have "\<forall>g<THRES_NUM. let k = nat (sr_counter (results t ! g))
         in take k ([srt r0 f0, srt r1 f1, srt r2 f2] ! g) = qsort cmp (take k (fcts ! g))"
    by (auto simp: THRES_NUM_def r f less_Suc_eq numeral_eq_Suc Let_def)
  ultimately show ?thesis by (auto simp: t'_def)
qed

lemma percentile_in_bounds:
  assumes "holds_rows t rows fcts" "g < THRES_NUM" "sr_counter (results t ! g) = int k"
    "k \<le> length rows" "rows \<noteq> []"
  shows "percentile t g = Some (fcts ! g ! (k * 99 div 100))"
proof -
  have len: "length (results t) = THRES_NUM" "length fcts = THRES_NUM" "flows_fct t = Some (map Some fcts)"
    "length (fcts ! g) = length rows"
    using assms(1) holds_rows_row [OF assms(1,2)] by (simp_all add: holds_rows_def)
  have "k * 99 div 100 < length rows" using assms(4,5) by (cases k) auto
  with len assms(2,3) show ?thesis
    by (simp add: percentile_def c_read_def)
qed

lemma print_results_returns:
  assumes "holds_rows t rows fcts" "rows \<noteq> []" "filename \<noteq> '''' \<Longrightarrow> can"
    and "\<forall>g<THRES_NUM. 0 \<le> sr_counter (results t ! g) \<and> sr_counter (results t ! g) \<le> int (length rows)"
  shows "\<exists>out contents. print_results t filename can = Returned (out, contents)"
proof -
  have "\<exists>p. percentile t g = Some p" if "g < THRES_NUM" for g
    using percentile_in_bounds [OF assms(1) that, of "nat (sr_counter (results t ! g))"] assms(2,4) that
    by auto
  then obtain p0 p1 p2 where "percentile t 0 = Some p0" "percentile t 1 = Some p1" "percentile t 2 = Some p2"
    by (metis THRES_NUM_def zero_less_numeral one_less_numeral_iff semiring_norm(77) lessI numeral_2_eq_2
        numeral_3_eq_3)
  moreover have "length (results t) = 3" using assms(1) by (simp add: holds_rows_def THRES_NUM_def)
  ultimately show ?thesis
    using assms(3) by (auto simp: print_results_def group_file_line_def group_line_def c_read_def Let_def)
qed

text \<open>The mean of numbers that are \<open>int\<close>s is one.\<close>

lemma sum_list_int_bounds:
  assumes "\<forall>x\<in>set xs. is_int x"
  shows "- (2 ^ 31) * int (length xs) \<le> sum_list xs \<and> sum_list xs \<le> (2 ^ 31 - 1) * int (length xs)"
  using assms by (induction xs) (auto simp: is_int_def algebra_simps)

lemma mean_is_int:
  assumes "\<forall>x\<in>set xs. is_int x" "xs \<noteq> []"
  shows "to_int (sum_list xs sdiv int (length xs)) = sum_list xs sdiv int (length xs)"
proof -
  define k where "k = int (length xs)"
  have k: "0 < k" using assms(2) by (simp add: k_def)
  note bd = sum_list_int_bounds [OF assms(1), folded k_def]
  have "- (2 ^ 31) \<le> sum_list xs sdiv k \<and> sum_list xs sdiv k < 2 ^ 31"
  proof (cases "0 \<le> sum_list xs")
    case True
    then have "sum_list xs sdiv k = sum_list xs div k"
      using k by (simp add: signed_divide_int_def sgn_if)
    moreover have "sum_list xs div k \<le> ((2 ^ 31 - 1) * k) div k"
      using bd k by (intro zdiv_mono1) simp_all
    ultimately show ?thesis
      using True k pos_imp_zdiv_nonneg_iff [of k "sum_list xs"] by simp
  next
    case False
    then have "sum_list xs sdiv k = - ((- sum_list xs) div k)"
      using k by (simp add: signed_divide_int_def sgn_if)
    moreover have "(- sum_list xs) div k \<le> (2 ^ 31 * k) div k"
      using bd k by (intro zdiv_mono1) simp_all
    ultimately show ?thesis
      using False k pos_imp_zdiv_nonneg_iff [of k "- sum_list xs"] by simp
  qed
  then show ?thesis by (simp add: k_def to_int_id)
qed

lemma groups_partition:
  "(\<Sum>g<THRES_NUM. length (group_rows g rows)) = length (filter (\<lambda>x. ft_fd x \<noteq> 0) rows)"
proof (induction rows)
  case (Cons x rows)
  have three: "{..<THRES_NUM} = {0, 1, 2}" by (auto simp: THRES_NUM_def)
  have "group_of (ft_flow_size x) \<in> {0, 1, 2}" by (simp add: group_of_def)
  with Cons show ?case by (auto simp: group_rows_def three)
qed (simp add: group_rows_def)

lemma counted_start:
  assumes "results t = map init_result standard_thresholds"
  shows "counted t fcts []"
  using assms
  by (auto simp: counted_def group_rows_def init_result_def zero_result_def standard_thresholds_def
      THRES_NUM_def nth_Cons' less_Suc_eq numeral_eq_Suc)

text \<open>The table after the two loops of \<open>print_statistics\<close>.\<close>

definition summarised :: "((u32 \<Rightarrow> u32 \<Rightarrow> int) \<Rightarrow> u32 list \<Rightarrow> u32 list) \<Rightarrow> flow_time list \<Rightarrow> flow_time_table
    \<Rightarrow> u32 list list \<Rightarrow> bool" where
  "summarised qsort rows t fcts \<longleftrightarrow> holds_rows t rows fcts \<and>
     (\<forall>g<THRES_NUM. let grp = group_rows g rows; r = results t ! g in
         sr_counter r = int (length grp)
       \<and> (grp \<noteq> [] \<longrightarrow>
            sr_avg_flow_size r = sum_list (map ft_flow_size grp) sdiv int (length grp)
          \<and> sr_avg_fct r = sum_list (map ft_fct grp) sdiv int (length grp))
       \<and> take (length grp) (fcts ! g) = qsort cmp (map (\<lambda>x. word_of_int (ft_fct x)) grp))"

lemma averaged_group:
  assumes "counted t fcts rows" "g < THRES_NUM" "group_rows g rows \<noteq> []"
    and "\<forall>x\<in>set rows. is_int (ft_flow_size x) \<and> is_int (ft_fct x)"
  shows "sr_avg_flow_size (averaged (results t ! g))
      = sum_list (map ft_flow_size (group_rows g rows)) sdiv int (length (group_rows g rows))"
    and "sr_avg_fct (averaged (results t ! g))
      = sum_list (map ft_fct (group_rows g rows)) sdiv int (length (group_rows g rows))"
proof -
  define grp where "grp = group_rows g rows"
  have "set grp \<subseteq> set rows" by (auto simp: grp_def group_rows_def)
  then have "to_int (sum_list (map f grp) sdiv int (length (map f grp)))
      = sum_list (map f grp) sdiv int (length (map f grp))" if "f = ft_flow_size \<or> f = ft_fct" for f
    using that assms(3,4) by (intro mean_is_int) (auto simp: grp_def)
  then show "sr_avg_flow_size (averaged (results t ! g))
      = sum_list (map ft_flow_size (group_rows g rows)) sdiv int (length (group_rows g rows))"
    and "sr_avg_fct (averaged (results t ! g))
      = sum_list (map ft_fct (group_rows g rows)) sdiv int (length (group_rows g rows))"
    using assms(1-3) by (simp_all add: counted_def averaged_def grp_def)
qed

lemma loops_summarise:
  assumes "holds_rows t rows fcts" "results t = map init_result standard_thresholds"
    and "\<forall>x\<in>set rows. is_int (ft_flow_size x) \<and> is_int (ft_fct x)"
    and "\<forall>xs. length (qsort cmp xs) = length xs"
  shows "\<exists>t1 c out t2 fcts2.
    fold_option (stat_round verbose) [0..<nat (max_entries t)] (t, 0, []) = Some (t1, c, out)
    \<and> fold_option (finish_result qsort) [0..<THRES_NUM] t1 = Some t2 \<and> summarised qsort rows t2 fcts2"
proof -
  have n: "nat (max_entries t) = length rows" using assms(1) by (simp add: holds_rows_def)
  obtain t1 fcts1 c out where t1:
    "fold_option (stat_round verbose) [0..<length rows] (t, 0, []) = Some (t1, c, out)"
    "holds_rows t1 rows fcts1" "counted t1 fcts1 rows"
    using stat_loop [OF assms(1) counted_start [OF assms(2)], of "length rows" verbose 0 "[]"] assms(3)
    by auto
  have cnt: "sr_counter (results t1 ! g) = int (length (group_rows g rows))"
    "take (length (group_rows g rows)) (fcts1 ! g)
       = map (\<lambda>x. word_of_int (ft_fct x)) (group_rows g rows)" if "g < THRES_NUM" for g
    using t1(3) that by (simp_all add: counted_def)
  then have "\<forall>g<THRES_NUM. nat (sr_counter (results t1 ! g)) \<le> length rows"
    by (simp add: length_group_rows)
  then obtain t2 fcts2 where t2: "fold_option (finish_result qsort) [0..<THRES_NUM] t1 = Some t2"
    "holds_rows t2 rows fcts2" "results t2 = map averaged (results t1)"
    "\<forall>g<THRES_NUM. let k = nat (sr_counter (results t1 ! g))
         in take k (fcts2 ! g) = qsort cmp (take k (fcts1 ! g))"
    using finish_results [OF t1(2), of qsort] assms(4) by blast
  have "length (results t1) = THRES_NUM" using t1(2) by (simp add: holds_rows_def)
  then have "summarised qsort rows t2 fcts2"
    using t2(2,4) cnt averaged_group [OF t1(3) _ _ assms(3)]
    by (simp add: summarised_def t2(3) Let_def)
  with t1(1) t2(1) n show ?thesis by auto
qed

lemma summarised_percentile:
  assumes "summarised qsort rows t fcts" "g < THRES_NUM" "group_rows g rows \<noteq> []"
  shows "percentile t g = Some (qsort cmp (map (\<lambda>x. word_of_int (ft_fct x)) (group_rows g rows))
      ! (length (group_rows g rows) * 99 div 100))"
proof -
  let ?k = "length (group_rows g rows)"
  have "rows \<noteq> []" using assms(3) by (auto simp: group_rows_def)
  then have "percentile t g = Some (fcts ! g ! (?k * 99 div 100))"
    using assms(1,2) length_group_rows
    by (intro percentile_in_bounds) (simp_all add: summarised_def Let_def)
  moreover have "?k * 99 div 100 < ?k" using assms(3) by (cases "group_rows g rows") auto
  moreover have "take ?k (fcts ! g) = qsort cmp (map (\<lambda>x. word_of_int (ft_fct x)) (group_rows g rows))"
    using assms(1,2) by (simp add: summarised_def Let_def)
  ultimately show ?thesis by (metis nth_take)
qed

lemma summarised_total:
  assumes "summarised qsort rows t fcts"
  shows "(\<Sum>g<THRES_NUM. sr_counter (results t ! g)) = int (length (filter (\<lambda>x. ft_fd x \<noteq> 0) rows))"
proof -
  have "(\<Sum>g<THRES_NUM. sr_counter (results t ! g)) = (\<Sum>g<THRES_NUM. int (length (group_rows g rows)))"
    using assms by (intro sum.cong) (simp_all add: summarised_def Let_def)
  also have "\<dots> = int (length (filter (\<lambda>x. ft_fd x \<noteq> 0) rows))"
    by (simp only: of_nat_sum [symmetric] groups_partition)
  finally show ?thesis .
qed

lemma print_statistics_returns:
  assumes "holds_rows t rows fcts" "rows \<noteq> []" "results t = map init_result standard_thresholds"
    and "\<forall>x\<in>set rows. is_int (ft_flow_size x) \<and> is_int (ft_fct x)"
    and "\<forall>xs. mset (qsort cmp xs) = mset xs" "\<forall>name. can_open name"
  shows "\<exists>t' out results_text stats_text.
    print_statistics qsort can_open t filename stats_filename
      = Returned (t', out, results_text, stats_text)
    \<and> (\<Sum>g<THRES_NUM. sr_counter (results t' ! g)) = int (length (filter (\<lambda>x. ft_fd x \<noteq> 0) rows))
    \<and> (\<forall>g<THRES_NUM. let grp = group_rows g rows; r = results t' ! g in
         sr_counter r = int (length grp)
       \<and> (grp \<noteq> [] \<longrightarrow>
            sr_avg_flow_size r = sum_list (map ft_flow_size grp) sdiv int (length grp)
          \<and> sr_avg_fct r = sum_list (map ft_fct grp) sdiv int (length grp)
          \<and> percentile t' g =
              Some (qsort cmp (map (\<lambda>x. word_of_int (ft_fct x)) grp) ! (length grp * 99 div 100))))"
proof -
  have "\<forall>xs. length (qsort cmp xs) = length xs" using assms(5) by (metis size_mset)
  then obtain t1 c lines t2 fcts2 where loops:
    "fold_option (stat_round (filename = '''')) [0..<nat (max_entries t)] (t, 0, []) = Some (t1, c, lines)"
    "fold_option (finish_result qsort) [0..<THRES_NUM] t1 = Some t2" "summarised qsort rows t2 fcts2"
    using loops_summarise [OF assms(1,3,4)] by blast
  then have group: "holds_rows t2 rows fcts2"
    "\<forall>g<THRES_NUM. sr_counter (results t2 ! g) = int (length (group_rows g rows))"
    by (simp_all add: summarised_def Let_def)
  obtain out stats where
    "print_results t2 stats_filename (can_open stats_filename) = Returned (out, stats)"
    using print_results_returns [OF group(1) assms(2), of stats_filename] assms(6) group(2)
      length_group_rows by fastforce
  then have "\<exists>out' results_text. print_statistics qsort can_open t filename stats_filename
      = Returned (t2, out', results_text, stats)"
    using loops assms(6) by (auto simp: print_statistics_def Let_def)
  then show ?thesis
    using summarised_total [OF loops(3)] summarised_percentile [OF loops(3)] loops(3)
    by (auto simp: summarised_def Let_def)
qed


definition recorded_rows :: "flow_time list" where
  "recorded_rows = [zero_time, zero_time\<lparr>ft_fd := 1, ft_flow_size := 500, ft_fct := 30\<rparr>,
     zero_time\<lparr>ft_fd := 2, ft_flow_size := 900, ft_fct := 41\<rparr>,
     zero_time\<lparr>ft_fd := 3, ft_flow_size := 20000000, ft_fct := 70000\<rparr>]"

definition recorded_times :: flow_time_table where
  "recorded_times = sample_times\<lparr>max_entries := 4, flows_time := Some (map Some recorded_rows),
     flows_fct := Some (map Some (replicate THRES_NUM (replicate 4 0)))\<rparr>"

lemma recorded_facts:
  "holds_rows recorded_times recorded_rows (replicate THRES_NUM (replicate 4 0))"
  "recorded_rows \<noteq> []" "results recorded_times = map init_result standard_thresholds"
  "\<forall>x\<in>set recorded_rows. is_int (ft_flow_size x) \<and> is_int (ft_fct x)"
  by (simp_all add: holds_rows_def recorded_times_def sample_times_def recorded_rows_def THRES_NUM_def
      standard_thresholds_def is_int_def zero_time_def)


end
