(* ===== verification/FG_Payload.thy ===== *)
theory FG_Payload
  imports FG_Common
begin

text \<open>
  The payload of a request, from \<open>flow_generator/src/common/payload.c\<close> and \<open>payload.h\<close>: the
  size of the flow the client asks for, as four bytes.
\<close>

definition PAYLOAD_SIZE :: nat where
  "PAYLOAD_SIZE = 4"

record request_format =
  req_flow_size :: u32

definition init_payload :: "request_format \<Rightarrow> request_format" where
  "init_payload req = req\<lparr>req_flow_size := 0\<rparr>"

definition set_flow_size :: "request_format \<Rightarrow> u32 \<Rightarrow> request_format" where
  "set_flow_size req size' = req\<lparr>req_flow_size := size'\<rparr>"

definition serialize_payload :: "u8 list \<Rightarrow> nat \<Rightarrow> request_format \<Rightarrow> (u8 list \<times> nat) option" where
  "serialize_payload mem buffer req = serialize_u32 mem buffer (req_flow_size req)"

definition deserialize_payload ::
    "u8 list \<Rightarrow> nat \<Rightarrow> request_format \<Rightarrow> request_format option" where
  "deserialize_payload mem buffer req =
     do {
       v \<leftarrow> deserialize_u32 mem buffer;
       Some (req\<lparr>req_flow_size := v\<rparr>)
     }"

text \<open>The payload is a codec too: decoding ignores the previous content of the request.\<close>

lemma request_eqI: "req_flow_size r = req_flow_size s \<Longrightarrow> r = (s :: request_format)"
  by (cases r, cases s) simp

interpretation payload_codec: codec PAYLOAD_SIZE serialize_payload
    "\<lambda>mem p. deserialize_payload mem p r" "\<lambda>req. be_bytes 4 (req_flow_size req)"
  for r :: request_format
proof
  show "deserialize_payload (pre @ be_bytes 4 (req_flow_size v) @ post) (length pre) r = Some v"
    for pre v post
    by (simp add: deserialize_payload_def u32_codec.dec_bytes request_eqI)
qed (simp_all add: PAYLOAD_SIZE_def serialize_payload_def u32_codec.enc_writes)

lemma serialize_whole_payload:
  "length mem = PAYLOAD_SIZE \<Longrightarrow>
     serialize_payload mem 0 req = Some (be_bytes 4 (req_flow_size req), 4)"
  by (simp add: payload_codec.enc_writes) (simp add: PAYLOAD_SIZE_def)

lemma deserialize_whole_payload:
  "deserialize_payload (be_bytes 4 v) 0 req = Some \<lparr>req_flow_size = v\<rparr>"
  using payload_codec.dec_bytes [of "[]" "\<lparr>req_flow_size = v\<rparr>" "[]" req] by simp

end
