(* ===== verification/FG_Network.thy ===== *)
theory FG_Network
  imports FG_Payload
begin

text \<open>
  Sockets of the traffic generator, from \<open>flow_generator/src/common/network.c\<close> and
  \<open>network.h\<close>: finding the local addresses, making connections and listening sockets, and the
  request and response transfers.

  The answers of the system calls are arguments: one value for a call made once, the list of
  answers for a loop.  \<open>Read bs\<close> is a \<open>read\<close> that returned the bytes \<open>bs\<close>
  (none: the peer has closed), \<open>Wrote n\<close> a \<open>write\<close> that took \<open>n\<close> bytes.  That a \<open>read\<close> returns and a
  \<open>write\<close> takes no more than was asked for is a hypothesis where it matters.
\<close>

section \<open>Constants and data\<close>

definition DEV_NAME_LEN :: nat where
  "DEV_NAME_LEN = 16"

definition MAX_IPS :: nat where
  "MAX_IPS = 16"

definition NI_MAXHOST :: nat where
  "NI_MAXHOST = 1025"

definition MAX_READ_BUFF :: nat where
  "MAX_READ_BUFF = 2 ^ 16"

definition MAX_WRITE_BUFF :: nat where
  "MAX_WRITE_BUFF = 2 ^ 16"

definition AF_INET :: int where
  "AF_INET = 2"

definition O_NONBLOCK :: int where
  "O_NONBLOCK = 2048"

datatype errno = EAGAIN | EINTR | EINPROGRESS | Other_errno nat

datatype read_result = Read "u8 list" | Read_error errno

datatype write_result = Wrote nat | Write_error errno

record connection_four_tuples =
  saddr :: string
  daddr :: string
  sport :: u32
  dport :: u32

record src_ips =
  ips_dev :: string
  ips_ips :: "string list"
  ips_num :: nat

record sockaddr_in =
  sin_family :: int
  s_addr :: u32
  sin_port :: u16

section \<open>Memory blocks\<close>

text \<open>\<open>c_blit buf bs\<close> stores \<open>bs\<close> at the start of \<open>buf\<close>, as \<open>read\<close> and \<open>memset\<close> do.\<close>

definition c_blit :: "'a list \<Rightarrow> 'a list \<Rightarrow> 'a list option" where
  "c_blit buf bs = (if length bs \<le> length buf then Some (bs @ drop (length bs) buf) else None)"

definition c_memset :: "'a list \<Rightarrow> 'a \<Rightarrow> nat \<Rightarrow> 'a list option" where
  "c_memset buf v n = c_blit buf (replicate n v)"

lemma c_blit_in_bounds [c_array]:
  "length bs \<le> length buf \<Longrightarrow> c_blit buf bs = Some (bs @ drop (length bs) buf)"
  by (simp add: c_blit_def)

lemma length_c_blit: "c_blit buf bs = Some buf' \<Longrightarrow> length buf' = length buf"
  by (auto simp: c_blit_def split: if_splits)

section \<open>Local addresses\<close>

text \<open>\<open>init_ips\<close> clears the whole structure.\<close>

definition init_ips :: "src_ips" where
  "init_ips = \<lparr>ips_dev = '''', ips_ips = replicate MAX_IPS '''', ips_num = 0\<rparr>"

text \<open>
  An entry of the list \<open>getifaddrs\<close> returns: its name, the family of its address (none if the
  address is NULL), and the numeric host name \<open>getnameinfo\<close> gives for it (none if it fails).
\<close>

record ifaddr =
  ifa_name :: string
  ifa_family :: "int option"
  ifa_host :: "string option"

fun is_prefix :: "string \<Rightarrow> string \<Rightarrow> bool" where
  "is_prefix [] ds = True"
| "is_prefix (c # cs) [] = False"
| "is_prefix (c # cs) (d # ds) = (c = d \<and> is_prefix cs ds)"

text \<open>\<open>strstr(haystack, needle) != NULL\<close>\<close>

fun c_strstr :: "string \<Rightarrow> string \<Rightarrow> bool" where
  "c_strstr [] needle = (needle = [])"
| "c_strstr (c # cs) needle = (is_prefix needle (c # cs) \<or> c_strstr cs needle)"

fun collect_ips :: "string \<Rightarrow> string \<Rightarrow> ifaddr list \<Rightarrow> src_ips \<Rightarrow> src_ips run" where
  "collect_ips dev vdev [] ips = Returned ips"
| "collect_ips dev vdev (ifa # rest) ips =
     (case ifa_family ifa of
        None \<Rightarrow> collect_ips dev vdev rest ips
      | Some family \<Rightarrow>
          if family \<noteq> AF_INET \<or> \<not> c_strstr (ifa_name ifa) vdev \<and> ifa_name ifa \<noteq> dev
          then collect_ips dev vdev rest ips
          else case ifa_host ifa of
            None \<Rightarrow> Exited EXIT_FAILURE
          | Some host \<Rightarrow>
              run_bind (of_access (c_strcpy NI_MAXHOST host)) (\<lambda>h.
              run_bind (of_access (c_write (ips_ips ips) (ips_num ips) h)) (\<lambda>entries.
                let ips' = ips\<lparr>ips_ips := entries, ips_num := ips_num ips + 1\<rparr> in
                if MAX_IPS < ips_num ips' then Returned ips'
                else collect_ips dev vdev rest ips')))"

definition get_src_ips ::
    "ifaddr list option \<Rightarrow> src_ips \<Rightarrow> string \<Rightarrow> (src_ips \<times> nat) run" where
  "get_src_ips ifaddrs ips dev =
     (if ips_num ips \<noteq> 0 then Aborted
      else if length dev = 0 then Exited EXIT_FAILURE
      else
        run_bind (of_access (c_strcpy DEV_NAME_LEN dev)) (\<lambda>d.
        case ifaddrs of
          None \<Rightarrow> Exited EXIT_FAILURE
        | Some ifaddr \<Rightarrow>
            run_bind (of_access (c_strcpy DEV_NAME_LEN dev)) (\<lambda>v.
            run_bind (of_access (c_strcat DEV_NAME_LEN v '':'')) (\<lambda>vdev.
            run_bind (collect_ips dev vdev ifaddr (ips\<lparr>ips_dev := d\<rparr>)) (\<lambda>ips'.
              Returned (ips', ips_num ips'))))))"

definition print_src_ips :: "src_ips \<Rightarrow> string" where
  "print_src_ips ips =
     print_split ''Source IPs information''
     @ ''The device name is '' @ ips_dev ips @ newline
     @ (if ips_num ips = 0 then ''None available source IPs'' @ newline
        else ''Client IP '' @ (if ips_num ips \<le> 1 then ''is'' else ''are'') @ '': '' @ newline
          @ concat (map (\<lambda>i. ''IP '' @ show_nat i @ '': '' @ ips_ips ips ! i @ newline)
              [0..<ips_num ips]))"

section \<open>Making connections\<close>

definition set_sockaddr_client ::
    "(string \<Rightarrow> u32) \<Rightarrow> connection_four_tuples \<Rightarrow> sockaddr_in" where
  "set_sockaddr_client inet_addr conn =
     \<lparr>sin_family = AF_INET, s_addr = inet_addr (saddr conn), sin_port = htons (ucast (sport conn))\<rparr>"

definition set_sockaddr_server ::
    "(string \<Rightarrow> u32) \<Rightarrow> connection_four_tuples \<Rightarrow> sockaddr_in" where
  "set_sockaddr_server inet_addr conn =
     \<lparr>sin_family = AF_INET, s_addr = inet_addr (daddr conn), sin_port = htons (ucast (dport conn))\<rparr>"

text \<open>The system calls a function makes, in order.\<close>

datatype net_call =
    Socket
  | Bind int sockaddr_in
  | Get_flags int
  | Set_flags int int
  | Set_option int string
  | Connect int sockaddr_in
  | Close int

text \<open>
  \<open>make_socket_nonblocking sfd getfl setfl\<close>: the answers of the two \<open>fcntl\<close> calls are the last
  arguments; the result is the value returned and the calls made.
\<close>

definition make_socket_nonblocking :: "int \<Rightarrow> int \<Rightarrow> int \<Rightarrow> int \<times> net_call list" where
  "make_socket_nonblocking sfd getfl setfl =
     (if getfl = -1 then (-1, [Get_flags sfd])
      else
        let flag = getfl OR O_NONBLOCK in
        if setfl = -1 then (-1, [Get_flags sfd, Set_flags sfd flag])
        else (0, [Get_flags sfd, Set_flags sfd flag]))"

text \<open>The answers of the calls \<open>create_connection\<close> makes.\<close>

record connect_answers =
  ans_socket :: int
  ans_bind :: int
  ans_getfl :: int
  ans_setfl :: int
  ans_connect :: int
  ans_errno :: errno

definition create_connection ::
    "(string \<Rightarrow> u32) \<Rightarrow> connection_four_tuples \<Rightarrow> connect_answers \<Rightarrow> int \<times> net_call list" where
  "create_connection inet_addr conn a =
     (let client = set_sockaddr_client inet_addr conn;
          server = set_sockaddr_server inet_addr conn;
          sockfd = ans_socket a
      in if sockfd < 0 then (EXIT_FAILURE, [Socket])
         else if ans_bind a < 0 then (EXIT_FAILURE, [Socket, Bind sockfd client])
         else
           let (r, fcntls) = make_socket_nonblocking sockfd (ans_getfl a) (ans_setfl a);
               calls = [Socket, Bind sockfd client] @ fcntls @ [Connect sockfd server]
           in if ans_connect a < 0 \<and> ans_errno a \<noteq> EINPROGRESS
              then (EXIT_FAILURE, calls @ [Close sockfd])
              else (sockfd, calls))"

section \<open>Requests\<close>

text \<open>
  \<open>write_request\<close> returns the bytes it hands to \<open>write\<close> and its result.  The arguments \<open>stack\<close>
  and \<open>req\<close> are what the uninitialised local variables hold.
\<close>

definition write_request ::
    "u8 list \<Rightarrow> request_format \<Rightarrow> int \<Rightarrow> write_result \<Rightarrow> (u8 list \<times> int) run" where
  "write_request stack req flow_size w =
     (let req1 = set_flow_size (init_payload req) (word_of_int flow_size) in
      run_bind (of_access (serialize_payload stack 0 req1)) (\<lambda>(payload, pbuf).
        let count = (case w of Wrote n \<Rightarrow> int n | Write_error e \<Rightarrow> -1) in
        Returned (take pbuf payload,
          if count = -1 then
            (if w \<noteq> Write_error EINTR \<and> w \<noteq> Write_error EAGAIN then -1 else 0)
          else count)))"

definition read_request :: "u8 list \<Rightarrow> request_format \<Rightarrow> read_result \<Rightarrow> int run" where
  "read_request stack req r =
     (case r of
        Read_error e \<Rightarrow> Returned (if e \<noteq> EAGAIN \<and> e \<noteq> EINTR then -1 else 0)
      | Read bs \<Rightarrow>
          if bs = [] then Returned 0
          else
            run_bind (of_access (c_blit stack bs)) (\<lambda>payload.
            run_bind (of_access (deserialize_payload payload 0 req)) (\<lambda>req'.
              Returned (sint (req_flow_size req')))))"

section \<open>Responses\<close>

fun read_responce_loop ::
    "int \<Rightarrow> int \<Rightarrow> u8 list \<Rightarrow> read_result list \<Rightarrow> (int \<times> read_result list) run" where
  "read_responce_loop flow_size amount buf [] = Blocked"
| "read_responce_loop flow_size amount buf (Read_error e # rs) =
     (if e \<noteq> EAGAIN \<and> e \<noteq> EINTR then Returned (-1, rs)
      else if amount \<ge> flow_size then Returned (amount, rs)
      else read_responce_loop flow_size amount buf rs)"
| "read_responce_loop flow_size amount buf (Read bs # rs) =
     run_bind (of_access (c_blit buf bs)) (\<lambda>buf'.
       if bs = [] then Returned (0, rs)
       else
         let amount' = amount + int (length bs) in
         if INT_MAX < amount' then Faulted
         else if amount' \<ge> flow_size then Returned (amount', rs)
         else read_responce_loop flow_size amount' buf' rs)"

definition read_responce ::
    "u8 list \<Rightarrow> int \<Rightarrow> read_result list \<Rightarrow> (int \<times> read_result list) run" where
  "read_responce stack flow_size rs = read_responce_loop flow_size 0 stack rs"

definition set_buffer_data :: "u8 list \<Rightarrow> int \<Rightarrow> u8 list run" where
  "set_buffer_data buf size' =
     (if size' < 0 then Faulted else of_access (c_memset buf 0 (nat size')))"

text \<open>The bytes handed to \<open>write\<close>, and its answer.\<close>

definition write_unit_responce ::
    "u8 list \<Rightarrow> int \<Rightarrow> write_result \<Rightarrow> (u8 list \<times> write_result) run" where
  "write_unit_responce stack size' w =
     (if \<not> size' \<le> int MAX_WRITE_BUFF then Aborted
      else run_bind (set_buffer_data stack size') (\<lambda>buf. Returned (take (nat size') buf, w)))"

text \<open>
  \<open>write_responce\<close> also returns how many bytes it asked each \<open>write\<close> to take.
\<close>

fun write_responce_loop ::
    "u8 list \<Rightarrow> int \<Rightarrow> int \<Rightarrow> nat list \<Rightarrow> write_result list \<Rightarrow> (int \<times> nat list) run" where
  "write_responce_loop stack left_size amount asked [] =
     (if left_size > 0 then Blocked else Returned (amount, asked))"
| "write_responce_loop stack left_size amount asked (w # ws) =
     (if left_size > 0 then
        run_bind
          (if left_size > int MAX_WRITE_BUFF then write_unit_responce stack (int MAX_WRITE_BUFF) w
           else write_unit_responce stack left_size w)
          (\<lambda>(bytes, answer).
             case answer of
               Write_error e \<Rightarrow>
                 if e \<noteq> EAGAIN \<and> e \<noteq> EINTR then Returned (-1, asked @ [length bytes])
                 else write_responce_loop stack left_size amount (asked @ [length bytes]) ws
             | Wrote n \<Rightarrow>
                 if INT_MAX < amount + int n then Faulted
                 else write_responce_loop stack (left_size - int n) (amount + int n)
                   (asked @ [length bytes]) ws)
      else Returned (amount, asked))"

definition write_responce ::
    "u8 list \<Rightarrow> int \<Rightarrow> write_result list \<Rightarrow> (int \<times> nat list) run" where
  "write_responce stack flow_size ws = write_responce_loop stack flow_size 0 [] ws"

section \<open>Listening\<close>

text \<open>
  For each address \<open>getaddrinfo\<close> finds, the answers of \<open>socket\<close> and \<open>bind\<close>.  The result is the
  bound socket, if any, and the sockets closed on the way.
\<close>

fun bind_first :: "(int \<times> int) list \<Rightarrow> int option \<times> int list" where
  "bind_first [] = (None, [])"
| "bind_first ((sfd, s) # rest) =
     (if sfd = -1 then bind_first rest
      else if s = 0 then (Some sfd, [])
      else let (r, closed) = bind_first rest in (r, sfd # closed))"

definition create_and_bind :: "int \<Rightarrow> (int \<times> int) list \<Rightarrow> u32 \<Rightarrow> (int \<times> int list) run" where
  "create_and_bind gai addrs port =
     run_bind (of_access (c_strcpy 10 (show_nat (unat port)))) (\<lambda>server.
       if gai \<noteq> 0 then Returned (-1, [])
       else case bind_first addrs of
           (None, closed) \<Rightarrow> Returned (-1, closed)
         | (Some sfd, closed) \<Rightarrow> Returned (sfd, closed))"

definition set_socket :: "int \<Rightarrow> int \<Rightarrow> int \<Rightarrow> int \<Rightarrow> int \<Rightarrow> int \<times> net_call list" where
  "set_socket fd keepalive_ans reuseaddr_ans getfl setfl =
     (if keepalive_ans \<noteq> 0 then (-1, [Set_option fd ''SO_KEEPALIVE''])
      else if reuseaddr_ans \<noteq> 0
      then (-1, [Set_option fd ''SO_KEEPALIVE'', Set_option fd ''SO_REUSEADDR''])
      else
        let (r, fcntls) = make_socket_nonblocking fd getfl setfl;
            calls = [Set_option fd ''SO_KEEPALIVE'', Set_option fd ''SO_REUSEADDR''] @ fcntls
        in if r = -1 then (-1, calls) else (0, calls))"

end
