(* ===== verification/FG_Sockets.thy ===== *)
theory FG_Sockets
  imports FG_Network
begin

text \<open>
  What the address and connection functions of \<open>flow_generator/src/common/network.c\<close> do: which
  addresses are found and when the arrays overflow, what a failed connection leaves open, and
  which socket a server listens on.
\<close>

section \<open>Local addresses\<close>

text \<open>
  An entry counts if it is an IPv4 address of the device or of one of its virtual devices
  (the device's name, a colon and a number).
\<close>

definition is_selected :: "string \<Rightarrow> ifaddr \<Rightarrow> bool" where
  "is_selected dev ifa \<longleftrightarrow>
     ifa_family ifa = Some AF_INET \<and> (c_strstr (ifa_name ifa) (dev @ '':'') \<or> ifa_name ifa = dev)"

definition has_host :: "ifaddr \<Rightarrow> bool" where
  "has_host ifa \<longleftrightarrow> (\<exists>h. ifa_host ifa = Some h \<and> length h < NI_MAXHOST)"

definition ips_of :: "string \<Rightarrow> string list \<Rightarrow> src_ips" where
  "ips_of dev hosts = \<lparr>ips_dev = dev, ips_ips = hosts @ replicate (MAX_IPS - length hosts) '''',
     ips_num = length hosts\<rparr>"

lemma write_next_host:
  "length hosts < MAX_IPS \<Longrightarrow>
     c_write (hosts @ replicate (MAX_IPS - length hosts) '''') (length hosts) h
       = Some ((hosts @ [h]) @ replicate (MAX_IPS - length (hosts @ [h])) '''')"
  by (simp add: c_write_def list_update_append Suc_diff_Suc [symmetric])

lemma collect_ips_spec:
  assumes "list_all (\<lambda>ifa. is_selected dev ifa \<longrightarrow> has_host ifa) addrs" "length hosts \<le> MAX_IPS"
  shows "collect_ips dev (dev @ '':'') addrs (ips_of d hosts) =
    (let found = hosts @ map (the \<circ> ifa_host) (filter (is_selected dev) addrs) in
     if length found \<le> MAX_IPS then Returned (ips_of d found) else Faulted)"
  using assms
proof (induction addrs arbitrary: hosts)
  case (Cons ifa addrs)
  show ?case
  proof (cases "is_selected dev ifa")
    case False
    then have "collect_ips dev (dev @ '':'') (ifa # addrs) (ips_of d hosts)
        = collect_ips dev (dev @ '':'') addrs (ips_of d hosts)"
      by (auto simp: is_selected_def split: option.split)
    with Cons False show ?thesis by simp
  next
    case True
    then obtain h where h: "ifa_host ifa = Some h" "length h < NI_MAXHOST"
      using Cons.prems(1) by (auto simp: has_host_def)
    have sel: "ifa_family ifa = Some AF_INET"
      "c_strstr (ifa_name ifa) (dev @ '':'') \<or> ifa_name ifa = dev"
      using True by (simp_all add: is_selected_def)
    show ?thesis
    proof (cases "length hosts < MAX_IPS")
      case False
      then have "c_write (hosts @ replicate (MAX_IPS - length hosts) '''') (length hosts) h = None"
        by (simp add: c_write_def)
      with False True Cons.prems(2) h sel show ?thesis
        by (auto simp: ips_of_def c_strcpy_def)
    next
      case room: True
      then have "collect_ips dev (dev @ '':'') (ifa # addrs) (ips_of d hosts)
          = collect_ips dev (dev @ '':'') addrs (ips_of d (hosts @ [h]))"
        using h sel write_next_host [of hosts h] by (auto simp: ips_of_def c_strcpy_def)
      with Cons.IH [of "hosts @ [h]"] Cons.prems room True h show ?thesis by simp
    qed
  qed
qed (simp add: Let_def)

lemma init_ips_empty: "init_ips\<lparr>ips_dev := d\<rparr> = ips_of d []"
  by (simp add: init_ips_def ips_of_def)

lemma get_src_ips_returns:
  assumes "dev \<noteq> ''''" "list_all (\<lambda>ifa. is_selected dev ifa \<longrightarrow> has_host ifa) addrs"
  shows "get_src_ips (Some addrs) init_ips dev =
    (let found = map (the \<circ> ifa_host) (filter (is_selected dev) addrs) in
     if length dev < 15 \<and> length found \<le> MAX_IPS
     then Returned (ips_of dev found, length found) else Faulted)"
proof -
  have collect: "collect_ips dev (dev @ '':'') addrs (ips_of dev []) =
      (let found = map (the \<circ> ifa_host) (filter (is_selected dev) addrs) in
       if length found \<le> MAX_IPS then Returned (ips_of dev found) else Faulted)"
    using collect_ips_spec [OF assms(2), of "[]"] by simp
  have zero: "ips_num init_ips = 0" by (simp add: init_ips_def)
  show ?thesis
  proof (cases "length dev < 15")
    case True
    then have "c_strcpy DEV_NAME_LEN dev = Some dev"
      "c_strcat DEV_NAME_LEN dev '':'' = Some (dev @ '':'')"
      by (simp_all add: c_strcpy_def c_strcat_def DEV_NAME_LEN_def)
    with True assms(1) zero collect show ?thesis
      by (simp add: get_src_ips_def init_ips_empty Let_def ips_of_def)
  next
    case False
    then have "c_strcat DEV_NAME_LEN dev '':'' = None"
      by (simp add: c_strcpy_def c_strcat_def DEV_NAME_LEN_def)
    with False assms(1) zero show ?thesis
      by (simp add: get_src_ips_def c_strcpy_def)
  qed
qed

text \<open>
  C34.  When every selected address has a host name that fits, \<open>get_src_ips\<close> stores the host names
  of the selected addresses in order and returns their number, if there are at most 16 and the
  device's name has at most 14 characters.  With a 17th address it writes behind the array, because
  the counter is only compared with \<open>MAX_IPS\<close> after the write and with \<open>>\<close>; with a name of 15
  characters, which \<open>dev\<close> holds, appending the colon overflows \<open>vdev\<close>.
\<close>

theorem local_addresses:
  assumes "dev \<noteq> ''''" "list_all (\<lambda>ifa. is_selected dev ifa \<longrightarrow> has_host ifa) addrs"
  shows "get_src_ips (Some addrs) init_ips dev =
    (let found = map (the \<circ> ifa_host) (filter (is_selected dev) addrs) in
     if length dev < 15 \<and> length found \<le> MAX_IPS
     then Returned (ips_of dev found, length found) else Faulted)"
  using assms by (rule get_src_ips_returns)

definition eth0_addr :: ifaddr where
  "eth0_addr = \<lparr>ifa_name = ''eth0'', ifa_family = Some AF_INET, ifa_host = Some ''10.0.0.1''\<rparr>"

theorem local_addresses_witness:
  "get_src_ips (Some [eth0_addr, eth0_addr\<lparr>ifa_name := ''lo''\<rparr>,
       eth0_addr\<lparr>ifa_name := ''eth0:1'', ifa_host := Some ''10.0.0.2''\<rparr>]) init_ips ''eth0''
     = Returned (ips_of ''eth0'' [''10.0.0.1'', ''10.0.0.2''], 2)
   \<and> get_src_ips (Some (replicate 17 eth0_addr)) init_ips ''eth0'' = Faulted"
proof -
  have sel: "is_selected ''eth0'' eth0_addr"
    "\<not> is_selected ''eth0'' (eth0_addr\<lparr>ifa_name := ''lo''\<rparr>)"
    "is_selected ''eth0'' (eth0_addr\<lparr>ifa_name := ''eth0:1'', ifa_host := Some ''10.0.0.2''\<rparr>)"
    by (simp_all add: is_selected_def eth0_addr_def)
  have host: "has_host eth0_addr"
    "has_host (eth0_addr\<lparr>ifa_name := ''eth0:1'', ifa_host := Some ''10.0.0.2''\<rparr>)"
    by (simp_all add: has_host_def eth0_addr_def NI_MAXHOST_def)
  have "get_src_ips (Some [eth0_addr, eth0_addr\<lparr>ifa_name := ''lo''\<rparr>,
       eth0_addr\<lparr>ifa_name := ''eth0:1'', ifa_host := Some ''10.0.0.2''\<rparr>]) init_ips ''eth0''
     = Returned (ips_of ''eth0'' [''10.0.0.1'', ''10.0.0.2''], 2)"
    using sel host
    by (subst local_addresses) (simp_all add: MAX_IPS_def, simp_all add: eth0_addr_def)
  moreover have "get_src_ips (Some (replicate 17 eth0_addr)) init_ips ''eth0'' = Faulted"
    using sel host
    by (subst local_addresses) (simp_all add: MAX_IPS_def list_all_iff)
  ultimately show ?thesis by simp
qed

section \<open>Connections\<close>

text \<open>The sockets a sequence of calls leaves open, given the answer of \<open>socket\<close>.\<close>

fun open_after :: "int \<Rightarrow> net_call list \<Rightarrow> int set \<Rightarrow> int set" where
  "open_after s [] fds = fds"
| "open_after s (Socket # calls) fds =
     open_after s calls (if 0 \<le> s then insert s fds else fds)"
| "open_after s (Close fd # calls) fds = open_after s calls (fds - {fd})"
| "open_after s (_ # calls) fds = open_after s calls fds"

lemma open_after_append: "open_after s (xs @ ys) fds = open_after s ys (open_after s xs fds)"
  by (induction s xs fds rule: open_after.induct) auto

lemma open_after_nonblocking:
  "open_after s (snd (make_socket_nonblocking fd getfl setfl)) fds = fds"
  by (simp add: make_socket_nonblocking_def Let_def)

text \<open>
  \<open>create_connection\<close> returns the socket exactly if it could be created and bound and the
  connection is made or in progress; it then is the only socket left open.  Otherwise it returns
  1 (\<open>EXIT_FAILURE\<close>) and leaves nothing open, except when \<open>bind\<close> fails: then the socket stays open
  and its number is lost.
\<close>

theorem create_connection_outcome:
  "let (r, calls) = create_connection inet_addr conn a;
       ok = (0 \<le> ans_socket a \<and> 0 \<le> ans_bind a
             \<and> (0 \<le> ans_connect a \<or> ans_errno a = EINPROGRESS))
   in r = (if ok then ans_socket a else EXIT_FAILURE)
      \<and> open_after (ans_socket a) calls {} =
          (if ok \<or> 0 \<le> ans_socket a \<and> ans_bind a < 0 then {ans_socket a} else {})"
proof -
  obtain r fcntls where nb: "make_socket_nonblocking (ans_socket a) (ans_getfl a) (ans_setfl a)
      = (r, fcntls)" by fastforce
  then have "open_after (ans_socket a) fcntls fds = fds" for fds
    using open_after_nonblocking [of _ "ans_socket a" "ans_getfl a" "ans_setfl a"] by simp
  with nb show ?thesis
    by (auto simp: create_connection_def Let_def open_after_append)
qed

text \<open>
  \<open>create_and_bind\<close> returns the first socket that binds, after closing exactly those before
  it that did not, and -1 if there is none; a port number of ten digits, which \<open>-p\<close> accepts,
  overflows the buffer for its decimal form.
\<close>

theorem create_and_bind_outcome:
  "create_and_bind gai addrs port =
     (if 10 ^ 9 \<le> unat port then Faulted
      else if gai \<noteq> 0 then Returned (-1, [])
      else
        let tried = takeWhile (\<lambda>(sfd, s). sfd = -1 \<or> s \<noteq> 0) addrs;
            rest = dropWhile (\<lambda>(sfd, s). sfd = -1 \<or> s \<noteq> 0) addrs
        in Returned (if rest = [] then -1 else fst (hd rest),
                     map fst (filter (\<lambda>(sfd, s). sfd \<noteq> -1) tried)))"
proof -
  have loop: "bind_first addrs =
      (let rest = dropWhile (\<lambda>(sfd, s). sfd = -1 \<or> s \<noteq> 0) addrs
       in (if rest = [] then None else Some (fst (hd rest)),
           map fst (filter (\<lambda>(sfd, s). sfd \<noteq> -1)
             (takeWhile (\<lambda>(sfd, s). sfd = -1 \<or> s \<noteq> 0) addrs))))"
    by (induction addrs rule: bind_first.induct) (simp_all add: Let_def)
  have "length (show_nat (unat port)) < 10 \<longleftrightarrow> unat port < 10 ^ 9"
    using length_show_nat [of 9 "unat port", OF zero_less_numeral] by linarith
  then have "c_strcpy 10 (show_nat (unat port)) =
      (if 10 ^ 9 \<le> unat port then None else Some (show_nat (unat port)))"
    by (auto simp: c_strcpy_def)
  then show ?thesis
    by (simp add: create_and_bind_def loop Let_def)
qed

end
