(* ===== verification/FG_Epoll.thy ===== *)
theory FG_Epoll
  imports FG_Sockets
begin

text \<open>
  Registration of sockets with epoll, from \<open>flow_generator/src/common/epoll.c\<close> and \<open>epoll.h\<close>.

  The answer of \<open>epoll_ctl\<close> is an argument; a function returns the calls it makes and its result.
  A failure is reported as \<open>EXIT_FAILURE\<close>, which is 1.
\<close>

definition MAXEVENTS :: nat where
  "MAXEVENTS = 60000"

definition PAUSE_NUM :: nat where
  "PAUSE_NUM = 300"

definition EPOLLIN :: u32 where
  "EPOLLIN = 0x001"

definition EPOLLOUT :: u32 where
  "EPOLLOUT = 0x004"

definition EPOLLERR :: u32 where
  "EPOLLERR = 0x008"

definition EPOLLHUP :: u32 where
  "EPOLLHUP = 0x010"

definition EPOLLET :: u32 where
  "EPOLLET = 0x80000000"

text \<open>\<open>EPOLL_CTL_DEL\<close> passes an event whose fields are not set.\<close>

datatype epoll_op = EPOLL_CTL_ADD u32 | EPOLL_CTL_MOD u32 | EPOLL_CTL_DEL

datatype effect =
    Net net_call
  | Epoll_ctl int epoll_op int
  | Sleep nat

definition create_epoll :: "int \<Rightarrow> int run" where
  "create_epoll answer = (if answer = -1 then Exited 1 else Returned answer)"

definition add_epoll_event :: "int \<Rightarrow> int \<Rightarrow> u32 \<Rightarrow> int \<Rightarrow> (effect list \<times> int) run" where
  "add_epoll_event efd fd events answer =
     (if \<not> (events = EPOLLIN \<or> events = EPOLLOUT) then Aborted
      else Returned ([Epoll_ctl efd (EPOLL_CTL_ADD (events OR EPOLLET)) fd],
             if answer = -1 then EXIT_FAILURE else EXIT_SUCCESS))"

definition modify_epoll_event :: "int \<Rightarrow> int \<Rightarrow> u32 \<Rightarrow> int \<Rightarrow> (effect list \<times> int) run" where
  "modify_epoll_event efd fd events answer =
     (if \<not> (events = EPOLLIN \<or> events = EPOLLOUT) then Aborted
      else Returned ([Epoll_ctl efd (EPOLL_CTL_MOD (events OR EPOLLET)) fd],
             if answer = -1 then EXIT_FAILURE else EXIT_SUCCESS))"

definition delete_epoll_event :: "int \<Rightarrow> int \<Rightarrow> int \<Rightarrow> effect list \<times> int" where
  "delete_epoll_event efd fd answer =
     ([Epoll_ctl efd EPOLL_CTL_DEL fd], if answer = -1 then EXIT_FAILURE else EXIT_SUCCESS)"

lemma modify_epoll_event_not_negative:
  "modify_epoll_event efd fd events answer = Returned (effects, error) \<Longrightarrow> \<not> error < 0"
  by (auto simp: modify_epoll_event_def EXIT_FAILURE_def EXIT_SUCCESS_def split: if_splits)

lemma no_exit_modify: "no_exit (modify_epoll_event efd fd events ans)"
  by (simp add: modify_epoll_event_def)

definition create_epoll_event ::
    "(string \<Rightarrow> u32) \<Rightarrow> connection_four_tuples \<Rightarrow> int \<Rightarrow> connect_answers \<Rightarrow> int
     \<Rightarrow> (effect list \<times> int) run" where
  "create_epoll_event inet_addr conn efd a ctl =
     (let (fd, calls) = create_connection inet_addr conn a in
      if fd \<noteq> EXIT_FAILURE then
        run_bind (add_epoll_event efd fd EPOLLOUT ctl) (\<lambda>(effects, r).
          Returned (map Net calls @ effects, fd))
      else Returned (map Net calls, EXIT_FAILURE))"

text \<open>
  The loop of \<open>create_N_epoll_events\<close>: the answers of round \<open>i\<close> are \<open>ans i\<close> for the
  connection and \<open>ctl i\<close> for \<open>epoll_ctl\<close>; \<open>k\<close> rounds are left.
\<close>

fun create_N_loop ::
    "(string \<Rightarrow> u32) \<Rightarrow> connection_four_tuples \<Rightarrow> int \<Rightarrow> (nat \<Rightarrow> connect_answers) \<Rightarrow> (nat \<Rightarrow> int)
     \<Rightarrow> nat \<Rightarrow> nat \<Rightarrow> int \<Rightarrow> (effect list \<times> int) run" where
  "create_N_loop inet_addr conn efd ans ctl i 0 result = Returned ([], result)"
| "create_N_loop inet_addr conn efd ans ctl i (Suc k) result =
     run_bind (create_epoll_event inet_addr conn efd (ans i) (ctl i)) (\<lambda>(effects, error).
       let result' = (if error \<noteq> EXIT_FAILURE then result + 1 else result);
           pause = (if i mod PAUSE_NUM = 0 then [Sleep 1] else [])
       in run_bind (create_N_loop inet_addr conn efd ans ctl (i + 1) k result')
            (\<lambda>(rest, r). Returned (effects @ pause @ rest, r)))"

definition create_N_epoll_events ::
    "(string \<Rightarrow> u32) \<Rightarrow> connection_four_tuples \<Rightarrow> int \<Rightarrow> int \<Rightarrow> (nat \<Rightarrow> connect_answers)
     \<Rightarrow> (nat \<Rightarrow> int) \<Rightarrow> (effect list \<times> int) run" where
  "create_N_epoll_events inet_addr conn efd num ans ctl =
     (let n = (if sport conn = 0 then num else 1)
      in create_N_loop inet_addr conn efd ans ctl 0 (nat n) 0)"

text \<open>
  What \<open>accept\<close> answers: a connection, with the answers of the calls on it, or an error.
\<close>

record accept_answers =
  acc_fd :: int
  acc_keepalive :: int
  acc_reuseaddr :: int
  acc_getfl :: int
  acc_setfl :: int
  acc_ctl :: int

datatype accept_result = Accepted accept_answers | Accept_error errno

fun accept_epoll_events :: "int \<Rightarrow> int \<Rightarrow> accept_result list \<Rightarrow> effect list run" where
  "accept_epoll_events efd sfd [] = Blocked"
| "accept_epoll_events efd sfd (Accept_error e # rest) = Returned []"
| "accept_epoll_events efd sfd (Accepted a # rest) =
     (let infd = acc_fd a;
          (r, calls) = set_socket infd (acc_keepalive a) (acc_reuseaddr a) (acc_getfl a) (acc_setfl a)
      in run_bind (add_epoll_event efd infd EPOLLIN (acc_ctl a)) (\<lambda>(effects, r).
         run_bind (accept_epoll_events efd sfd rest) (\<lambda>more.
           Returned (map Net calls @ effects @ more))))"

section \<open>What is registered\<close>

text \<open>The registrations among the effects, as pairs of a socket and its events.\<close>

fun registrations :: "effect list \<Rightarrow> (int \<times> u32) list" where
  "registrations [] = []"
| "registrations (Epoll_ctl efd (EPOLL_CTL_ADD events) fd # rest) = (fd, events) # registrations rest"
| "registrations (_ # rest) = registrations rest"

lemma registrations_append [simp]:
  "registrations (xs @ ys) = registrations xs @ registrations ys"
  by (induction xs rule: registrations.induct) simp_all

lemma registrations_net [simp]: "registrations (map Net calls) = []"
  by (induction calls) simp_all

definition connects :: "connect_answers \<Rightarrow> bool" where
  "connects a \<longleftrightarrow> 0 \<le> ans_socket a \<and> 0 \<le> ans_bind a
     \<and> (0 \<le> ans_connect a \<or> ans_errno a = EINPROGRESS) \<and> ans_socket a \<noteq> 1"

lemma create_connection_result:
  "fst (create_connection inet_addr conn a) = (if connects a then ans_socket a else EXIT_FAILURE)"
  by (auto simp: create_connection_def connects_def Let_def EXIT_FAILURE_def split: prod.split)

lemma connects_not_failure: "connects a \<Longrightarrow> ans_socket a \<noteq> EXIT_FAILURE"
  by (simp add: connects_def EXIT_FAILURE_def)

lemma create_epoll_event_spec:
  "\<exists>effects. create_epoll_event inet_addr conn efd a ctl =
     Returned (effects, if connects a then ans_socket a else EXIT_FAILURE)
   \<and> registrations effects = (if connects a then [(ans_socket a, EPOLLOUT OR EPOLLET)] else [])"
proof -
  obtain fd calls where c: "create_connection inet_addr conn a = (fd, calls)" by fastforce
  with create_connection_result [of inet_addr conn a] show ?thesis
    by (cases "connects a")
      (simp_all add: create_epoll_event_def add_epoll_event_def connects_not_failure)
qed

lemma create_N_loop_spec:
  "\<exists>effects. create_N_loop inet_addr conn efd ans ctl i k result =
     Returned (effects, result + int (length (filter (\<lambda>j. connects (ans j)) [i..<i + k])))
   \<and> registrations effects =
       map (\<lambda>j. (ans_socket (ans j), EPOLLOUT OR EPOLLET))
         (filter (\<lambda>j. connects (ans j)) [i..<i + k])"
proof (induction k arbitrary: i result)
  case (Suc k)
  have upt: "[i..<i + Suc k] = i # [Suc i..<Suc i + k]" by (simp add: upt_rec)
  obtain e1 where e1: "create_epoll_event inet_addr conn efd (ans i) (ctl i) =
      Returned (e1, if connects (ans i) then ans_socket (ans i) else EXIT_FAILURE)"
    "registrations e1 =
      (if connects (ans i) then [(ans_socket (ans i), EPOLLOUT OR EPOLLET)] else [])"
    using create_epoll_event_spec by blast
  define result' where "result' = (if connects (ans i) then result + 1 else result)"
  obtain e2 where e2: "create_N_loop inet_addr conn efd ans ctl (Suc i) k result' =
      Returned (e2, result' + int (length (filter (\<lambda>j. connects (ans j)) [Suc i..<Suc i + k])))"
    "registrations e2 = map (\<lambda>j. (ans_socket (ans j), EPOLLOUT OR EPOLLET))
         (filter (\<lambda>j. connects (ans j)) [Suc i..<Suc i + k])"
    using Suc.IH [of "Suc i" result'] by blast
  show ?case
    unfolding upt using e1 e2 connects_not_failure [of "ans i"]
    by (auto simp: Let_def result'_def)
qed simp

text \<open>
  \<open>create_N_epoll_events\<close> always returns, and returns the number of rounds whose connection
  was made; it registers exactly these sockets, in order, for edge-triggered output.  A fixed source
  port means one round, otherwise there are \<open>num\<close>.  A failed registration is not noticed.
\<close>

theorem create_N_registers_connections:
  "let n = (if sport conn = 0 then nat num else 1);
       made = filter (\<lambda>i. connects (ans i)) [0..<n]
   in \<exists>effects. create_N_epoll_events inet_addr conn efd num ans ctl
          = Returned (effects, int (length made))
        \<and> registrations effects = map (\<lambda>i. (ans_socket (ans i), EPOLLOUT OR EPOLLET)) made"
proof (cases "sport conn = 0")
  case True
  with create_N_loop_spec [of inet_addr conn efd ans ctl 0 "nat num" 0] show ?thesis
    by (auto simp: create_N_epoll_events_def Let_def)
next
  case False
  with create_N_loop_spec [of inet_addr conn efd ans ctl 0 1 0] show ?thesis
    by (auto simp: create_N_epoll_events_def Let_def)
qed

text \<open>
  \<open>accept_epoll_events\<close> goes on until \<open>accept\<close> fails, for whatever reason, and registers every
  connection accepted before that for edge-triggered input; without a failing \<open>accept\<close> it is still
  running.
\<close>

theorem accept_registers_connections:
  "accept_epoll_events efd sfd (map Accepted as) = Blocked
   \<and> (\<exists>effects. accept_epoll_events efd sfd (map Accepted as @ Accept_error e # rest)
          = Returned effects
        \<and> registrations effects = map (\<lambda>a. (acc_fd a, EPOLLIN OR EPOLLET)) as)"
  by (induction as) (auto simp: Let_def add_epoll_event_def split: prod.split)

end
