(* ===== verification/FG_Transfer.thy ===== *)
theory FG_Transfer
  imports FG_Network
begin

text \<open>
  What the transfer functions of \<open>flow_generator/src/common/network.c\<close> do: a request arrives as
  it was sent, a short request is completed from the stack, and the response loops return what
  the answers of the operating system add up to.
\<close>

section \<open>Requests\<close>

lemma sint_word_of_int: "- (2 ^ 31) \<le> n \<Longrightarrow> n < 2 ^ 31 \<Longrightarrow> sint (word_of_int n :: u32) = n"
  by (simp add: sint_word_ariths signed_of_int signed_take_bit_int_eq_self)

lemma write_request_sends:
  assumes "length stack = PAYLOAD_SIZE"
  shows "write_request stack req n (Wrote k) = Returned (be_bytes 4 (word_of_int n :: u32), int k)"
  using assms
  by (simp add: write_request_def serialize_whole_payload set_flow_size_def init_payload_def)

lemma read_request_whole:
  assumes "length stack = PAYLOAD_SIZE"
  shows "read_request stack req (Read (be_bytes 4 (v :: u32))) = Returned (sint v)"
proof -
  have "be_bytes 4 v \<noteq> []" using length_be_bytes [of 4 v] by (metis list.size(3) zero_neq_numeral)
  with assms show ?thesis
    by (simp add: read_request_def c_blit_def PAYLOAD_SIZE_def deserialize_whole_payload)
qed

text \<open>
  C29.  The server reads the flow size the client wrote: when \<open>write\<close> takes the payload and
  \<open>read\<close> returns it in one piece, \<open>read_request\<close> returns the argument of \<open>write_request\<close>, for every
  \<open>int\<close>, whatever the uninitialised buffers held.
\<close>

theorem request_roundtrip:
  assumes "- (2 ^ 31) \<le> n" "n < 2 ^ 31"
    and "length stack = PAYLOAD_SIZE" "length stack' = PAYLOAD_SIZE"
  shows "\<exists>bytes. write_request stack req n (Wrote PAYLOAD_SIZE) = Returned (bytes, 4)
    \<and> length bytes = PAYLOAD_SIZE
    \<and> read_request stack' req' (Read bytes) = Returned n"
  using assms by (simp add: write_request_sends read_request_whole sint_word_of_int)
    (simp add: PAYLOAD_SIZE_def)

theorem request_roundtrip_witness:
  "\<exists>bytes. write_request [9, 9, 9, 9] \<lparr>req_flow_size = 5\<rparr> 100000 (Wrote PAYLOAD_SIZE)
       = Returned (bytes, 4)
     \<and> read_request [7, 7, 7, 7] \<lparr>req_flow_size = 6\<rparr> (Read bytes) = Returned 100000"
  using request_roundtrip [of 100000 "[9, 9, 9, 9]" "[7, 7, 7, 7]" "\<lparr>req_flow_size = 5\<rparr>"
      "\<lparr>req_flow_size = 6\<rparr>"]
  by (auto simp: PAYLOAD_SIZE_def)

lemma four_bytes: "[0..<4] = [0, 1, 2, 3]"
  by (simp add: upt_rec)

lemma deserialize_four:
  "deserialize_payload [a, b, c, d] 0 req =
     Some \<lparr>req_flow_size = push_bit 8 (push_bit 8 (push_bit 8 (ucast a) + ucast b) + ucast c) + ucast d\<rparr>"
  by (simp add: deserialize_payload_def deserialize_u32_def four_bytes c_read_def request_eqI)

lemma last_byte_counts:
  "read_request stack req (Read bs) \<noteq> read_request stack' req (Read bs)"
  if "bs @ drop (length bs) stack = [a, b, c, 0]" "bs @ drop (length bs) stack' = [a, b, c, 1]"
    "bs \<noteq> []" "length bs \<le> 4" "length stack = 4" "length stack' = 4"
proof -
  define x :: u32 where "x = push_bit 8 (push_bit 8 (push_bit 8 (ucast a) + ucast b) + ucast c)"
  have "read_request stack req (Read bs) = Returned (sint x)"
    "read_request stack' req (Read bs) = Returned (sint (x + 1))"
    using that by (simp_all add: read_request_def c_blit_def deserialize_four x_def)
  moreover have "sint x \<noteq> sint (x + 1)"
    by (metis add_cancel_left_right signed_word_eqI zero_neq_one)
  ultimately show ?thesis by simp
qed

text \<open>
  A request that arrives in part is not detected: when \<open>read\<close> returns one, two or three
  bytes, the flow size \<open>read_request\<close> returns depends on what the stack held before.
\<close>

theorem short_request_reads_stack:
  assumes "0 < length bs" "length bs < PAYLOAD_SIZE"
  shows "\<exists>stack stack'. length stack = PAYLOAD_SIZE \<and> length stack' = PAYLOAD_SIZE \<and>
    read_request stack req (Read bs) \<noteq> read_request stack' req (Read bs)"
proof -
  have "length bs = 1 \<or> length bs = 2 \<or> length bs = 3"
    using assms unfolding PAYLOAD_SIZE_def by linarith
  then obtain a b c where
    "bs @ drop (length bs) [0, 0, 0, 0] = [a, b, c, 0] \<and>
     bs @ drop (length bs) [0, 0, 0, 1] = [a, b, c, 1]"
    by (auto simp: length_Suc_conv numeral_eq_Suc)
  with assms show ?thesis
    using last_byte_counts [of bs "[0, 0, 0, 0]" a b c "[0, 0, 0, 1]"]
    by (intro exI [of _ "[0, 0, 0, 0]"] exI [of _ "[0, 0, 0, 1]"]) (auto simp: PAYLOAD_SIZE_def)
qed

theorem short_request_reads_stack_witness:
  "\<exists>stack stack'. length stack = PAYLOAD_SIZE \<and> length stack' = PAYLOAD_SIZE \<and>
    read_request stack \<lparr>req_flow_size = 0\<rparr> (Read [0, 1])
      \<noteq> read_request stack' \<lparr>req_flow_size = 0\<rparr> (Read [0, 1])"
  by (rule short_request_reads_stack) (simp_all add: PAYLOAD_SIZE_def)

section \<open>Responses\<close>

text \<open>
  The bytes that arrive, and the answers that keep the read loop going: data of at most a buffer,
  or an error that is only temporary.
\<close>

fun arrived :: "read_result \<Rightarrow> int" where
  "arrived (Read bs) = int (length bs)"
| "arrived (Read_error e) = 0"

fun keeps_reading :: "read_result \<Rightarrow> bool" where
  "keeps_reading (Read bs) = (bs \<noteq> [] \<and> length bs \<le> MAX_READ_BUFF)"
| "keeps_reading (Read_error e) = (e = EAGAIN \<or> e = EINTR)"

definition total_arrived :: "read_result list \<Rightarrow> int" where
  "total_arrived rs = sum_list (map arrived rs)"

lemma total_arrived_simps [simp]:
  "total_arrived [] = 0" "total_arrived (r # rs) = arrived r + total_arrived rs"
  by (simp_all add: total_arrived_def)

lemma arrived_nonneg [simp]: "0 \<le> arrived r"
  by (cases r) simp_all

lemma total_arrived_nonneg [simp]: "0 \<le> total_arrived rs"
  by (induction rs) simp_all

lemma read_loop_prefix:
  assumes "list_all keeps_reading rs" "amount + total_arrived rs < n" "n \<le> INT_MAX"
    and "length buf = MAX_READ_BUFF"
  shows "\<exists>buf'. length buf' = MAX_READ_BUFF \<and>
    read_responce_loop n amount buf (rs @ rest)
      = read_responce_loop n (amount + total_arrived rs) buf' rest"
  using assms
proof (induction rs arbitrary: amount buf)
  case (Cons r rs)
  show ?case
  proof (cases r)
    case (Read bs)
    define buf' where "buf' = bs @ drop (length bs) buf"
    have len: "length buf' = MAX_READ_BUFF" and blit: "c_blit buf bs = Some buf'"
      using Cons.prems Read by (auto simp: buf'_def c_blit_def)
    have "amount + int (length bs) < n"
      using Cons.prems(2) Read total_arrived_nonneg [of rs]
      by (simp only: total_arrived_simps arrived.simps)
    then have "read_responce_loop n amount buf (r # rs @ rest)
        = read_responce_loop n (amount + int (length bs)) buf' (rs @ rest)"
      using Cons.prems Read blit by simp
    with Cons.IH [of "amount + int (length bs)" buf'] Cons.prems Read len show ?thesis
      by (simp add: add.assoc)
  next
    case (Read_error e)
    have "amount < n"
      using Cons.prems(2) total_arrived_nonneg [of "r # rs"] by linarith
    with Read_error Cons.prems Cons.IH [of amount buf] show ?thesis by auto
  qed
qed auto

lemma read_responce_returns:
  assumes "list_all keeps_reading rs" "total_arrived rs < n" "n \<le> INT_MAX"
    and "length stack = MAX_READ_BUFF"
  shows "read_responce stack n rs = Blocked
    \<and> read_responce stack n (rs @ Read [] # rest) = Returned (0, rest)
    \<and> (e \<noteq> EAGAIN \<and> e \<noteq> EINTR \<longrightarrow>
         read_responce stack n (rs @ Read_error e # rest) = Returned (-1, rest))
    \<and> (keeps_reading (Read bs) \<and> n \<le> total_arrived (rs @ [Read bs]) \<and>
         total_arrived (rs @ [Read bs]) \<le> INT_MAX \<longrightarrow>
         read_responce stack n (rs @ Read bs # rest) = Returned (total_arrived (rs @ [Read bs]), rest))"
proof -
  have total: "total_arrived (rs @ [Read bs]) = total_arrived rs + int (length bs)"
    by (simp add: total_arrived_def)
  have step: "\<exists>buf'. length buf' = MAX_READ_BUFF \<and> read_responce stack n (rs @ xs)
      = read_responce_loop n (total_arrived rs) buf' xs" for xs
    using read_loop_prefix [of rs 0 n stack xs] assms by (simp add: read_responce_def)
  have "read_responce stack n rs = Blocked"
    using step [of "[]"] by auto
  moreover have "read_responce stack n (rs @ Read [] # rest) = Returned (0, rest)"
    using step [of "Read [] # rest"] by (auto simp: c_blit_def)
  moreover have "e \<noteq> EAGAIN \<and> e \<noteq> EINTR \<longrightarrow>
      read_responce stack n (rs @ Read_error e # rest) = Returned (-1, rest)"
    using step [of "Read_error e # rest"] by auto
  moreover have "keeps_reading (Read bs) \<and> n \<le> total_arrived (rs @ [Read bs]) \<and>
      total_arrived (rs @ [Read bs]) \<le> INT_MAX \<longrightarrow>
      read_responce stack n (rs @ Read bs # rest) = Returned (total_arrived (rs @ [Read bs]), rest)"
    using step [of "Read bs # rest"] unfolding total by (auto simp: c_array)
  ultimately show ?thesis by simp
qed

text \<open>
  C28.  For a response of \<open>n\<close> bytes, \<open>read_responce\<close> keeps reading over data and temporary errors
  while less than \<open>n\<close> bytes have arrived: it is still running if nothing else comes, returns what
  has arrived once this is \<open>n\<close> or more, returns -1 after any other error, and 0 when the peer
  closes early.  It stays in its buffer and the sum does not overflow.
\<close>

theorem read_responce_result:
  assumes "list_all keeps_reading rs" "total_arrived rs < n" "n \<le> INT_MAX"
    and "length stack = MAX_READ_BUFF"
  shows "read_responce stack n rs = Blocked
    \<and> read_responce stack n (rs @ Read [] # rest) = Returned (0, rest)
    \<and> (e \<noteq> EAGAIN \<and> e \<noteq> EINTR \<longrightarrow>
         read_responce stack n (rs @ Read_error e # rest) = Returned (-1, rest))
    \<and> (keeps_reading (Read bs) \<and> n \<le> total_arrived (rs @ [Read bs]) \<and>
         total_arrived (rs @ [Read bs]) \<le> INT_MAX \<longrightarrow>
         read_responce stack n (rs @ Read bs # rest) = Returned (total_arrived (rs @ [Read bs]), rest))"
  using assms by (rule read_responce_returns)

theorem read_responce_result_witness:
  "read_responce (replicate MAX_READ_BUFF 0) 5
     ([Read [1, 2, 3], Read_error EAGAIN] @ Read [4, 5] # [Read [6]]) = Returned (5, [Read [6]])"
  using read_responce_result [of "[Read [1, 2, 3], Read_error EAGAIN]" 5 "replicate MAX_READ_BUFF 0"
      "[Read [6]]" EINTR "[4, 5]"]
  by (simp add: INT_MAX_def MAX_READ_BUFF_def total_arrived_def)

fun taken :: "write_result \<Rightarrow> int" where
  "taken (Wrote k) = int k"
| "taken (Write_error e) = 0"

fun keeps_writing :: "write_result \<Rightarrow> bool" where
  "keeps_writing (Wrote k) = (k \<le> MAX_WRITE_BUFF)"
| "keeps_writing (Write_error e) = (e = EAGAIN \<or> e = EINTR)"

definition total_taken :: "write_result list \<Rightarrow> int" where
  "total_taken ws = sum_list (map taken ws)"

lemma total_taken_simps [simp]:
  "total_taken [] = 0" "total_taken (w # ws) = taken w + total_taken ws"
  by (simp_all add: total_taken_def)

lemma total_taken_nonneg [simp]: "0 \<le> total_taken ws"
proof (induction ws)
  case (Cons w ws)
  then show ?case by (cases w) simp_all
qed simp

lemma write_unit_in_bounds:
  assumes "length stack = MAX_WRITE_BUFF" "0 \<le> n" "n \<le> int MAX_WRITE_BUFF"
  shows "write_unit_responce stack n w = Returned (replicate (nat n) 0, w)"
  using assms
  by (simp add: write_unit_responce_def set_buffer_data_def c_memset_def c_blit_def nat_le_iff)

text \<open>One round of the loop: the size asked for is what is left, at most a buffer.\<close>

lemma write_round:
  assumes "length stack = MAX_WRITE_BUFF" "0 < left"
  shows "write_responce_loop stack left amount asked (w # ws) =
    (let ask = nat (min left (int MAX_WRITE_BUFF)) in
     case w of
       Write_error e \<Rightarrow>
         if e \<noteq> EAGAIN \<and> e \<noteq> EINTR then Returned (-1, asked @ [ask])
         else write_responce_loop stack left amount (asked @ [ask]) ws
     | Wrote n \<Rightarrow>
         if INT_MAX < amount + int n then Faulted
         else write_responce_loop stack (left - int n) (amount + int n) (asked @ [ask]) ws)"
  using assms by (simp add: write_unit_in_bounds min_def not_le split: write_result.split)

definition asks_fit :: "nat list \<Rightarrow> bool" where
  "asks_fit asked \<longleftrightarrow> list_all (\<lambda>a. a \<le> MAX_WRITE_BUFF) asked"

lemma asks_fit_simps [simp]:
  "asks_fit []" "asks_fit (a # as) \<longleftrightarrow> a \<le> MAX_WRITE_BUFF \<and> asks_fit as"
  by (simp_all add: asks_fit_def)

lemma write_loop_prefix:
  assumes "list_all keeps_writing ws" "total_taken ws \<le> left" "amount + left \<le> INT_MAX"
    and "length stack = MAX_WRITE_BUFF"
  shows "\<exists>asked' ws'. write_responce_loop stack left amount asked (ws @ rest)
      = write_responce_loop stack (left - total_taken ws) (amount + total_taken ws)
          (asked @ asked') (ws' @ rest)
    \<and> asks_fit asked' \<and> (total_taken ws < left \<longrightarrow> ws' = [])"
  using assms
proof (induction ws arbitrary: left amount asked)
  case Nil
  show ?case by (rule exI [of _ "[]"], rule exI [of _ "[]"]) simp
next
  case (Cons w ws)
  have sum: "total_taken (w # ws) = taken w + total_taken ws" by simp
  show ?case
  proof (cases "0 < left")
    case False
    then have "total_taken (w # ws) = 0"
      using Cons.prems(2) total_taken_nonneg [of "w # ws"] by linarith
    then show ?thesis
      using False Cons.prems(2) by (intro exI [of _ "[]"] exI [of _ "w # ws"]) simp
  next
    case True
    define ask where "ask = nat (min left (int MAX_WRITE_BUFF))"
    have fit: "ask \<le> MAX_WRITE_BUFF" by (simp add: ask_def nat_le_iff)
    have "INT_MAX \<ge> amount + taken w"
      using Cons.prems(2,3) total_taken_nonneg [of ws] unfolding sum by linarith
    then have round: "write_responce_loop stack left amount asked (w # ws @ rest)
        = write_responce_loop stack (left - taken w) (amount + taken w) (asked @ [ask]) (ws @ rest)"
      unfolding write_round [OF Cons.prems(4) True] ask_def [symmetric]
      using Cons.prems by (cases w) (auto simp: Let_def)
    obtain asked' ws' where
      "write_responce_loop stack (left - taken w) (amount + taken w) (asked @ [ask]) (ws @ rest)
        = write_responce_loop stack (left - taken w - total_taken ws)
            (amount + taken w + total_taken ws) ((asked @ [ask]) @ asked') (ws' @ rest)"
      "asks_fit asked'" "total_taken ws < left - taken w \<longrightarrow> ws' = []"
      using Cons.IH [of "left - taken w" "amount + taken w" "asked @ [ask]"] Cons.prems
      by auto
    with fit round show ?thesis
      by (intro exI [of _ "ask # asked'"] exI [of _ ws']) (auto simp: algebra_simps)
  qed
qed

lemma write_responce_returns:
  assumes "list_all keeps_writing ws" "n \<le> INT_MAX" "length stack = MAX_WRITE_BUFF"
  shows "(total_taken ws = n \<longrightarrow>
            (\<exists>asked. write_responce stack n (ws @ rest) = Returned (n, asked) \<and> asks_fit asked))
       \<and> (total_taken ws < n \<longrightarrow> write_responce stack n ws = Blocked)
       \<and> (total_taken ws < n \<and> e \<noteq> EAGAIN \<and> e \<noteq> EINTR \<longrightarrow>
            (\<exists>asked. write_responce stack n (ws @ Write_error e # rest) = Returned (-1, asked)
                     \<and> asks_fit asked))"
proof -
  have step: "\<exists>asked' ws'. write_responce stack n (ws @ xs)
        = write_responce_loop stack (n - total_taken ws) (total_taken ws) asked' (ws' @ xs)
      \<and> asks_fit asked' \<and> (total_taken ws < n \<longrightarrow> ws' = [])" if "total_taken ws \<le> n" for xs
    using write_loop_prefix [of ws n 0 stack "[]" xs] assms that
    by (simp add: write_responce_def)
  have "\<exists>asked. write_responce stack n (ws @ rest) = Returned (n, asked) \<and> asks_fit asked"
    if eq: "total_taken ws = n"
  proof -
    obtain asked' ws' where loop: "write_responce stack n (ws @ rest)
        = write_responce_loop stack 0 n asked' (ws' @ rest)" "asks_fit asked'"
      using step [of rest] eq by auto
    have "write_responce_loop stack 0 n asked' xs = Returned (n, asked')" for xs
      by (cases xs) simp_all
    with loop show ?thesis by simp
  qed
  moreover have "write_responce stack n ws = Blocked" if "total_taken ws < n"
    using step [of "[]"] that by auto
  moreover have "\<exists>asked. write_responce stack n (ws @ Write_error e # rest) = Returned (-1, asked)
      \<and> asks_fit asked" if lt: "total_taken ws < n" and hard: "e \<noteq> EAGAIN \<and> e \<noteq> EINTR"
  proof -
    obtain asked' where loop: "write_responce stack n (ws @ Write_error e # rest)
        = write_responce_loop stack (n - total_taken ws) (total_taken ws) asked'
            (Write_error e # rest)" "asks_fit asked'"
      using step [of "Write_error e # rest"] lt by auto
    have "0 < n - total_taken ws" using lt by simp
    from write_round [OF assms(3) this, of "total_taken ws" asked' "Write_error e" rest] loop hard
    show ?thesis by (auto simp: Let_def asks_fit_def nat_le_iff)
  qed
  ultimately show ?thesis by simp
qed

text \<open>
  C27.  For a response of \<open>n\<close> bytes, \<open>write_responce\<close> asks each \<open>write\<close> for at most a buffer, so
  its assertion holds and no access faults, and goes on over partial writes and temporary errors:
  it returns \<open>n\<close> once \<open>n\<close> bytes are taken, is still running before that, and returns -1 after any
  other error.
\<close>

theorem write_responce_result:
  assumes "list_all keeps_writing ws" "n \<le> INT_MAX" "length stack = MAX_WRITE_BUFF"
  shows "(total_taken ws = n \<longrightarrow>
            (\<exists>asked. write_responce stack n (ws @ rest) = Returned (n, asked) \<and> asks_fit asked))
       \<and> (total_taken ws < n \<longrightarrow> write_responce stack n ws = Blocked)
       \<and> (total_taken ws < n \<and> e \<noteq> EAGAIN \<and> e \<noteq> EINTR \<longrightarrow>
            (\<exists>asked. write_responce stack n (ws @ Write_error e # rest) = Returned (-1, asked)
                     \<and> asks_fit asked))"
  using assms by (rule write_responce_returns)

theorem write_responce_result_witness:
  "\<exists>asked. write_responce (replicate MAX_WRITE_BUFF 0) 70000
       ([Wrote 65536, Write_error EAGAIN, Wrote 4000, Wrote 464] @ []) = Returned (70000, asked)
     \<and> asks_fit asked"
  using write_responce_result
    [of "[Wrote 65536, Write_error EAGAIN, Wrote 4000, Wrote 464]" 70000
      "replicate MAX_WRITE_BUFF 0" "[]" EINTR]
  by (simp add: INT_MAX_def MAX_WRITE_BUFF_def total_taken_def)

section \<open>The transfers end\<close>

text \<open>
  What the operating system guarantees for \<open>write\<close>: a successful call takes at least one byte and
  no more than it was asked to take, which is what is \<open>left\<close>, at most a buffer.
\<close>

fun obeys_write :: "int \<Rightarrow> write_result list \<Rightarrow> bool" where
  "obeys_write left [] = True"
| "obeys_write left (w # ws) =
     (left \<le> 0 \<or>
      (case w of
         Wrote k \<Rightarrow> 0 < k \<and> int k \<le> min left (int MAX_WRITE_BUFF) \<and> obeys_write (left - int k) ws
       | Write_error e \<Rightarrow> (e = EAGAIN \<or> e = EINTR) \<and> obeys_write left ws))"

fun is_wrote :: "write_result \<Rightarrow> bool" where
  "is_wrote (Wrote k) = True"
| "is_wrote (Write_error e) = False"

fun is_read :: "read_result \<Rightarrow> bool" where
  "is_read (Read bs) = True"
| "is_read (Read_error e) = False"

lemma write_loop_ends:
  assumes "obeys_write left ws" "0 \<le> left" "left \<le> int (length (filter is_wrote ws))"
    and "amount + left \<le> INT_MAX" "length stack = MAX_WRITE_BUFF"
  shows "\<exists>asked'. write_responce_loop stack left amount asked ws = Returned (amount + left, asked')"
  using assms
proof (induction ws arbitrary: left amount asked)
  case (Cons w ws)
  show ?case
  proof (cases "0 < left")
    case False
    with Cons.prems(2) show ?thesis by simp
  next
    case True
    note round = write_round [OF Cons.prems(5) True, of amount asked w ws]
    show ?thesis
    proof (cases w)
      case (Wrote k)
      with True Cons.prems(1-4) have "0 < k" "int k \<le> left" "obeys_write (left - int k) ws"
        "left - int k \<le> int (length (filter is_wrote ws))" by auto
      with Cons.IH [of "left - int k" "amount + int k"] Cons.prems(4,5) round Wrote show ?thesis
        by (auto simp: Let_def)
    next
      case (Write_error e)
      with True Cons.prems have "e = EAGAIN \<or> e = EINTR" "obeys_write left ws"
        "left \<le> int (length (filter is_wrote ws))" by auto
      with Cons.IH [of left amount] Cons.prems(2,4,5) round Write_error show ?thesis
        by (auto simp: Let_def)
    qed
  qed
qed simp

lemma read_loop_ends:
  assumes "list_all keeps_reading rs" "amount < n" "n - amount \<le> int (length (filter is_read rs))"
    and "amount + total_arrived rs \<le> INT_MAX" "length buf = MAX_READ_BUFF"
  shows "\<exists>m rest. read_responce_loop n amount buf rs = Returned (m, rest)
    \<and> n \<le> m \<and> m \<le> amount + total_arrived rs"
  using assms
proof (induction rs arbitrary: amount buf)
  case (Cons r rs)
  show ?case
  proof (cases r)
    case (Read bs)
    define buf' where "buf' = bs @ drop (length bs) buf"
    have blit: "c_blit buf bs = Some buf'" "length buf' = MAX_READ_BUFF"
      using Cons.prems(1,5) Read by (auto simp: buf'_def c_blit_def)
    have bs: "bs \<noteq> []" "0 < int (length bs)" using Cons.prems(1) Read by simp_all
    have total: "total_arrived (r # rs) = int (length bs) + total_arrived rs" using Read by simp
    have bound: "amount + int (length bs) \<le> INT_MAX"
      using Cons.prems(4) total_arrived_nonneg [of rs] unfolding total by linarith
    show ?thesis
    proof (cases "n \<le> amount + int (length bs)")
      case True
      with blit bs bound Read show ?thesis by (simp add: not_less)
    next
      case False
      have "n - (amount + int (length bs)) \<le> int (length (filter is_read rs))"
      proof -
        have "n - amount \<le> 1 + int (length (filter is_read rs))"
          using Cons.prems(3) Read by simp
        with bs(2) show ?thesis by linarith
      qed
      with False Cons.IH [of "amount + int (length bs)" buf'] Cons.prems(1,4) blit bs bound Read
      show ?thesis by (simp add: not_less not_le add.assoc)
    qed
  next
    case (Read_error e)
    with Cons.prems Cons.IH [of amount buf] show ?thesis by auto
  qed
qed simp

text \<open>
  C26.  The transfer loops end.  When every successful \<open>write\<close> takes at least one byte and no more
  than asked, and errors are temporary, \<open>write_responce\<close> returns \<open>n\<close> within \<open>n\<close> successful writes;
  when every successful \<open>read\<close> returns at least one byte and at most a buffer, \<open>read_responce\<close>
  returns, with at least \<open>n\<close>, within \<open>n\<close> successful reads.
\<close>

theorem transfers_end:
  assumes "0 < n" "n \<le> INT_MAX"
    and "obeys_write n ws" "n \<le> int (length (filter is_wrote ws))" "length wstack = MAX_WRITE_BUFF"
    and "list_all keeps_reading rs" "n \<le> int (length (filter is_read rs))"
      "total_arrived rs \<le> INT_MAX" "length rstack = MAX_READ_BUFF"
  shows "(\<exists>asked. write_responce wstack n ws = Returned (n, asked))
    \<and> (\<exists>m rest. read_responce rstack n rs = Returned (m, rest) \<and> n \<le> m \<and> m \<le> total_arrived rs)"
  using write_loop_ends [of n ws 0 wstack "[]"] read_loop_ends [of rs 0 n rstack] assms
  by (simp add: write_responce_def read_responce_def)

theorem transfers_end_witness:
  "(\<exists>asked. write_responce (replicate MAX_WRITE_BUFF 0) 2 [Wrote 1, Write_error EINTR, Wrote 1]
       = Returned (2, asked))
   \<and> (\<exists>m rest. read_responce (replicate MAX_READ_BUFF 0) 2 [Read_error EAGAIN, Read [1], Read [2]]
       = Returned (m, rest) \<and> 2 \<le> m \<and> m \<le> 2)"
proof -
  have "obeys_write 2 [Wrote 1, Write_error EINTR, Wrote 1]"
    "list_all keeps_reading [Read_error EAGAIN, Read [1], Read [2]]"
    "total_arrived [Read_error EAGAIN, Read [1], Read [2]] = 2" "(2::int) \<le> INT_MAX"
    by (simp_all add: MAX_WRITE_BUFF_def MAX_READ_BUFF_def INT_MAX_def)
  then show ?thesis
    using transfers_end [of 2 "[Wrote 1, Write_error EINTR, Wrote 1]" "replicate MAX_WRITE_BUFF 0"
        "[Read_error EAGAIN, Read [1], Read [2]]" "replicate MAX_READ_BUFF 0"]
    by (simp del: obeys_write.simps)
qed

end
