(* ===== verification/FG_Thread_Poll.thy ===== *)
theory FG_Thread_Poll
  imports FG_Common
begin

text \<open>
  The slots through which the epoll thread hands events to the worker threads, from
  \<open>flow_generator/src/common/thread_poll.c\<close> and \<open>thread_poll.h\<close>.

  A slot has a flag and an event; its mutex and its two condition variables hold no data.  The
  functions here are what a call does when no other thread runs between: \<open>Blocked\<close> is a call that
  waits for a condition.  How calls of several threads interleave is modelled in \<open>FG_Pool_Steps\<close>.
  The locale \<open>slot_pool\<close> is the contract the client and the server rely on.
\<close>

definition MAX_THREADS :: nat where
  "MAX_THREADS = 64"

definition THREAD_IDLE :: int where
  "THREAD_IDLE = 0"

definition THREAD_BUSY :: int where
  "THREAD_BUSY = 1"

definition THREAD_INVALID :: int where
  "THREAD_INVALID = 2"

lemmas flag_defs = THREAD_IDLE_def THREAD_BUSY_def THREAD_INVALID_def

record event_info =
  ev_fd :: u32
  ev_flow_size :: u32

record events_poll =
  poll_flag :: int
  poll_event :: event_info

text \<open>The loop of \<open>get_valid_thread\<close>, from slot \<open>i\<close> on; the array has \<open>MAX_THREADS\<close> slots.\<close>

fun valid_thread_from :: "nat \<Rightarrow> events_poll list \<Rightarrow> int" where
  "valid_thread_from i [] = -1"
| "valid_thread_from i (poll # polls) =
     (if poll_flag poll = THREAD_IDLE then int i else valid_thread_from (i + 1) polls)"

definition get_valid_thread :: "events_poll list \<Rightarrow> int" where
  "get_valid_thread polls = valid_thread_from 0 polls"

text \<open>What \<open>event_push\<close> writes while it holds the mutex of the slot.\<close>

definition store_event :: "u32 \<Rightarrow> u32 \<Rightarrow> events_poll \<Rightarrow> events_poll" where
  "store_event fd flow_size poll =
     poll\<lparr>poll_flag := THREAD_BUSY, poll_event := \<lparr>ev_fd = fd, ev_flow_size = flow_size\<rparr>\<rparr>"

definition event_push :: "events_poll list \<Rightarrow> u32 \<Rightarrow> u32 \<Rightarrow> (events_poll list \<times> nat) run" where
  "event_push polls fd flow_size =
     (let index = get_valid_thread polls in
      if index < 0 then Exited EXIT_SUCCESS
      else
        run_bind (of_access (c_read polls (nat index))) (\<lambda>poll.
          if poll_flag poll = THREAD_BUSY then Blocked
          else Returned (polls[nat index := store_event fd flow_size poll], nat index)))"

definition event_pop :: "events_poll \<Rightarrow> event_info run" where
  "event_pop poll =
     (if poll_flag poll = THREAD_IDLE then Blocked
      else Returned \<lparr>ev_fd = ev_fd (poll_event poll),
                     ev_flow_size = ev_flow_size (poll_event poll)\<rparr>)"

definition init_events_poll :: "int \<Rightarrow> events_poll" where
  "init_events_poll flag = \<lparr>poll_flag = flag, poll_event = \<lparr>ev_fd = 0, ev_flow_size = 0\<rparr>\<rparr>"

definition init_events_polls :: "events_poll list \<Rightarrow> nat \<Rightarrow> events_poll list option" where
  "init_events_polls polls threads_num =
     do {
       polls' \<leftarrow> fold_option (\<lambda>i ps. c_write ps i (init_events_poll THREAD_IDLE))
                  [0..<threads_num] polls;
       fold_option (\<lambda>i ps. c_write ps i (init_events_poll THREAD_INVALID))
                  [threads_num..<MAX_THREADS] polls'
     }"

section \<open>Sequential behaviour\<close>

lemma valid_thread_from_spec:
  "valid_thread_from i polls =
     (if \<exists>j<length polls. poll_flag (polls ! j) = THREAD_IDLE
      then int (i + (LEAST j. j < length polls \<and> poll_flag (polls ! j) = THREAD_IDLE)) else -1)"
proof (induction polls arbitrary: i)
  case (Cons p ps)
  show ?case
  proof (cases "poll_flag p = THREAD_IDLE")
    case True
    then have "(LEAST j. j < length (p # ps) \<and> poll_flag ((p # ps) ! j) = THREAD_IDLE) = 0"
      by (intro Least_equality) auto
    with True show ?thesis by force
  next
    case False
    have ex: "(\<exists>j<length (p # ps). poll_flag ((p # ps) ! j) = THREAD_IDLE)
        \<longleftrightarrow> (\<exists>j<length ps. poll_flag (ps ! j) = THREAD_IDLE)"
      using False by (auto simp: less_Suc_eq_0_disj)
    show ?thesis
    proof (cases "\<exists>j<length ps. poll_flag (ps ! j) = THREAD_IDLE")
      case True
      then obtain j where "j < length ps \<and> poll_flag (ps ! j) = THREAD_IDLE" by blast
      then have "Suc j < length (p # ps) \<and> poll_flag ((p # ps) ! Suc j) = THREAD_IDLE" by simp
      then have "(LEAST j. j < length (p # ps) \<and> poll_flag ((p # ps) ! j) = THREAD_IDLE)
          = Suc (LEAST j. Suc j < length (p # ps) \<and> poll_flag ((p # ps) ! Suc j) = THREAD_IDLE)"
        using False by (intro Least_Suc [where n = "Suc j"]) simp_all
      with True False ex Cons.IH [of "i + 1"] show ?thesis by simp
    next
      case none: False
      with False ex Cons.IH [of "i + 1"] show ?thesis by simp
    qed
  qed
qed simp

definition idle_slots :: "events_poll list \<Rightarrow> nat set" where
  "idle_slots polls = {j. j < length polls \<and> poll_flag (polls ! j) = THREAD_IDLE}"

lemma finite_idle_slots [simp]: "finite (idle_slots polls)"
  by (simp add: idle_slots_def)

lemma get_valid_thread_spec:
  "get_valid_thread polls =
     (if idle_slots polls = {} then -1 else int (LEAST j. j \<in> idle_slots polls))"
  by (auto simp: get_valid_thread_def valid_thread_from_spec idle_slots_def)

lemma get_valid_thread_eq_int:
  assumes "get_valid_thread polls = int i"
  shows "i \<in> idle_slots polls"
proof -
  from assms have "idle_slots polls \<noteq> {}" "i = (LEAST j. j \<in> idle_slots polls)"
    by (auto simp: get_valid_thread_spec split: if_splits)
  then show ?thesis by (metis LeastI ex_in_conv)
qed

lemma event_push_full: "idle_slots polls = {} \<Longrightarrow> event_push polls fd size' = Exited EXIT_SUCCESS"
  by (simp add: event_push_def get_valid_thread_spec)

lemma event_push_idle:
  assumes "idle_slots polls \<noteq> {}"
  shows "\<exists>i. i \<in> idle_slots polls \<and>
    event_push polls fd size' = Returned (polls[i := store_event fd size' (polls ! i)], i)"
proof -
  define i where "i = (LEAST j. j \<in> idle_slots polls)"
  have i: "i \<in> idle_slots polls" using assms unfolding i_def by (metis LeastI ex_in_conv)
  then have "i < length polls" "poll_flag (polls ! i) \<noteq> THREAD_BUSY"
    by (auto simp: idle_slots_def flag_defs)
  with assms have "event_push polls fd size' = Returned (polls[i := store_event fd size' (polls ! i)], i)"
    by (simp add: event_push_def get_valid_thread_spec i_def [symmetric] c_read_def Let_def)
  with i show ?thesis by blast
qed

lemma idle_slots_store [simp]:
  "idle_slots (polls[i := store_event fd size' p]) = idle_slots polls - {i}"
  by (cases "i < length polls")
    (auto simp: idle_slots_def store_event_def nth_list_update flag_defs split: if_splits)

lemma idle_slots_release [simp]:
  "i < length polls \<Longrightarrow>
     idle_slots (polls[i := p\<lparr>poll_flag := THREAD_IDLE\<rparr>]) = insert i (idle_slots polls)"
  by (auto simp: idle_slots_def nth_list_update)

lemma init_slots_loop:
  "b \<le> length polls \<Longrightarrow> a \<le> b \<Longrightarrow>
     fold_option (\<lambda>i ps. c_write ps i x) [a..<b] polls
       = Some (take a polls @ replicate (b - a) x @ drop b polls)"
proof (induction b)
  case (Suc b)
  show ?case
  proof (cases "a \<le> b")
    case True
    then have "fold_option (\<lambda>i ps. c_write ps i x) [a..<b] polls
        = Some (take a polls @ replicate (b - a) x @ drop b polls)"
      using Suc by simp
    moreover have "drop b polls = polls ! b # drop (Suc b) polls"
      using Suc.prems(1) by (simp add: Cons_nth_drop_Suc)
    ultimately show ?thesis
      using True Suc.prems
      by (simp add: fold_option_append c_write_def list_update_append Suc_diff_le
          replicate_append_same)
  next
    case False
    with Suc.prems have "a = Suc b" by simp
    then show ?thesis by simp
  qed
qed simp

lemma init_events_polls_spec:
  assumes "length polls = MAX_THREADS" "n \<le> MAX_THREADS"
  shows "init_events_polls polls n =
    Some (replicate n (init_events_poll THREAD_IDLE)
          @ replicate (MAX_THREADS - n) (init_events_poll THREAD_INVALID))"
  using assms by (simp add: init_events_polls_def init_slots_loop)

section \<open>The contract of the slots\<close>

text \<open>
  A pool has idle slots; \<open>push\<close> hands an event to an idle slot if there is one, without waiting,
  and ends the program otherwise; \<open>release\<close> makes a slot idle again.
\<close>

locale slot_pool =
  fixes wf :: "'p \<Rightarrow> bool"
    and capacity :: "'p \<Rightarrow> nat set"
    and idle :: "'p \<Rightarrow> nat set"
    and held :: "'p \<Rightarrow> nat \<Rightarrow> 'e"
    and push :: "'p \<Rightarrow> 'e \<Rightarrow> ('p \<times> nat) run"
    and release :: "'p \<Rightarrow> nat \<Rightarrow> 'p"
  assumes finite_capacity: "wf p \<Longrightarrow> finite (capacity p)"
    and idle_capacity: "wf p \<Longrightarrow> idle p \<subseteq> capacity p"
    and push_full: "wf p \<Longrightarrow> idle p = {} \<Longrightarrow> push p e = Exited EXIT_SUCCESS"
    and push_idle: "wf p \<Longrightarrow> idle p \<noteq> {} \<Longrightarrow>
      \<exists>i q. push p e = Returned (q, i) \<and> i \<in> idle p \<and> wf q \<and> capacity q = capacity p
        \<and> idle q = idle p - {i} \<and> held q = (held p)(i := e)"
    and release_slot: "wf p \<Longrightarrow> i \<in> capacity p \<Longrightarrow>
      wf (release p i) \<and> capacity (release p i) = capacity p
        \<and> idle (release p i) = insert i (idle p) \<and> held (release p i) = held p"
begin

definition busy :: "'p \<Rightarrow> nat set" where
  "busy p = capacity p - idle p"

lemma card_busy_idle: "wf p \<Longrightarrow> card (busy p) + card (idle p) = card (capacity p)"
  unfolding busy_def
  by (metis finite_capacity idle_capacity card_Diff_subset finite_subset card_mono
      le_add_diff_inverse2)

lemma push_returns_iff: "wf p \<Longrightarrow> (\<exists>r. push p e = Returned r) \<longleftrightarrow> card (busy p) < card (capacity p)"
proof -
  assume wf: "wf p"
  have fin: "finite (idle p)"
    using finite_capacity [OF wf] idle_capacity [OF wf] finite_subset by blast
  have "card (busy p) < card (capacity p) \<longleftrightarrow> 0 < card (idle p)"
    using card_busy_idle [OF wf] by linarith
  also have "\<dots> \<longleftrightarrow> idle p \<noteq> {}" using fin by (simp add: card_gt_0_iff)
  finally have "card (busy p) < card (capacity p) \<longleftrightarrow> idle p \<noteq> {}" .
  then show ?thesis
    using push_full [OF wf, of e] push_idle [OF wf, of e] by (cases "idle p = {}") auto
qed

lemma push_makes_busy:
  assumes "wf p" "push p e = Returned (q, i)"
  shows "wf q" "capacity q = capacity p" "i \<in> idle p" "busy q = insert i (busy p)"
    "card (busy q) = Suc (card (busy p))" "held q = (held p)(i := e)"
proof -
  have "idle p \<noteq> {}" using assms push_full by fastforce
  then obtain j r where r: "push p e = Returned (r, j)" "j \<in> idle p" "wf r"
    "capacity r = capacity p" "idle r = idle p - {j}" "held r = (held p)(j := e)"
    using push_idle [OF assms(1), of e] by blast
  then have "r = q" "j = i" using assms(2) by simp_all
  with r idle_capacity [OF assms(1)] show 1: "wf q" "capacity q = capacity p" "i \<in> idle p"
    "busy q = insert i (busy p)" "held q = (held p)(i := e)"
    by (auto simp: busy_def)
  have "finite (busy p)" "i \<notin> busy p"
    using finite_capacity [OF assms(1)] 1(3) by (auto simp: busy_def)
  with 1(4) show "card (busy q) = Suc (card (busy p))" by simp
qed

lemma release_makes_idle:
  assumes "wf p" "i \<in> busy p"
  shows "wf (release p i)" "capacity (release p i) = capacity p"
    "busy (release p i) = busy p - {i}" "Suc (card (busy (release p i))) = card (busy p)"
    "held (release p i) = held p"
proof -
  have "i \<in> capacity p" using assms(2) by (simp add: busy_def)
  with release_slot [OF assms(1) this] show 1: "wf (release p i)"
    "capacity (release p i) = capacity p" "busy (release p i) = busy p - {i}"
    "held (release p i) = held p"
    by (auto simp: busy_def)
  have "finite (busy p)" using finite_capacity [OF assms(1)] by (simp add: busy_def)
  with 1(3) assms(2) show "Suc (card (busy (release p i))) = card (busy p)"
    by (metis card_Suc_Diff1)
qed

end

text \<open>
  The pool of the generator with \<open>n\<close> worker threads: 64 slots, of which the first \<open>n\<close> are in use.
\<close>

definition wf_polls :: "nat \<Rightarrow> events_poll list \<Rightarrow> bool" where
  "wf_polls n polls \<longleftrightarrow> length polls = MAX_THREADS \<and> n \<le> MAX_THREADS
     \<and> (\<forall>i<n. poll_flag (polls ! i) = THREAD_IDLE \<or> poll_flag (polls ! i) = THREAD_BUSY)
     \<and> (\<forall>i<MAX_THREADS. n \<le> i \<longrightarrow> poll_flag (polls ! i) = THREAD_INVALID)"

definition push_event :: "events_poll list \<Rightarrow> event_info \<Rightarrow> (events_poll list \<times> nat) run" where
  "push_event polls e = event_push polls (ev_fd e) (ev_flow_size e)"

definition release_slot :: "events_poll list \<Rightarrow> nat \<Rightarrow> events_poll list" where
  "release_slot polls i = polls[i := (polls ! i)\<lparr>poll_flag := THREAD_IDLE\<rparr>]"

definition held_event :: "events_poll list \<Rightarrow> nat \<Rightarrow> event_info" where
  "held_event polls i = (if i < MAX_THREADS then poll_event (polls ! i) else \<lparr>ev_fd = 0, ev_flow_size = 0\<rparr>)"

lemma wf_polls_idle: "wf_polls n polls \<Longrightarrow> idle_slots polls \<subseteq> {..<n}"
  by (force simp: wf_polls_def idle_slots_def flag_defs not_less [symmetric])

lemma wf_polls_init:
  "n \<le> MAX_THREADS \<Longrightarrow> wf_polls n (replicate n (init_events_poll THREAD_IDLE)
          @ replicate (MAX_THREADS - n) (init_events_poll THREAD_INVALID))"
  by (auto simp: wf_polls_def init_events_poll_def nth_append)

interpretation polls: slot_pool "wf_polls n" "\<lambda>_. {..<n}" idle_slots held_event push_event release_slot
  for n
proof
  fix p :: "events_poll list" and e i
  assume wf: "wf_polls n p"
  show "idle_slots p \<subseteq> {..<n}" using wf by (rule wf_polls_idle)
  show "push_event p e = Exited EXIT_SUCCESS" if "idle_slots p = {}"
    using that by (simp add: push_event_def event_push_full)
  show "\<exists>i q. push_event p e = Returned (q, i) \<and> i \<in> idle_slots p \<and> wf_polls n q
      \<and> {..<n} = {..<n} \<and> idle_slots q = idle_slots p - {i} \<and> held_event q = (held_event p)(i := e)"
    if ne: "idle_slots p \<noteq> {}"
  proof -
    obtain i where i: "i \<in> idle_slots p" "push_event p e =
        Returned (p[i := store_event (ev_fd e) (ev_flow_size e) (p ! i)], i)"
      using event_push_idle [OF ne] unfolding push_event_def by blast
    have bd: "i < n" "i < length p" "n \<le> length p" "length p = MAX_THREADS"
      using i(1) wf wf_polls_idle [OF wf] by (auto simp: wf_polls_def)
    have "wf_polls n (p[i := store_event (ev_fd e) (ev_flow_size e) (p ! i)])"
      using wf bd by (auto simp: wf_polls_def nth_list_update store_event_def)
    moreover have "held_event (p[i := store_event (ev_fd e) (ev_flow_size e) (p ! i)])
        = (held_event p)(i := e)"
      using bd by (auto simp: held_event_def fun_eq_iff nth_list_update store_event_def)
    ultimately show ?thesis using i by auto
  qed
  show "wf_polls n (release_slot p i) \<and> {..<n} = {..<n}
      \<and> idle_slots (release_slot p i) = insert i (idle_slots p)
      \<and> held_event (release_slot p i) = held_event p" if "i \<in> {..<n}"
    using that wf
    by (auto simp: wf_polls_def release_slot_def held_event_def fun_eq_iff nth_list_update)
qed simp

lemma busy_init:
  "n \<le> MAX_THREADS \<Longrightarrow> polls.busy n (replicate n (init_events_poll THREAD_IDLE)
        @ replicate (MAX_THREADS - n) (init_events_poll THREAD_INVALID)) = {}"
  by (auto simp: polls.busy_def idle_slots_def nth_append init_events_poll_def)

lemma finite_busy [simp]: "finite (polls.busy n p)"
  by (simp add: polls.busy_def)

lemma busy_less: "i \<in> polls.busy n p \<Longrightarrow> i < n"
  by (simp add: polls.busy_def)

lemma event_push_slots:
  assumes "wf_polls n p" "event_push p fd k = Returned (q, i)"
  shows "wf_polls n q" "i < n" "i \<notin> polls.busy n p" "polls.busy n q = insert i (polls.busy n p)"
  using polls.push_makes_busy [OF assms(1), of "\<lparr>ev_fd = fd, ev_flow_size = k\<rparr>" q i] assms
    wf_polls_idle [OF assms(1)]
  by (auto simp: push_event_def polls.busy_def)

section \<open>Push and pop\<close>

text \<open>
  In a pool of \<open>n\<close> threads, \<open>event_push\<close> ends the program (with status 0) exactly when no
  slot is idle.  Otherwise it returns without waiting, takes an idle slot of one of the threads,
  leaves all other slots alone, and \<open>event_pop\<close> on the slot returns the descriptor and the size.
\<close>

theorem event_push_pop:
  assumes "wf_polls n polls"
  shows "(event_push polls fd size' = Exited EXIT_SUCCESS) = (idle_slots polls = {})
    \<and> (idle_slots polls \<noteq> {} \<longrightarrow>
      (\<exists>i<n. i \<in> idle_slots polls \<and> (\<exists>poll. event_push polls fd size' = Returned (polls[i := poll], i)
         \<and> wf_polls n (polls[i := poll]) \<and> poll_flag poll = THREAD_BUSY
         \<and> event_pop poll = Returned \<lparr>ev_fd = fd, ev_flow_size = size'\<rparr>)))"
proof (intro conjI)
  have push: "\<exists>i<n. i \<in> idle_slots polls \<and>
      (\<exists>poll. event_push polls fd size' = Returned (polls[i := poll], i)
         \<and> wf_polls n (polls[i := poll]) \<and> poll_flag poll = THREAD_BUSY
         \<and> event_pop poll = Returned \<lparr>ev_fd = fd, ev_flow_size = size'\<rparr>)"
    if ne: "idle_slots polls \<noteq> {}"
  proof -
    obtain i where i: "i \<in> idle_slots polls"
      "event_push polls fd size' = Returned (polls[i := store_event fd size' (polls ! i)], i)"
      using event_push_idle [OF ne] by blast
    then have "wf_polls n (polls[i := store_event fd size' (polls ! i)])"
      using polls.push_makes_busy(1) [OF assms, of "\<lparr>ev_fd = fd, ev_flow_size = size'\<rparr>"]
      by (simp add: push_event_def)
    moreover have "i < n" using i(1) wf_polls_idle [OF assms] by auto
    ultimately show ?thesis
      using i by (intro exI [of _ i] conjI exI [of _ "store_event fd size' (polls ! i)"])
        (simp_all add: store_event_def event_pop_def flag_defs)
  qed
  then show "idle_slots polls \<noteq> {} \<longrightarrow>
      (\<exists>i<n. i \<in> idle_slots polls \<and> (\<exists>poll. event_push polls fd size' = Returned (polls[i := poll], i)
         \<and> wf_polls n (polls[i := poll]) \<and> poll_flag poll = THREAD_BUSY
         \<and> event_pop poll = Returned \<lparr>ev_fd = fd, ev_flow_size = size'\<rparr>))" ..
  show "(event_push polls fd size' = Exited EXIT_SUCCESS) = (idle_slots polls = {})"
    using push by (cases "idle_slots polls = {}") (auto simp: event_push_full)
qed

theorem event_push_pop_witness:
  "\<exists>i<2. \<exists>poll. event_push (replicate 2 (init_events_poll THREAD_IDLE)
        @ replicate 62 (init_events_poll THREAD_INVALID)) 7 100
      = Returned ((replicate 2 (init_events_poll THREAD_IDLE)
        @ replicate 62 (init_events_poll THREAD_INVALID))[i := poll], i)
    \<and> event_pop poll = Returned \<lparr>ev_fd = 7, ev_flow_size = 100\<rparr>"
proof -
  define ps where "ps = replicate 2 (init_events_poll THREAD_IDLE)
        @ replicate 62 (init_events_poll THREAD_INVALID)"
  have "wf_polls 2 ps"
    using wf_polls_init [of 2] by (simp add: ps_def MAX_THREADS_def)
  moreover have "0 \<in> idle_slots ps"
    by (simp add: idle_slots_def ps_def nth_append init_events_poll_def)
  ultimately show ?thesis
    using event_push_pop [of 2 ps 7 100] unfolding ps_def [symmetric] by blast
qed

end
