(* ===== verification/FG_Client_Configs.thy ===== *)
theory FG_Client_Configs
  imports FG_Sockets
begin

text \<open>
  The configuration of the client, from \<open>flow_generator/src/client/client_configs.c\<close> and
  \<open>client_configs.h\<close>.

  The command line is the list of the options \<open>getopt\<close> returns with their arguments; \<open>atoi\<close>
  is an argument.
\<close>

definition SERVER_PORT :: int where
  "SERVER_PORT = 9001"

definition MAX_SERVER_IPS :: nat where
  "MAX_SERVER_IPS = MAX_IPS"

record flow_configs =
  fc_flows_num :: u32
  fc_concurrent_flows :: u32
  fc_dev :: string
  fc_verbose :: bool
  fc_server :: string
  fc_port :: u32
  fc_result_file :: string
  fc_threads :: u32
  fc_memaslap :: u32

record dst_configs =
  dst_ip :: string
  dst_port :: u32

record socket_configs =
  sips :: src_ips
  dst_hosts :: "dst_configs list"
  dst_num :: u32

definition init_flow_configs :: "flow_configs" where
  "init_flow_configs =
     \<lparr>fc_flows_num = 0, fc_concurrent_flows = 1, fc_dev = ''eth2'', fc_verbose = False,
      fc_server = '''', fc_port = word_of_int SERVER_PORT, fc_result_file = ''0'',
      fc_threads = 1, fc_memaslap = 10000\<rparr>"

text \<open>One option of \<open>read_args\<close>; an unknown one only prints the usage.\<close>

definition read_arg :: "(string \<Rightarrow> int) \<Rightarrow> char \<times> string \<Rightarrow> flow_configs \<Rightarrow> flow_configs run" where
  "read_arg atoi opt conf =
     (case opt of (result, optarg) \<Rightarrow>
        if result = CHR ''h'' then Exited 0
        else if result = CHR ''v'' then Returned (conf\<lparr>fc_verbose := True\<rparr>)
        else if result = CHR ''n'' then Returned (conf\<lparr>fc_flows_num := word_of_int (atoi optarg)\<rparr>)
        else if result = CHR ''c'' then
          Returned (conf\<lparr>fc_concurrent_flows := word_of_int (atoi optarg)\<rparr>)
        else if result = CHR ''i'' then
          run_bind (of_access (c_strcpy DEV_NAME_LEN optarg)) (\<lambda>s. Returned (conf\<lparr>fc_dev := s\<rparr>))
        else if result = CHR ''s'' then
          run_bind (of_access (c_strcpy NI_MAXHOST optarg)) (\<lambda>s. Returned (conf\<lparr>fc_server := s\<rparr>))
        else if result = CHR ''p'' then Returned (conf\<lparr>fc_port := word_of_int (atoi optarg)\<rparr>)
        else if result = CHR ''f'' then
          run_bind (of_access (c_strcpy FILENAME_SIZE optarg)) (\<lambda>s. Returned (conf\<lparr>fc_result_file := s\<rparr>))
        else if result = CHR ''t'' then Returned (conf\<lparr>fc_threads := word_of_int (atoi optarg)\<rparr>)
        else if result = CHR ''m'' then Returned (conf\<lparr>fc_memaslap := word_of_int (atoi optarg)\<rparr>)
        else Returned conf)"

fun read_options :: "(string \<Rightarrow> int) \<Rightarrow> (char \<times> string) list \<Rightarrow> flow_configs \<Rightarrow> flow_configs run" where
  "read_options atoi [] conf = Returned conf"
| "read_options atoi (opt # rest) conf = run_bind (read_arg atoi opt conf) (read_options atoi rest)"

definition read_args :: "(string \<Rightarrow> int) \<Rightarrow> (char \<times> string) list \<Rightarrow> flow_configs \<Rightarrow> flow_configs run" where
  "read_args atoi opts conf0 =
     run_bind (read_options atoi opts conf0) (\<lambda>conf.
       if fc_server conf = '''' then Exited 0
       else if fc_threads conf < fc_concurrent_flows conf then Exited 0
       else Returned conf)"

definition get_flow_configs :: "(string \<Rightarrow> int) \<Rightarrow> (char \<times> string) list \<Rightarrow> flow_configs run" where
  "get_flow_configs atoi opts = read_args atoi opts init_flow_configs"

definition init_socket_configs :: "socket_configs" where
  "init_socket_configs =
     \<lparr>sips = init_ips, dst_hosts = replicate MAX_SERVER_IPS \<lparr>dst_ip = '''', dst_port = 0\<rparr>, dst_num = 0\<rparr>"

definition get_dst_info :: "dst_configs list \<Rightarrow> flow_configs \<Rightarrow> (dst_configs list \<times> int) option" where
  "get_dst_info dst_conf conf =
     do {
       ip \<leftarrow> c_strcpy NI_MAXHOST (fc_server conf);
       dsts \<leftarrow> c_write dst_conf 0 \<lparr>dst_ip = ip, dst_port = fc_port conf\<rparr>;
       Some (dsts, 1)
     }"

definition read_socket_configs ::
    "ifaddr list option \<Rightarrow> socket_configs \<Rightarrow> flow_configs \<Rightarrow> socket_configs run" where
  "read_socket_configs ifaddrs sc conf =
     run_bind (get_src_ips ifaddrs init_ips (fc_dev conf)) (\<lambda>(ips, num).
       if num = 0 then Exited 0
       else
         run_bind (of_access (get_dst_info (dst_hosts sc) conf)) (\<lambda>(dsts, k).
           if k \<le> 0 then Exited 0
           else Returned (sc\<lparr>sips := ips, dst_hosts := dsts, dst_num := word_of_int k\<rparr>)))"

definition get_socket_configs :: "ifaddr list option \<Rightarrow> flow_configs \<Rightarrow> socket_configs run" where
  "get_socket_configs ifaddrs conf = read_socket_configs ifaddrs init_socket_configs conf"

definition get_conn :: "socket_configs \<Rightarrow> nat \<Rightarrow> connection_four_tuples option" where
  "get_conn sc index =
     do {
       source \<leftarrow> c_read (ips_ips (sips sc)) index;
       s \<leftarrow> c_strcpy NI_MAXHOST source;
       dst \<leftarrow> c_read (dst_hosts sc) 0;
       d \<leftarrow> c_strcpy NI_MAXHOST (dst_ip dst);
       Some \<lparr>saddr = s, daddr = d, sport = 0, dport = dst_port dst\<rparr>
     }"

definition get_client_configs ::
    "(string \<Rightarrow> int) \<Rightarrow> ifaddr list option \<Rightarrow> (char \<times> string) list
     \<Rightarrow> (flow_configs \<times> socket_configs \<times> connection_four_tuples) run" where
  "get_client_configs atoi ifaddrs opts =
     run_bind (get_flow_configs atoi opts) (\<lambda>conf.
     run_bind (get_socket_configs ifaddrs conf) (\<lambda>sc.
     run_bind (of_access (get_conn sc 0)) (\<lambda>conn.
       Returned (conf, sc, conn))))"

section \<open>Printing\<close>

definition print_socket_configs :: "socket_configs \<Rightarrow> string option" where
  "print_socket_configs sc =
     fold_option (\<lambda>d out. do {
         dst \<leftarrow> c_read (dst_hosts sc) d;
         Some (out @ ''Server ip: '' @ dst_ip dst @ newline
               @ ''Server port: '' @ show_int (sint (dst_port dst)) @ newline) })
       [0..<unat (dst_num sc)] (print_split ''Server information'' @ print_src_ips (sips sc))"

definition print_flow_configs :: "flow_configs \<Rightarrow> string" where
  "print_flow_configs conf =
     print_split ''Client configuration''
     @ ''Flows: '' @ show_nat (unat (fc_flows_num conf)) @ newline
     @ ''Concurrent flows: '' @ show_nat (unat (fc_concurrent_flows conf)) @ newline
     @ ''Threads: '' @ show_nat (unat (fc_threads conf)) @ newline
     @ ''Memaslap: '' @ show_nat (unat (fc_memaslap conf)) @ newline
     @ ''Device name: '' @ fc_dev conf @ newline
     @ ''Verbose mode: '' @ (if fc_verbose conf = False then ''False'' else ''True'') @ newline"

definition client_usage :: string where
  "client_usage =
     ''Usage: '' @ newline
     @ ''-n <number>     number of flows'' @ newline
     @ ''-c <number>     number of concurrent flows'' @ newline
     @ ''-m <number>     number of memcached'' @ newline
     @ ''-t'' @ [CHR 0x09] @ ''            number of threads'' @ newline
     @ ''-f'' @ [CHR 0x09] @ ''            result filename'' @ newline
     @ ''-v              give more detailed output (verbose)'' @ newline
     @ ''-i              device name'' @ newline
     @ ''-h              display help information'' @ newline
     @ ''-s              server ip'' @ newline
     @ ''-p              server port'' @ newline"

section \<open>What an accepted configuration satisfies\<close>

text \<open>The names in a configuration fit their buffers.\<close>

definition fits :: "flow_configs \<Rightarrow> bool" where
  "fits conf \<longleftrightarrow> length (fc_dev conf) < DEV_NAME_LEN \<and> length (fc_server conf) < NI_MAXHOST
     \<and> length (fc_result_file conf) < FILENAME_SIZE"

lemma c_strcpy_eq_Some_iff: "c_strcpy cap s = Some t \<longleftrightarrow> t = s \<and> length s < cap"
  by (auto simp: c_strcpy_def)

lemma read_arg_fits: "read_arg atoi opt conf = Returned conf' \<Longrightarrow> fits conf \<Longrightarrow> fits conf'"
  by (cases opt)
    (auto simp: read_arg_def fits_def run_bind_eq_Returned_iff c_strcpy_eq_Some_iff split: if_splits)

lemma read_options_fits:
  "read_options atoi opts conf = Returned conf' \<Longrightarrow> fits conf \<Longrightarrow> fits conf'"
  by (induction opts arbitrary: conf) (auto simp: run_bind_eq_Returned_iff intro: read_arg_fits)

lemma fits_init: "fits init_flow_configs"
  by (simp add: fits_def init_flow_configs_def DEV_NAME_LEN_def NI_MAXHOST_def FILENAME_SIZE_def)

lemma get_flow_configs_accepts:
  assumes "get_flow_configs atoi opts = Returned conf"
  shows "fits conf" "fc_server conf \<noteq> ''''" "fc_concurrent_flows conf \<le> fc_threads conf"
  using assms read_options_fits [OF _ fits_init]
  by (auto simp: get_flow_configs_def read_args_def run_bind_eq_Returned_iff not_less split: if_splits)

text \<open>
  When every selected address has a name that fits and an accepted command line names a
  device of at most 14 characters with at most 16 addresses, the client connects from the first
  address of the device, with any source port, to the server and port given, and has at least as
  many threads as concurrent flows; without an address of the device it ends.
\<close>

theorem client_configs_accepted:
  assumes "get_flow_configs atoi opts = Returned conf" "fc_dev conf \<noteq> ''''"
    and "length (fc_dev conf) < 15"
    and "list_all (\<lambda>ifa. is_selected (fc_dev conf) ifa \<longrightarrow> has_host ifa) addrs"
    and "length (filter (is_selected (fc_dev conf)) addrs) \<le> MAX_IPS"
  shows "fc_concurrent_flows conf \<le> fc_threads conf \<and> fc_server conf \<noteq> '''' \<and>
    (case filter (is_selected (fc_dev conf)) addrs of
       [] \<Rightarrow> get_client_configs atoi (Some addrs) opts = Exited 0
     | first # _ \<Rightarrow> (\<exists>sc conn. get_client_configs atoi (Some addrs) opts = Returned (conf, sc, conn)
         \<and> Some (saddr conn) = ifa_host first \<and> daddr conn = fc_server conf
         \<and> sport conn = 0 \<and> dport conn = fc_port conf))"
proof -
  note ok = get_flow_configs_accepts [OF assms(1)]
  define found where "found = map (the \<circ> ifa_host) (filter (is_selected (fc_dev conf)) addrs)"
  have ips: "get_src_ips (Some addrs) init_ips (fc_dev conf)
      = Returned (ips_of (fc_dev conf) found, length found)"
    using get_src_ips_returns [OF assms(2,4)] assms(3,5) by (simp add: found_def Let_def)
  show ?thesis
  proof (cases "filter (is_selected (fc_dev conf)) addrs")
    case Nil
    with ok assms(1) ips show ?thesis
      by (simp add: get_client_configs_def get_socket_configs_def read_socket_configs_def found_def)
  next
    case (Cons first rest)
    then have "first \<in> set addrs" "is_selected (fc_dev conf) first"
      by (auto dest: filter_eq_ConsD)
    then obtain h where h: "ifa_host first = Some h" "length h < NI_MAXHOST"
      using assms(4) by (auto simp: list_all_iff has_host_def)
    have found: "found = h # map (the \<circ> ifa_host) rest"
      using Cons h by (simp add: found_def)
    have "length (fc_server conf) < NI_MAXHOST"
      using ok(1) by (simp add: fits_def)
    with ok assms(1) ips h Cons show ?thesis
      by (simp add: get_client_configs_def get_socket_configs_def read_socket_configs_def found
          get_dst_info_def init_socket_configs_def c_write_def c_read_def get_conn_def ips_of_def
          c_strcpy_def MAX_SERVER_IPS_def MAX_IPS_def)
  qed
qed

definition sample_atoi :: "string \<Rightarrow> int" where
  "sample_atoi s = (if s = ''12'' then 12 else if s = ''10'' then 10 else 0)"

definition sample_opts :: "(char \<times> string) list" where
  "sample_opts = [(CHR ''c'', ''10''), (CHR ''t'', ''12''), (CHR ''i'', ''eth0''), (CHR ''s'', ''10.0.0.9'')]"

definition sample_conf :: flow_configs where
  "sample_conf = init_flow_configs\<lparr>fc_concurrent_flows := 10, fc_threads := 12, fc_dev := ''eth0'',
     fc_server := ''10.0.0.9''\<rparr>"

theorem client_configs_accepted_witness:
  "\<exists>sc conn. get_client_configs sample_atoi (Some [eth0_addr]) sample_opts
       = Returned (sample_conf, sc, conn)
     \<and> saddr conn = ''10.0.0.1'' \<and> daddr conn = ''10.0.0.9''"
proof -
  have conf: "get_flow_configs sample_atoi sample_opts = Returned sample_conf"
    by code_simp
  have dev: "fc_dev sample_conf = ''eth0''" "fc_server sample_conf = ''10.0.0.9''"
    by (simp_all add: sample_conf_def)
  have "is_selected ''eth0'' eth0_addr" "has_host eth0_addr" "ifa_host eth0_addr = Some ''10.0.0.1''"
    by (simp_all add: is_selected_def has_host_def eth0_addr_def NI_MAXHOST_def)
  then show ?thesis
    using client_configs_accepted [OF conf, of "[eth0_addr]"] by (auto simp: dev MAX_IPS_def)
qed

end
