(* ===== verification/FG_Client.thy ===== *)
theory FG_Client
  imports FG_CDF_Spec FG_Statistics_Spec FG_Epoll FG_Transfer FG_Thread_Poll FG_Client_Configs
begin

text \<open>
  The client, from \<open>flow_generator/src/client/client.c\<close> and \<open>client.h\<close>: the start, the handling of
  an epoll event by the epoll thread, the serving of a flow by a worker thread, and the end.

  The state holds the global variables; \<open>cl_effects\<close> lists the system calls made.  The answers
  of the system are arguments.  The functions here run without interference; how the threads
  interleave is in \<open>FG_Client_Steps\<close>.  The script the shell thread starts is not modelled.
\<close>

definition BACKUP :: u32 where
  "BACKUP = 64"

record client =
  cl_efd :: int
  cl_left_flows :: u32
  cl_active_flows :: u32
  cl_time_table :: flow_time_table
  cl_polls :: "events_poll list"
  cl_flows_size :: "int \<Rightarrow> u32"
  cl_kill :: bool
  cl_memaslap :: bool
  cl_effects :: "effect list"

section \<open>Sizes and deletion\<close>

text \<open>The size is a \<open>double\<close> truncated to \<open>int\<close>, which is undefined if it does not fit.\<close>

definition get_flow_size :: "cdf_table option \<Rightarrow> int \<Rightarrow> int run" where
  "get_flow_size req_size_dist r =
     run_bind (gen_random_cdf req_size_dist r) (\<lambda>y.
       let n = (if 0 \<le> y then \<lfloor>y\<rfloor> else \<lceil>y\<rceil>)
       in if - (2 ^ 31) \<le> n \<and> n < 2 ^ 31 then Returned n else Faulted)"

definition del_flow :: "int \<Rightarrow> int \<Rightarrow> client \<Rightarrow> client run" where
  "del_flow ctl fd c =
     (let (effects, r) = delete_epoll_event (cl_efd c) fd ctl in
      run_bind (del_flow_time_entry (cl_time_table c) fd) (\<lambda>t.
        Returned (c\<lparr>cl_time_table := t, cl_effects := cl_effects c @ effects @ [Net (Close fd)]\<rparr>)))"

section \<open>The epoll thread\<close>

text \<open>What the system answers while one event is handled, and what uninitialised locals hold.\<close>

record event_answers =
  ea_rand :: int
  ea_write :: write_result
  ea_ctl :: int
  ea_now :: timeval
  ea_alloc :: "nat \<Rightarrow> bool"
  ea_stack :: "u8 list"
  ea_req :: request_format

text \<open>The branch that starts a flow.\<close>

definition start_flow :: "cdf_table option \<Rightarrow> event_answers \<Rightarrow> int \<Rightarrow> client \<Rightarrow> client run" where
  "start_flow req_size_dist a fd c0 =
     run_bind (get_flow_size req_size_dist (ea_rand a)) (\<lambda>flow_size.
     run_bind (of_access (write_flows_size (cl_flows_size c0) fd (word_of_int flow_size))) (\<lambda>sizes.
     run_bind (write_request (ea_stack a) (ea_req a) flow_size (ea_write a)) (\<lambda>(bytes, _).
     run_bind (modify_epoll_event (cl_efd c0) fd EPOLLIN (ea_ctl a)) (\<lambda>(effects, error).
       let c1 = c0\<lparr>cl_flows_size := sizes, cl_effects := cl_effects c0 @ effects\<rparr> in
       run_bind
         (if error < 0 then del_flow (ea_ctl a) fd c1
          else
            run_bind (add_flow_time_entry (ea_alloc a) (ea_now a) (cl_time_table c1) fd flow_size)
              (\<lambda>(t, _). Returned (c1\<lparr>cl_active_flows := cl_active_flows c1 + 1, cl_time_table := t\<rparr>)))
         (\<lambda>c2.
           run_bind (event_push (cl_polls c2) (word_of_int fd) (word_of_int flow_size)) (\<lambda>(polls, _).
             Returned (c2\<lparr>cl_polls := polls\<rparr>)))))))"

definition client_event ::
    "cdf_table option \<Rightarrow> u32 \<Rightarrow> event_answers \<Rightarrow> u32 \<Rightarrow> int \<Rightarrow> client \<Rightarrow> client run" where
  "client_event req_size_dist concurrent_flows a events fd c =
     (if events AND EPOLLERR \<noteq> 0 \<or> events AND EPOLLHUP \<noteq> 0 then del_flow (ea_ctl a) fd c
      else if events AND EPOLLOUT \<noteq> 0 then
        if cl_active_flows c < concurrent_flows then start_flow req_size_dist a fd c
        else
          run_bind (modify_epoll_event (cl_efd c) fd EPOLLOUT (ea_ctl a)) (\<lambda>(effects, error).
            let c1 = c\<lparr>cl_effects := cl_effects c @ effects\<rparr>
            in if error < 0 then del_flow (ea_ctl a) fd c1 else Returned c1)
      else Returned c)"

text \<open>The events one \<open>epoll_wait\<close> returns, handled in order, each with the answers given to it.\<close>

fun client_batch ::
    "cdf_table option \<Rightarrow> u32 \<Rightarrow> (event_answers \<times> u32 \<times> int) list \<Rightarrow> client \<Rightarrow> client run" where
  "client_batch req_size_dist concurrent_flows [] c = Returned c"
| "client_batch req_size_dist concurrent_flows ((a, events, fd) # rest) c =
     run_bind (client_event req_size_dist concurrent_flows a events fd c)
       (client_batch req_size_dist concurrent_flows rest)"

text \<open>
  The head of the loop, which starts the background traffic after a fifth of the flows: the
  comparison is between numbers of type \<open>double\<close>, and 0.8 is not exactly one.
\<close>

definition client_loop_head :: "int \<Rightarrow> client \<Rightarrow> client option" where
  "client_loop_head flows_num c =
     (if cl_left_flows c > 0 then
        Some (c\<lparr>cl_memaslap := cl_memaslap c
          \<or> of_int (uint (cl_left_flows c)) < round64 (of_int flows_num * round64 (8 / 10))\<rparr>)
      else None)"

definition epoll_client_start ::
    "(string \<Rightarrow> u32) \<Rightarrow> int \<Rightarrow> (nat \<Rightarrow> connect_answers) \<Rightarrow> (nat \<Rightarrow> int) \<Rightarrow> connection_four_tuples \<Rightarrow> int
     \<Rightarrow> client \<Rightarrow> client run" where
  "epoll_client_start inet_addr create_ans ans ctl conn flows_num c =
     run_bind (create_epoll create_ans) (\<lambda>efd.
     run_bind (create_N_epoll_events inet_addr conn efd flows_num ans ctl) (\<lambda>(effects, n).
       Returned (c\<lparr>cl_efd := efd, cl_left_flows := word_of_int n, cl_active_flows := 0,
                   cl_effects := cl_effects c @ effects\<rparr>)))"

text \<open>The end of the epoll thread; then it calls \<open>exit(EXIT_SUCCESS)\<close>.\<close>

definition epoll_client_end ::
    "((u32 \<Rightarrow> u32 \<Rightarrow> int) \<Rightarrow> u32 list \<Rightarrow> u32 list) \<Rightarrow> (string \<Rightarrow> bool) \<Rightarrow> flow_configs \<Rightarrow> client
     \<Rightarrow> (client \<times> string \<times> string \<times> string) run" where
  "epoll_client_end qsort can_open flow_conf c =
     run_bind (of_access (string_joint FILENAME_SIZE ''result/flowsize_fct_'' (fc_result_file flow_conf)))
       (\<lambda>result_filename.
     run_bind (of_access (string_joint FILENAME_SIZE ''stats/FCT_'' (fc_result_file flow_conf)))
       (\<lambda>stats_filename.
     run_bind (print_statistics qsort can_open (cl_time_table c) result_filename stats_filename)
       (\<lambda>(t, out, results_text, stats_text).
         Returned (c\<lparr>cl_time_table := t, cl_kill := True\<rparr>, out, results_text, stats_text))))"

section \<open>The worker threads\<close>

text \<open>
  The body of the loop of \<open>request_thread\<close> for one event, up to the decrements under the lock: the
  answers are those of \<open>read\<close>, \<open>epoll_ctl\<close> and \<open>gettimeofday\<close>.
\<close>

definition finish_flow :: "int \<Rightarrow> int \<Rightarrow> int \<Rightarrow> int \<Rightarrow> timeval \<Rightarrow> client \<Rightarrow> client run" where
  "finish_flow n flow_size fd ctl now c =
     (if n = -1 then
        run_bind (del_flow_time_entry (incre_error_flows (cl_time_table c) n) fd) (\<lambda>t.
          Returned (c\<lparr>cl_time_table := t\<rparr>))
      else if n \<noteq> flow_size then
        del_flow ctl fd (c\<lparr>cl_time_table := incre_error_flows (cl_time_table c) n\<rparr>)
      else
        run_bind (set_resp_time now (cl_time_table c) fd) (\<lambda>t.
          Returned (c\<lparr>cl_time_table := t,
            cl_effects := cl_effects c @ fst (delete_epoll_event (cl_efd c) fd ctl) @ [Net (Close fd)]\<rparr>)))"

definition serve_flow ::
    "u8 list \<Rightarrow> event_info \<Rightarrow> read_result list \<Rightarrow> int \<Rightarrow> timeval \<Rightarrow> client
     \<Rightarrow> (client \<times> read_result list) run" where
  "serve_flow stack event reads ctl now c =
     (let fd = sint (ev_fd event); flow_size = sint (ev_flow_size event) in
      run_bind (read_responce stack flow_size reads) (\<lambda>(n, rest).
      run_bind (finish_flow n flow_size fd ctl now c) (\<lambda>c1.
        Returned (c1\<lparr>cl_active_flows := cl_active_flows c1 - 1,
                     cl_left_flows := cl_left_flows c1 - 1\<rparr>, rest))))"

definition set_idle :: "nat \<Rightarrow> client \<Rightarrow> client" where
  "set_idle index c = c\<lparr>cl_polls := release_slot (cl_polls c) index\<rparr>"

section \<open>The start of the program\<close>

definition zero_table :: flow_time_table where
  "zero_table = \<lparr>max_entries = 0, flows_time = None, flows_fct = None, thresholds = [0, 0, 0],
     results = replicate THRES_NUM zero_result,
     stat_errors = \<lparr>total_flows = 0, size_error = 0, connection_error = 0\<rparr>\<rparr>"

definition zero_polls :: "events_poll list" where
  "zero_polls = replicate MAX_THREADS (init_events_poll 0)"

text \<open>
  \<open>main\<close> up to the creation of the threads: the configuration, the distribution, the table of
  flows and the slots.  Global variables start as zero.
\<close>

definition client_main ::
    "(string \<Rightarrow> int) \<Rightarrow> ifaddr list option \<Rightarrow> (char \<times> string) list
     \<Rightarrow> (nat \<Rightarrow> cdf_entry list option) \<Rightarrow> (string \<Rightarrow> rat option \<times> rat option) \<Rightarrow> string list option
     \<Rightarrow> (nat \<Rightarrow> bool)
     \<Rightarrow> (flow_configs \<times> socket_configs \<times> connection_four_tuples \<times> cdf_table option \<times> client) run" where
  "client_main atoi ifaddrs opts malloc scan cdf_file alloc =
     run_bind (get_client_configs atoi ifaddrs opts) (\<lambda>(flow_conf, socket_conf, conn).
     run_bind (get_cdf malloc scan
         (Some \<lparr>cdf_entries = None, num_entry = 0, max_entry = 0, min_cdf = 0, max_cdf = 0\<rparr>) cdf_file)
       (\<lambda>req_size_dist.
     run_bind (init_flow_time_table alloc zero_table (sint (fc_flows_num flow_conf + BACKUP)))
       (\<lambda>(time_table, _).
       let threads_num = sint (fc_threads flow_conf) in
       if \<not> (threads_num > 0 \<and> threads_num < int MAX_THREADS) then Aborted
       else
         run_bind (of_access (init_events_polls zero_polls (nat threads_num))) (\<lambda>polls.
           Returned (flow_conf, socket_conf, conn, req_size_dist,
             \<lparr>cl_efd = 0, cl_left_flows = 0, cl_active_flows = 0, cl_time_table = time_table,
              cl_polls = polls, cl_flows_size = (\<lambda>_. 0), cl_kill = False, cl_memaslap = False,
              cl_effects = []\<rparr>)))))"

text \<open>
  The shell thread waits until the epoll thread sets \<open>memaslap\<close> and then runs a script; this is
  the command, built in a buffer of 100 characters.
\<close>

definition shell :: "int \<Rightarrow> client \<Rightarrow> string run" where
  "shell number c =
     (if \<not> cl_memaslap c then Blocked
      else of_access (c_strcpy 100 (''sh memcached.sh '' @ show_int number @ '' &'')))"

definition cleanup :: "client \<Rightarrow> client option" where
  "cleanup c = map_option (\<lambda>t. c\<lparr>cl_time_table := t\<rparr>) (del_flow_time_table (cl_time_table c))"

end
