(* ===== verification/FG_Client_Spec.thy ===== *)
theory FG_Client_Spec
  imports FG_Client
begin

text \<open>
  What the handlers of \<open>flow_generator/src/client/client.c\<close> do to the client's state: starting a
  flow, an error event, and the end of a flow in a worker thread.
\<close>

lemma write_request_returns:
  "length stack = PAYLOAD_SIZE \<Longrightarrow> \<exists>bytes r. write_request stack req n w = Returned (bytes, r)"
  by (simp add: write_request_def serialize_whole_payload)

lemma modify_returns:
  assumes "events = EPOLLIN \<or> events = EPOLLOUT"
  shows "\<exists>error. \<not> error < 0 \<and> modify_epoll_event efd fd events ans
    = Returned ([Epoll_ctl efd (EPOLL_CTL_MOD (events OR EPOLLET)) fd], error)"
  using assms by (simp add: modify_epoll_event_def EXIT_FAILURE_def EXIT_SUCCESS_def)

lemma start_flow_returns:
  assumes size: "get_flow_size cdf (ea_rand a) = Returned n"
    and stack: "length (ea_stack a) = PAYLOAD_SIZE"
    and table: "holds_rows (cl_time_table c) rows fcts"
    and fd: "0 < fd" "fd < int (length rows)" "fd < MAX_FLOWS" "ft_fd (rows ! nat fd) = 0"
    and pool: "idle_slots (cl_polls c) \<noteq> {}"
    and events: "events AND EPOLLERR = 0" "events AND EPOLLHUP = 0" "events AND EPOLLOUT \<noteq> 0"
    and active: "cl_active_flows c < concurrent_flows"
  shows "\<exists>c' i. client_event cdf concurrent_flows a events fd c = Returned c'
    \<and> i \<in> idle_slots (cl_polls c)
    \<and> cl_polls c' = (cl_polls c)[i := store_event (word_of_int fd) (word_of_int n) (cl_polls c ! i)]
    \<and> cl_active_flows c' = cl_active_flows c + 1 \<and> cl_left_flows c' = cl_left_flows c
    \<and> holds_rows (cl_time_table c') (rows[nat fd := (rows ! nat fd)\<lparr>ft_fd := fd, ft_flow_size := n,
         ft_req_time := ea_now a\<rparr>]) fcts
    \<and> stat_errors (cl_time_table c') = stat_errors (cl_time_table c) \<and> cl_efd c' = cl_efd c
    \<and> cl_effects c' = cl_effects c @ [Epoll_ctl (cl_efd c) (EPOLL_CTL_MOD (EPOLLIN OR EPOLLET)) fd]"
proof -
  obtain bytes r where w: "write_request (ea_stack a) (ea_req a) n (ea_write a) = Returned (bytes, r)"
    using write_request_returns [OF stack] by blast
  obtain error where m: "\<not> error < 0" "modify_epoll_event (cl_efd c) fd EPOLLIN (ea_ctl a)
      = Returned ([Epoll_ctl (cl_efd c) (EPOLL_CTL_MOD (EPOLLIN OR EPOLLET)) fd], error)"
    using modify_returns by blast
  obtain t where t: "add_flow_time_entry (ea_alloc a) (ea_now a) (cl_time_table c) fd n
      = Returned (t, SUCCESS)"
    "holds_rows t (rows[nat fd := (rows ! nat fd)\<lparr>ft_fd := fd, ft_flow_size := n,
         ft_req_time := ea_now a\<rparr>]) fcts"
    "stat_errors t = stat_errors (cl_time_table c)"
    using add_flow_time_entry_row [OF table fd(1,2,4)] by blast
  obtain i where i: "i \<in> idle_slots (cl_polls c)"
    "event_push (cl_polls c) (word_of_int fd) (word_of_int n)
      = Returned ((cl_polls c)[i := store_event (word_of_int fd) (word_of_int n) (cl_polls c ! i)], i)"
    using event_push_idle [OF pool] by blast
  have s: "write_flows_size (cl_flows_size c) fd (word_of_int n)
      = Some ((cl_flows_size c)(fd := word_of_int n))"
    using fd by (simp add: write_flows_size_def)
  show ?thesis
    using size w m t i s events active by (auto simp: client_event_def start_flow_def Let_def)
qed

text \<open>
  When a socket is writable and fewer than the given number of flows are active, the epoll
  thread draws a size, arms the socket for input, counts the flow as active, records its socket,
  size and time, and hands socket and size to an idle worker.  It does so whatever \<open>write\<close> and
  \<open>epoll_ctl\<close> answer: a failed \<open>epoll_ctl\<close> is reported as 1, but the caller tests for a
  negative result.
\<close>

theorem start_flow_outcome:
  assumes size: "get_flow_size cdf (ea_rand a) = Returned n"
    and stack: "length (ea_stack a) = PAYLOAD_SIZE"
    and table: "holds_rows (cl_time_table c) rows fcts"
    and fd: "0 < fd" "fd < int (length rows)" "fd < MAX_FLOWS" "ft_fd (rows ! nat fd) = 0"
    and pool: "idle_slots (cl_polls c) \<noteq> {}"
    and events: "events AND EPOLLERR = 0" "events AND EPOLLHUP = 0" "events AND EPOLLOUT \<noteq> 0"
    and active: "cl_active_flows c < concurrent_flows"
  shows "\<exists>c' i. client_event cdf concurrent_flows a events fd c = Returned c'
    \<and> i \<in> idle_slots (cl_polls c)
    \<and> cl_polls c' = (cl_polls c)[i := store_event (word_of_int fd) (word_of_int n) (cl_polls c ! i)]
    \<and> cl_active_flows c' = cl_active_flows c + 1 \<and> cl_left_flows c' = cl_left_flows c
    \<and> holds_rows (cl_time_table c') (rows[nat fd := (rows ! nat fd)\<lparr>ft_fd := fd, ft_flow_size := n,
         ft_req_time := ea_now a\<rparr>]) fcts
    \<and> stat_errors (cl_time_table c') = stat_errors (cl_time_table c) \<and> cl_efd c' = cl_efd c
    \<and> cl_effects c' = cl_effects c @ [Epoll_ctl (cl_efd c) (EPOLL_CTL_MOD (EPOLLIN OR EPOLLET)) fd]"
  using assms by (rule start_flow_returns)

text \<open>
  When a socket reports an error or a hang-up, the client unregisters and closes it and deletes
  its record, but neither of its counters changes: a flow that ends so before a worker serves it is
  never counted as done, and the loop that runs while \<open>left_flows\<close> is positive cannot end.  If a
  worker is already reading and its response arrives in full, the assertion that its record is in use
  fails and the program aborts.
\<close>

theorem error_event_not_counted:
  assumes "events AND EPOLLERR \<noteq> 0 \<or> events AND EPOLLHUP \<noteq> 0"
    and "holds_rows (cl_time_table c) rows fcts" "0 \<le> fd" "fd < int (length rows)"
  shows "\<exists>c'. client_event cdf concurrent_flows a events fd c = Returned c'
    \<and> cl_left_flows c' = cl_left_flows c \<and> cl_active_flows c' = cl_active_flows c
    \<and> cl_polls c' = cl_polls c
    \<and> holds_rows (cl_time_table c') (rows[nat fd := (rows ! nat fd)\<lparr>ft_fd := 0\<rparr>]) fcts
    \<and> cl_effects c' = cl_effects c @ [Epoll_ctl (cl_efd c) EPOLL_CTL_DEL fd, Net (Close fd)]
    \<and> (sint (ev_fd event) = fd
       \<and> read_responce stack (sint (ev_flow_size event)) reads = Returned (sint (ev_flow_size event), rest)
       \<and> sint (ev_flow_size event) \<noteq> -1 \<longrightarrow>
         serve_flow stack event reads ctl now c' = Aborted)"
proof -
  obtain t where t: "del_flow_time_entry (cl_time_table c) fd = Returned t"
    "holds_rows t (rows[nat fd := (rows ! nat fd)\<lparr>ft_fd := 0\<rparr>]) fcts"
    using del_flow_time_entry_row [OF assms(2-4)] by blast
  define c' where "c' = c\<lparr>cl_time_table := t, cl_effects := cl_effects c
    @ [Epoll_ctl (cl_efd c) EPOLL_CTL_DEL fd, Net (Close fd)]\<rparr>"
  have event: "client_event cdf concurrent_flows a events fd c = Returned c'"
    using assms(1) t(1) by (auto simp: client_event_def del_flow_def delete_epoll_event_def c'_def)
  have "set_resp_time now (cl_time_table c') fd = Aborted"
    using get_entry_row [OF t(2), of fd] assms(3,4) by (simp add: set_resp_time_def c'_def)
  with event t(2) show ?thesis
    by (auto simp: c'_def serve_flow_def finish_flow_def)
qed

lemma incre_error_flows_row:
  "holds_rows t rows fcts \<Longrightarrow> holds_rows (incre_error_flows t n) rows fcts"
  by (simp add: holds_rows_def incre_error_flows_def)

lemma serve_flow_returns:
  assumes "read_responce stack (sint (ev_flow_size event)) reads = Returned (n, rest)"
    and "holds_rows (cl_time_table c) rows fcts"
    and "fd = sint (ev_fd event)" "0 \<le> fd" "fd < int (length rows)" "ft_fd (rows ! nat fd) \<noteq> 0"
  shows "\<exists>c'. serve_flow stack event reads ctl now c = Returned (c', rest)
    \<and> cl_active_flows c' = cl_active_flows c - 1 \<and> cl_left_flows c' = cl_left_flows c - 1
    \<and> cl_polls c' = cl_polls c
    \<and> (if n = -1 then
         holds_rows (cl_time_table c') (rows[nat fd := (rows ! nat fd)\<lparr>ft_fd := 0\<rparr>]) fcts
         \<and> connection_error (stat_errors (cl_time_table c'))
             = connection_error (stat_errors (cl_time_table c)) + 1
         \<and> cl_effects c' = cl_effects c
       else if n \<noteq> sint (ev_flow_size event) then
         holds_rows (cl_time_table c') (rows[nat fd := (rows ! nat fd)\<lparr>ft_fd := 0\<rparr>]) fcts
         \<and> size_error (stat_errors (cl_time_table c')) = size_error (stat_errors (cl_time_table c)) + 1
         \<and> cl_effects c' = cl_effects c @ [Epoll_ctl (cl_efd c) EPOLL_CTL_DEL fd, Net (Close fd)]
       else
         holds_rows (cl_time_table c') (rows[nat fd := (rows ! nat fd)\<lparr>ft_resp_time := now,
           ft_fct := get_time_diff (ft_req_time (rows ! nat fd)) now\<rparr>]) fcts
         \<and> stat_errors (cl_time_table c') = stat_errors (cl_time_table c)
         \<and> cl_effects c' = cl_effects c @ [Epoll_ctl (cl_efd c) EPOLL_CTL_DEL fd, Net (Close fd)])"
proof -
  note err = incre_error_flows_row [OF assms(2), of n]
  obtain t1 where t1: "del_flow_time_entry (incre_error_flows (cl_time_table c) n) fd = Returned t1"
    "holds_rows t1 (rows[nat fd := (rows ! nat fd)\<lparr>ft_fd := 0\<rparr>]) fcts"
    "stat_errors t1 = stat_errors (incre_error_flows (cl_time_table c) n)"
    using del_flow_time_entry_row [OF err assms(4,5)] by blast
  obtain t2 where t2: "set_resp_time now (cl_time_table c) fd = Returned t2"
    "holds_rows t2 (rows[nat fd := (rows ! nat fd)\<lparr>ft_resp_time := now,
           ft_fct := get_time_diff (ft_req_time (rows ! nat fd)) now\<rparr>]) fcts"
    "stat_errors t2 = stat_errors (cl_time_table c)"
    using set_resp_time_row [OF assms(2,4-6)] by blast
  have serve: "serve_flow stack event reads ctl now c =
      run_bind (finish_flow n (sint (ev_flow_size event)) fd ctl now c) (\<lambda>c1.
        Returned (c1\<lparr>cl_active_flows := cl_active_flows c1 - 1,
                     cl_left_flows := cl_left_flows c1 - 1\<rparr>, rest))"
    using assms(1) by (simp add: serve_flow_def assms(3))
  consider "n = -1" | "n \<noteq> -1" "n \<noteq> sint (ev_flow_size event)" | "n \<noteq> -1" "n = sint (ev_flow_size event)"
    by blast
  then show ?thesis
  proof cases
    case 1
    then have "connection_error (stat_errors t1) = connection_error (stat_errors (cl_time_table c)) + 1"
      using t1(3) by (simp add: incre_error_flows_def CONNECTION_ERROR_def)
    with 1 t1(1,2) show ?thesis by (simp add: serve finish_flow_def)
  next
    case 2
    then have "size_error (stat_errors t1) = size_error (stat_errors (cl_time_table c)) + 1"
      using t1(3) by (simp add: incre_error_flows_def CONNECTION_ERROR_def)
    with 2 t1(1,2) show ?thesis
      by (simp add: serve finish_flow_def del_flow_def delete_epoll_event_def)
  next
    case 3
    with t2 show ?thesis by (simp add: serve finish_flow_def delete_epoll_event_def)
  qed
qed

text \<open>
  When the \<open>read\<close> loop of a worker returns, the worker takes the flow off both counters.  If
  exactly the requested size has arrived, it stores the response time and the completion time, and
  unregisters and closes the socket; after a connection error (-1) it counts the error and deletes
  the record, but leaves the socket open; for any other number of bytes it counts a size error,
  deletes the record, and unregisters and closes the socket.
\<close>

theorem serve_flow_outcome:
  assumes "read_responce stack (sint (ev_flow_size event)) reads = Returned (n, rest)"
    and "holds_rows (cl_time_table c) rows fcts"
    and "fd = sint (ev_fd event)" "0 \<le> fd" "fd < int (length rows)" "ft_fd (rows ! nat fd) \<noteq> 0"
  shows "\<exists>c'. serve_flow stack event reads ctl now c = Returned (c', rest)
    \<and> cl_active_flows c' = cl_active_flows c - 1 \<and> cl_left_flows c' = cl_left_flows c - 1
    \<and> cl_polls c' = cl_polls c
    \<and> (if n = -1 then
         holds_rows (cl_time_table c') (rows[nat fd := (rows ! nat fd)\<lparr>ft_fd := 0\<rparr>]) fcts
         \<and> connection_error (stat_errors (cl_time_table c'))
             = connection_error (stat_errors (cl_time_table c)) + 1
         \<and> cl_effects c' = cl_effects c
       else if n \<noteq> sint (ev_flow_size event) then
         holds_rows (cl_time_table c') (rows[nat fd := (rows ! nat fd)\<lparr>ft_fd := 0\<rparr>]) fcts
         \<and> size_error (stat_errors (cl_time_table c')) = size_error (stat_errors (cl_time_table c)) + 1
         \<and> cl_effects c' = cl_effects c @ [Epoll_ctl (cl_efd c) EPOLL_CTL_DEL fd, Net (Close fd)]
       else
         holds_rows (cl_time_table c') (rows[nat fd := (rows ! nat fd)\<lparr>ft_resp_time := now,
           ft_fct := get_time_diff (ft_req_time (rows ! nat fd)) now\<rparr>]) fcts
         \<and> stat_errors (cl_time_table c') = stat_errors (cl_time_table c)
         \<and> cl_effects c' = cl_effects c @ [Epoll_ctl (cl_efd c) EPOLL_CTL_DEL fd, Net (Close fd)])"
  using assms by (rule serve_flow_returns)

section \<open>Sizes\<close>

lemma get_flow_size_returns:
  assumes "wf_cdf t rows" "is_distribution rows" "min_cdf t = 0" "max_cdf t = 1"
    and "0 \<le> r" "r \<le> RAND_MAX"
  obtains y where "gen_random_cdf (Some t) r = Returned y" "get_flow_size (Some t) r = Returned \<lfloor>y\<rfloor>"
    "inverse_at rows (rand_range r 0 1) \<lfloor>y\<rfloor>"
proof -
  obtain y where y: "gen_random_cdf (Some t) r = Returned y" "inverse_at rows (rand_range r 0 1) \<lfloor>y\<rfloor>"
    using gen_random_cdf_inverse [OF assms] by blast
  have "length rows - 1 < length rows" using assms(2) by (simp add: is_distribution_def)
  then obtain m where "entry_value (rows ! (length rows - 1)) = of_int m" "m < 2 ^ 31"
    using is_distribution_whole [OF assms(2)] by metis
  moreover have "0 \<le> \<lfloor>y\<rfloor>" "rat_of_int \<lfloor>y\<rfloor> \<le> entry_value (rows ! (length rows - 1))"
    using y(2) assms(2) by (auto simp: inverse_at_def is_distribution_def last_conv_nth)
  ultimately have "0 \<le> \<lfloor>y\<rfloor>" "\<lfloor>y\<rfloor> \<le> m" "m < 2 ^ 31" by (simp_all only: of_int_le_iff)
  then have "0 \<le> \<lfloor>y\<rfloor>" "\<lfloor>y\<rfloor> < 2 ^ 31" by linarith+
  with y show thesis by (intro that [of y]) (simp_all add: get_flow_size_def Let_def)
qed

text \<open>
  C18.  For a table that is a distribution of whole sizes, the size drawn is its inverse, with every
  operation rounded to \<open>double\<close> and the result truncated to \<open>int\<close>: with \<open>x\<close> the number drawn, between
  0 and 1, the size is at most a value of the table when \<open>x\<close> is at most the probability of this
  value, and at least the value when \<open>x\<close> is above its probability; it lies between 0 and the last value.
  A larger random number never gives a smaller size.
\<close>

theorem flow_sizes_follow_distribution:
  assumes "wf_cdf t rows" "is_distribution rows" "min_cdf t = 0" "max_cdf t = 1"
    and "0 \<le> r" "r \<le> r'" "r' \<le> RAND_MAX"
  shows "\<exists>x n n'. 0 \<le> x \<and> x \<le> 1 \<and> x = rand_range r (min_cdf t) (max_cdf t)
    \<and> get_flow_size (Some t) r = Returned n \<and> get_flow_size (Some t) r' = Returned n'
    \<and> 0 \<le> n \<and> n \<le> n' \<and> of_int n' \<le> entry_value (last rows)
    \<and> (\<forall>j<length rows. (x \<le> entry_cdf (rows ! j) \<longrightarrow> of_int n \<le> entry_value (rows ! j))
        \<and> (entry_cdf (rows ! j) < x \<longrightarrow> entry_value (rows ! j) \<le> of_int n))"
proof -
  have r: "r \<le> RAND_MAX" "0 \<le> r'" using assms(5-7) by simp_all
  obtain y where y: "gen_random_cdf (Some t) r = Returned y" "get_flow_size (Some t) r = Returned \<lfloor>y\<rfloor>"
    "inverse_at rows (rand_range r 0 1) \<lfloor>y\<rfloor>"
    using get_flow_size_returns [OF assms(1-5) r(1)] .
  obtain y' where y': "gen_random_cdf (Some t) r' = Returned y'"
    "get_flow_size (Some t) r' = Returned \<lfloor>y'\<rfloor>" "inverse_at rows (rand_range r' 0 1) \<lfloor>y'\<rfloor>"
    using get_flow_size_returns [OF assms(1-4) r(2) assms(7)] .
  have "\<lfloor>y\<rfloor> \<le> \<lfloor>y'\<rfloor>" using gen_random_cdf_mono [OF assms y(1) y'(1)] .
  then show ?thesis
    using y y' rand_range_bounds [OF assms(5) r(1)] assms(3,4) unfolding inverse_at_def
    by (intro exI [of _ "rand_range r 0 1"] exI [of _ "\<lfloor>y\<rfloor>"] exI [of _ "\<lfloor>y'\<rfloor>"]) simp
qed

theorem flow_sizes_follow_distribution_witness:
  "\<exists>n. get_flow_size (Some conf_table) RAND_MAX = Returned n \<and> 100 \<le> n \<and> n \<le> 200"
proof -
  have r: "0 \<le> RAND_MAX" "RAND_MAX \<le> RAND_MAX" by (simp_all add: RAND_MAX_def)
  obtain x n where n: "x = 1" "get_flow_size (Some conf_table) RAND_MAX = Returned n"
    "of_int n \<le> entry_value (last conf_rows)"
    "\<forall>j<length conf_rows. entry_cdf (conf_rows ! j) < x \<longrightarrow> entry_value (conf_rows ! j) \<le> of_int n"
    using flow_sizes_follow_distribution [OF conf_table_facts r(1) r(2) r(2)]
    by (auto simp: rand_range_ends conf_table_facts)
  have "0 < length conf_rows" by (simp add: conf_rows_def)
  with n show ?thesis by (force simp: conf_rows_def)
qed

text \<open>
  For the repository's file \<open>conf/cdf\<close> a drawn number of 0 gives the size 50, below the least value
  100 of the table.
\<close>

lemma sample_size: "get_flow_size (Some conf_table) 0 = Returned 50"
proof -
  have "entry_cdf (hd conf_rows) = 0" "entry_value (hd conf_rows) = 100"
    by (simp_all add: conf_rows_def)
  then have "gen_random_cdf (Some conf_table) 0 = Returned 50"
    using zero_draw_below_first_value [OF conf_table_facts(1,2), of 0] conf_table_facts(3,4)
    by (auto simp: RAND_MAX_def)
  then show ?thesis by (simp add: get_flow_size_def)
qed

section \<open>The start of the background traffic\<close>

text \<open>
  Although 0.8 is rounded up, its product with a number of flows is rounded back to the whole number
  when there is one, so that the comparison is exact.
\<close>

lemma eight_tenths: "round64 (8 / 10) = of_int 7205759403792794 / 2 ^ 53"
  by (rule round64_eqI) simp_all

lemma memaslap_threshold:
  assumes "0 \<le> flows_num" "flows_num < 2 ^ 31"
  shows "rat_of_int left < round64 (of_int flows_num * round64 (8 / 10)) \<longleftrightarrow> 10 * left < 8 * flows_num"
proof -
  define z where "z = rat_of_int flows_num * round64 (8 / 10)"
  have n: "rat_of_int flows_num \<le> 2 ^ 31" "0 \<le> rat_of_int flows_num"
    using assms of_int_le_iff [of flows_num "2 ^ 31", where 'a = rat] by simp_all
  have z: "z = rat_of_int flows_num * (8 / 10) * (1 + 1 / 2 ^ 54)"
    unfolding z_def eight_tenths by simp
  with n have bounds: "0 \<le> z" "z \<le> 2 ^ 32" "rat_of_int flows_num * (8 / 10) \<le> z"
      "z \<le> rat_of_int flows_num * (8 / 10) + 1 / 20"
    by simp_all
  have close: "\<bar>round64 z - z\<bar> \<le> 1 / 20"
    using round64_close [OF bounds(1,2)] by (rule order.trans) simp
  consider "5 * left + 1 \<le> 4 * flows_num" | "5 * left = 4 * flows_num" | "4 * flows_num + 1 \<le> 5 * left"
    by linarith
  then show ?thesis
  proof cases
    case 1
    then have "5 * rat_of_int left + 1 \<le> 4 * of_int flows_num"
      using of_int_le_iff [of "5 * left + 1" "4 * flows_num", where 'a = rat] by simp
    then have "rat_of_int left < round64 z" using close bounds(3) by linarith
    with 1 show ?thesis unfolding z_def [symmetric] by simp
  next
    case 2
    then have left: "rat_of_int left = rat_of_int flows_num * (8 / 10)"
      using of_int_eq_iff [of "5 * left" "4 * flows_num", where 'a = rat] by simp
    have "round64 z \<le> of_int left"
    proof (cases "left = 0")
      case True
      with left z show ?thesis by simp
    next
      case False
      then have "0 < left" "left < 2 ^ 31" using 2 assms by linarith+
      then show ?thesis unfolding z left [symmetric] by (rule tie_rounds_down)
    qed
    with 2 show ?thesis unfolding z_def [symmetric] by simp
  next
    case 3
    then have "4 * rat_of_int flows_num + 1 \<le> 5 * of_int left"
      using of_int_le_iff [of "4 * flows_num + 1" "5 * left", where 'a = rat] by simp
    then have "round64 z \<le> rat_of_int left" using close bounds(4) by linarith
    with 3 show ?thesis unfolding z_def [symmetric] by simp
  qed
qed

section \<open>Examples\<close>

definition sample_client :: client where
  "sample_client = \<lparr>cl_efd = 3, cl_left_flows = 2, cl_active_flows = 0, cl_time_table = sample_times,
     cl_polls = replicate 1 (init_events_poll THREAD_IDLE)
       @ replicate (MAX_THREADS - 1) (init_events_poll THREAD_INVALID),
     cl_flows_size = (\<lambda>_. 0), cl_kill = False, cl_memaslap = False, cl_effects = []\<rparr>"

definition sample_answers :: event_answers where
  "sample_answers = \<lparr>ea_rand = 0, ea_write = Wrote 4, ea_ctl = 0, ea_now = \<lparr>tv_sec = 1, tv_usec = 0\<rparr>,
     ea_alloc = (\<lambda>_. True), ea_stack = [0, 0, 0, 0], ea_req = \<lparr>req_flow_size = 0\<rparr>\<rparr>"

lemma sample_client_facts:
  "get_flow_size (Some conf_table) (ea_rand sample_answers) = Returned 50"
  "length (ea_stack sample_answers) = PAYLOAD_SIZE"
  "holds_rows (cl_time_table sample_client) sample_rows (replicate THRES_NUM (replicate 6 0))"
  "ft_fd (sample_rows ! nat 5) = 0" "5 < int (length sample_rows)"
  "cl_active_flows sample_client = 0" "cl_left_flows sample_client = 2"
  by (simp_all add: sample_answers_def sample_size PAYLOAD_SIZE_def sample_client_def sample_times_holds)
    (simp_all add: sample_rows_def zero_time_def)

lemma sample_client_idle: "idle_slots (cl_polls sample_client) \<noteq> {}"
  by (auto simp: idle_slots_def sample_client_def init_events_poll_def intro!: exI [of _ 0])

lemma event_bits:
  "EPOLLOUT AND EPOLLERR = 0" "EPOLLOUT AND EPOLLHUP = 0" "EPOLLOUT AND EPOLLOUT \<noteq> 0"
  "EPOLLHUP AND EPOLLHUP \<noteq> 0"
  by (simp_all add: EPOLLOUT_def EPOLLERR_def EPOLLHUP_def)

theorem start_flow_outcome_witness:
  "\<exists>c'. client_event (Some conf_table) 1 sample_answers EPOLLOUT 5 sample_client = Returned c'
     \<and> cl_active_flows c' = 1"
proof -
  have "(0::int) < 5" "(5::int) < MAX_FLOWS" "cl_active_flows sample_client < 1"
    by (simp_all add: MAX_FLOWS_def sample_client_facts)
  from start_flow_outcome [OF sample_client_facts(1-3) this(1) sample_client_facts(5) this(2)
      sample_client_facts(4) sample_client_idle event_bits(1-3) this(3)]
  show ?thesis using sample_client_facts(6) by auto
qed

theorem error_event_not_counted_witness:
  "\<exists>c'. client_event (Some conf_table) 1 sample_answers EPOLLHUP 5 sample_client = Returned c'
     \<and> cl_left_flows c' = 2"
proof -
  have "(0::int) \<le> 5" by simp
  from error_event_not_counted [OF disjI2 [OF event_bits(4)] sample_client_facts(3) this
      sample_client_facts(5)]
  show ?thesis using sample_client_facts(7) by fastforce
qed

definition busy_times :: flow_time_table where
  "busy_times = sample_times\<lparr>flows_time := Some (map Some
     (sample_rows[5 := zero_time\<lparr>ft_fd := 5, ft_flow_size := 3\<rparr>]))\<rparr>"

theorem serve_flow_outcome_witness:
  "\<exists>c'. serve_flow (replicate MAX_READ_BUFF 0) \<lparr>ev_fd = 5, ev_flow_size = 3\<rparr> [Read [1, 2, 3]] 0
       \<lparr>tv_sec = 2, tv_usec = 0\<rparr> (sample_client\<lparr>cl_time_table := busy_times\<rparr>) = Returned (c', [])
     \<and> cl_left_flows c' = 1"
proof -
  have read: "read_responce (replicate MAX_READ_BUFF 0) (sint (ev_flow_size \<lparr>ev_fd = 5, ev_flow_size = 3\<rparr>))
      [Read [1, 2, 3]] = Returned (3, [])"
    by (simp add: read_responce_def c_blit_def MAX_READ_BUFF_def INT_MAX_def)
  have rows: "holds_rows busy_times (sample_rows[5 := zero_time\<lparr>ft_fd := 5, ft_flow_size := 3\<rparr>])
      (replicate THRES_NUM (replicate 6 0))"
    using sample_times_holds by (simp add: holds_rows_def busy_times_def sample_rows_def)
  show ?thesis
    using serve_flow_outcome [OF read, of "sample_client\<lparr>cl_time_table := busy_times\<rparr>"
        "sample_rows[5 := zero_time\<lparr>ft_fd := 5, ft_flow_size := 3\<rparr>]" _ 5] rows
    by (fastforce simp: sample_rows_def sample_client_def)
qed

end
