(* ===== verification/FG_Client_Steps.thy ===== *)
theory FG_Client_Steps
  imports FG_Client_Spec
begin

text \<open>
  The interleavings of the client's epoll thread with its worker threads (\<open>epoll_client\<close> and
  \<open>request_thread\<close> in \<open>flow_generator/src/client/client.c\<close>).

  A step is the handling of one event, or one of the parts of a worker's loop: taking the event
  of its slot, serving the flow up to the decrements of the counters, and marking the slot idle.
  A worker takes an event only from a busy slot and once; \<open>FG_Client_Threads\<close> shows that this is so
  for prompt signals.  The increment of \<open>active_flows\<close> in the epoll thread is one step, although it
  is not under the lock; \<open>FG_Client_Counters\<close> shows what that means.
\<close>

datatype client_worker = Waiting_worker | Serving event_info | Counted

record client_sys =
  sys_client :: client
  sys_workers :: "client_worker list"
  sys_done :: nat

datatype client_label =
    C_event event_answers u32 int
  | C_take nat
  | C_serve nat "u8 list" "read_result list" int timeval
  | C_release nat

definition sys_worker :: "client_sys \<Rightarrow> nat \<Rightarrow> client_worker option" where
  "sys_worker s i = (if i < length (sys_workers s) then Some (sys_workers s ! i) else None)"

fun client_exec ::
    "cdf_table option \<Rightarrow> u32 \<Rightarrow> client_label \<Rightarrow> client_sys \<Rightarrow> client_sys run" where
  "client_exec cdf concurrent_flows (C_event a events fd) s =
     run_bind (client_event cdf concurrent_flows a events fd (sys_client s)) (\<lambda>c.
       Returned (s\<lparr>sys_client := c\<rparr>))"
| "client_exec cdf concurrent_flows (C_take i) s =
     (if sys_worker s i = Some Waiting_worker then
        run_bind (event_pop (cl_polls (sys_client s) ! i)) (\<lambda>e.
          Returned (s\<lparr>sys_workers := (sys_workers s)[i := Serving e]\<rparr>))
      else Blocked)"
| "client_exec cdf concurrent_flows (C_serve i stack reads ctl now) s =
     (case sys_worker s i of
        Some (Serving e) \<Rightarrow>
          run_bind (serve_flow stack e reads ctl now (sys_client s)) (\<lambda>(c, _).
            Returned (s\<lparr>sys_client := c, sys_workers := (sys_workers s)[i := Counted],
                        sys_done := sys_done s + 1\<rparr>))
      | _ \<Rightarrow> Blocked)"
| "client_exec cdf concurrent_flows (C_release i) s =
     (if sys_worker s i = Some Counted then
        Returned (s\<lparr>sys_client := set_idle i (sys_client s),
                    sys_workers := (sys_workers s)[i := Waiting_worker]\<rparr>)
      else Blocked)"

text \<open>
  The start: \<open>n\<close> workers that wait, all \<open>n\<close> slots idle, and \<open>flows\<close> connections made.
\<close>

definition client_sys_start :: "nat \<Rightarrow> u32 \<Rightarrow> client_sys \<Rightarrow> bool" where
  "client_sys_start n flows s \<longleftrightarrow>
     cl_polls (sys_client s) = replicate n (init_events_poll THREAD_IDLE)
        @ replicate (MAX_THREADS - n) (init_events_poll THREAD_INVALID)
   \<and> n \<le> MAX_THREADS \<and> sys_workers s = replicate n Waiting_worker \<and> sys_done s = 0
   \<and> cl_active_flows (sys_client s) = 0 \<and> cl_left_flows (sys_client s) = flows"

inductive client_reach ::
    "(client_label \<Rightarrow> client_sys \<Rightarrow> bool) \<Rightarrow> cdf_table option \<Rightarrow> u32 \<Rightarrow> nat \<Rightarrow> u32 \<Rightarrow> client_sys \<Rightarrow> bool"
  for ok cdf concurrent_flows n flows where
  start: "client_sys_start n flows s \<Longrightarrow> client_reach ok cdf concurrent_flows n flows s"
| step: "client_reach ok cdf concurrent_flows n flows s \<Longrightarrow> ok l s
    \<Longrightarrow> client_exec cdf concurrent_flows l s = Returned t
    \<Longrightarrow> client_reach ok cdf concurrent_flows n flows t"

interpretation clients: step_system "client_sys_start n flows" ok
  "\<lambda>l s. returned (client_exec cdf concurrent_flows l s)" "client_reach ok cdf concurrent_flows n flows"
  by unfold_locales (auto intro: client_reach.intros, erule client_reach.induct, auto)

definition any_order :: "client_label \<Rightarrow> client_sys \<Rightarrow> bool" where
  "any_order l s = True"

text \<open>
  The epoll thread does not handle an event while a worker is between the decrement of
  \<open>active_flows\<close> and the marking of its slot as idle.
\<close>

definition atomic_finish :: "client_label \<Rightarrow> client_sys \<Rightarrow> bool" where
  "atomic_finish l s = (case l of C_event a events fd \<Rightarrow> Counted \<notin> set (sys_workers s) | _ \<Rightarrow> True)"

text \<open>A batch of events is a sequence of steps, between which workers may run.\<close>

lemma client_batch_reach:
  assumes "client_reach ok cdf concurrent_flows n flows s"
    and "\<And>c a events fd. ok (C_event a events fd) (s\<lparr>sys_client := c\<rparr>)"
    and "client_batch cdf concurrent_flows batch (sys_client s) = Returned c"
  shows "client_reach ok cdf concurrent_flows n flows (s\<lparr>sys_client := c\<rparr>)"
  using assms
proof (induction batch arbitrary: s)
  case (Cons x rest)
  obtain a events fd where x: "x = (a, events, fd)" by (cases x)
  then obtain d where d: "client_event cdf concurrent_flows a events fd (sys_client s) = Returned d"
    "client_batch cdf concurrent_flows rest d = Returned c"
    using Cons.prems(3) by (auto simp: run_bind_eq_Returned_iff)
  have "ok (C_event a events fd) s" using Cons.prems(2) [of a events fd "sys_client s"] by simp
  then have "client_reach ok cdf concurrent_flows n flows (s\<lparr>sys_client := d\<rparr>)"
    by (rule client_reach.step [OF Cons.prems(1)]) (simp add: d(1))
  with Cons.IH [of "s\<lparr>sys_client := d\<rparr>"] Cons.prems(2) d(2) show ?case by simp
next
  case Nil
  then show ?case by (cases s) auto
qed

section \<open>Which calls can end the program\<close>

lemma no_exit_gen_loop: "no_exit (gen_loop t x i k)"
  by (induction t x i k rule: gen_loop.induct) (auto intro!: no_exit_bind simp del: of_access.simps)

lemma no_exit_get_flow_size: "no_exit (get_flow_size cdf r)"
  by (auto simp: get_flow_size_def gen_random_cdf_def Let_def no_exit_gen_loop
      intro!: no_exit_bind split: option.split)

lemma no_exit_write_request: "no_exit (write_request stack req n w)"
  by (auto simp: write_request_def Let_def intro!: no_exit_bind)

lemma no_exit_del_flow: "no_exit (del_flow ctl fd c)"
  by (auto simp: del_flow_def del_flow_time_entry_def delete_epoll_event_def intro!: no_exit_bind)

lemma no_exit_add: "no_exit (add_flow_time_entry alloc now t fd n)"
  by (auto simp: add_flow_time_entry_def set_flow_time_flowsize_def grow_table_def fail_after_delete_def
      set_req_time_def Let_def intro!: no_exit_bind)

text \<open>The epoll thread can only end the program in \<open>event_push\<close>.\<close>

lemma no_exit_event_push: "idle_slots polls \<noteq> {} \<Longrightarrow> no_exit (event_push polls fd n)"
  using event_push_idle [of polls fd n] by auto

text \<open>Because the result of \<open>modify_epoll_event\<close> is never negative, the error branch is dead.\<close>

lemma start_flow_eq:
  "start_flow cdf a fd c =
     run_bind (get_flow_size cdf (ea_rand a)) (\<lambda>n.
     run_bind (of_access (write_flows_size (cl_flows_size c) fd (word_of_int n))) (\<lambda>sizes.
     run_bind (write_request (ea_stack a) (ea_req a) n (ea_write a)) (\<lambda>_.
     run_bind (modify_epoll_event (cl_efd c) fd EPOLLIN (ea_ctl a)) (\<lambda>(effects, _).
     run_bind (add_flow_time_entry (ea_alloc a) (ea_now a) (cl_time_table c) fd n) (\<lambda>(t, _).
     run_bind (event_push (cl_polls c) (word_of_int fd) (word_of_int n)) (\<lambda>(polls, _).
       Returned (c\<lparr>cl_flows_size := sizes, cl_effects := cl_effects c @ effects,
         cl_active_flows := cl_active_flows c + 1, cl_time_table := t, cl_polls := polls\<rparr>)))))))"
proof -
  obtain error where m: "\<not> error < 0" "modify_epoll_event (cl_efd c) fd EPOLLIN (ea_ctl a)
      = Returned ([Epoll_ctl (cl_efd c) (EPOLL_CTL_MOD (EPOLLIN OR EPOLLET)) fd], error)"
    using modify_returns by blast
  have assoc: "run_bind (run_bind m f) g = run_bind m (\<lambda>x. run_bind (f x) g)"
    for m :: "(flow_time_table \<times> int) run" and f :: "flow_time_table \<times> int \<Rightarrow> client run"
      and g :: "client \<Rightarrow> client run"
    by (cases m) simp_all
  show ?thesis
    unfolding start_flow_def m(2)
    by (simp add: m(1) Let_def case_prod_beta' assoc)
qed

lemma no_exit_start_flow:
  assumes "idle_slots (cl_polls c) \<noteq> {}"
  shows "no_exit (start_flow cdf a fd c)"
  unfolding start_flow_eq case_prod_beta'
  by (intro no_exit_bind no_exit_get_flow_size no_exit_write_request no_exit_modify no_exit_add
      no_exit_event_push no_exit_simps assms)

lemma no_exit_client_event:
  assumes "cl_active_flows c < concurrent_flows \<Longrightarrow> idle_slots (cl_polls c) \<noteq> {}"
  shows "no_exit (client_event cdf concurrent_flows a events fd c)"
  using assms
  by (auto simp: client_event_def Let_def intro!: no_exit_bind no_exit_start_flow no_exit_del_flow
      no_exit_modify)

text \<open>A handled event leaves slots and counters alone, or takes one slot and counts one flow.\<close>

lemma start_flow_effect:
  assumes "start_flow cdf a fd c = Returned c'"
  shows "\<exists>n i. event_push (cl_polls c) (word_of_int fd) (word_of_int n) = Returned (cl_polls c', i)
    \<and> cl_active_flows c' = cl_active_flows c + 1 \<and> cl_left_flows c' = cl_left_flows c"
  using assms by (auto simp: start_flow_eq run_bind_eq_Returned_iff intro!: exI)

lemma del_flow_effect:
  "del_flow ctl fd c = Returned c' \<Longrightarrow>
     cl_polls c' = cl_polls c \<and> cl_active_flows c' = cl_active_flows c \<and> cl_left_flows c' = cl_left_flows c"
  by (auto simp: del_flow_def delete_epoll_event_def run_bind_eq_Returned_iff)

lemma client_event_effect:
  assumes "client_event cdf concurrent_flows a events fd c = Returned c'"
  shows "cl_left_flows c' = cl_left_flows c
    \<and> (cl_polls c' = cl_polls c \<and> cl_active_flows c' = cl_active_flows c
       \<or> cl_active_flows c < concurrent_flows \<and> cl_active_flows c' = cl_active_flows c + 1
         \<and> (\<exists>n i. event_push (cl_polls c) (word_of_int fd) (word_of_int n) = Returned (cl_polls c', i)))"
  using assms start_flow_effect [of cdf a fd c c'] del_flow_effect [of "ea_ctl a" fd c c']
  by (auto simp: client_event_def run_bind_eq_Returned_iff Let_def
      dest: modify_epoll_event_not_negative split: if_splits)

lemma serve_flow_effect:
  assumes "serve_flow stack e reads ctl now c = Returned (c', rest)"
  shows "cl_polls c' = cl_polls c \<and> cl_active_flows c' = cl_active_flows c - 1
    \<and> cl_left_flows c' = cl_left_flows c - 1"
  using assms
  by (auto simp: serve_flow_def finish_flow_def del_flow_def delete_epoll_event_def
      run_bind_eq_Returned_iff Let_def split: if_splits)

section \<open>The threads suffice\<close>

text \<open>The slots whose flow is counted in \<open>active_flows\<close>.\<close>

definition active_slots :: "nat \<Rightarrow> client_sys \<Rightarrow> nat set" where
  "active_slots n s = {i \<in> polls.busy n (cl_polls (sys_client s)). sys_workers s ! i \<noteq> Counted}"

definition sys_ok :: "nat \<Rightarrow> u32 \<Rightarrow> u32 \<Rightarrow> client_sys \<Rightarrow> bool" where
  "sys_ok n concurrent_flows flows s \<longleftrightarrow>
     wf_polls n (cl_polls (sys_client s)) \<and> length (sys_workers s) = n
   \<and> (\<forall>i<n. sys_workers s ! i \<noteq> Waiting_worker \<longrightarrow> i \<in> polls.busy n (cl_polls (sys_client s)))
   \<and> unat (cl_active_flows (sys_client s)) = card (active_slots n s)
   \<and> cl_active_flows (sys_client s) \<le> concurrent_flows
   \<and> cl_left_flows (sys_client s) = flows - of_nat (sys_done s)"

lemma sys_ok_start: "client_sys_start n flows s \<Longrightarrow> sys_ok n concurrent_flows flows s"
  by (simp add: client_sys_start_def sys_ok_def wf_polls_init busy_init active_slots_def)

lemma finite_active [simp]: "finite (active_slots n s)"
  by (simp add: active_slots_def)

lemma sys_ok_push:
  assumes ok: "sys_ok n concurrent_flows flows s" and none: "Counted \<notin> set (sys_workers s)"
    and push: "event_push (cl_polls (sys_client s)) fd k = Returned (cl_polls c, i)"
    and c: "cl_active_flows c = cl_active_flows (sys_client s) + 1"
      "cl_left_flows c = cl_left_flows (sys_client s)"
    and less: "cl_active_flows (sys_client s) < concurrent_flows"
  shows "sys_ok n concurrent_flows flows (s\<lparr>sys_client := c\<rparr>)"
proof -
  have wf: "wf_polls n (cl_polls (sys_client s))" and len: "length (sys_workers s) = n"
    using ok by (simp_all add: sys_ok_def)
  note slots = event_push_slots [OF wf push]
  have "sys_workers s ! i \<noteq> Counted" using none slots(2) len by (metis nth_mem)
  then have "active_slots n (s\<lparr>sys_client := c\<rparr>) = insert i (active_slots n s)"
    using slots by (auto simp: active_slots_def)
  moreover have "i \<notin> active_slots n s" using slots(3) by (simp add: active_slots_def)
  ultimately have "card (active_slots n (s\<lparr>sys_client := c\<rparr>)) = Suc (card (active_slots n s))"
    by simp
  moreover have "unat (cl_active_flows (sys_client s) + 1) = Suc (unat (cl_active_flows (sys_client s)))"
    using less by (rule unat_increment)
  moreover have "cl_active_flows (sys_client s) + 1 \<le> concurrent_flows"
    using less by (rule increment_le)
  ultimately show ?thesis
    using ok slots c by (auto simp: sys_ok_def)
qed

lemma sys_ok_event:
  assumes "sys_ok n concurrent_flows flows s" "Counted \<notin> set (sys_workers s)"
    and "client_event cdf concurrent_flows a events fd (sys_client s) = Returned c"
  shows "sys_ok n concurrent_flows flows (s\<lparr>sys_client := c\<rparr>)"
  using client_event_effect [OF assms(3)] sys_ok_push [OF assms(1,2), of "word_of_int fd"] assms(1)
  by (auto simp: sys_ok_def active_slots_def)

lemma sys_ok_serve:
  assumes ok: "sys_ok n concurrent_flows flows s"
    and i: "i < length (sys_workers s)" "sys_workers s ! i = Serving e"
    and c: "cl_polls c = cl_polls (sys_client s)" "cl_active_flows c = cl_active_flows (sys_client s) - 1"
      "cl_left_flows c = cl_left_flows (sys_client s) - 1"
  shows "sys_ok n concurrent_flows flows
    (s\<lparr>sys_client := c, sys_workers := (sys_workers s)[i := Counted], sys_done := sys_done s + 1\<rparr>)"
    (is "sys_ok n concurrent_flows flows ?t")
proof -
  have len: "length (sys_workers s) = n" using ok by (simp add: sys_ok_def)
  have "i \<in> polls.busy n (cl_polls (sys_client s))" using ok i len by (simp add: sys_ok_def)
  then have mem: "i \<in> active_slots n s" using i by (simp add: active_slots_def)
  have "active_slots n ?t = active_slots n s - {i}"
    using i c by (auto simp: active_slots_def nth_list_update)
  then have card: "Suc (card (active_slots n ?t)) = card (active_slots n s)"
    using card_Suc_Diff1 [OF finite_active mem] by simp
  then have pos: "0 < unat (cl_active_flows (sys_client s))" using ok by (simp add: sys_ok_def)
  then have "unat (cl_active_flows (sys_client s) - 1) = unat (cl_active_flows (sys_client s)) - 1"
    by (rule unat_decrement)
  moreover from this have "cl_active_flows (sys_client s) - 1 \<le> cl_active_flows (sys_client s)"
    by (simp add: word_le_nat_alt)
  ultimately show ?thesis
    using ok i c card by (auto simp: sys_ok_def nth_list_update)
qed

lemma sys_ok_take:
  assumes ok: "sys_ok n concurrent_flows flows s"
    and i: "i < length (sys_workers s)" "sys_workers s ! i = Waiting_worker"
    and pop: "event_pop (cl_polls (sys_client s) ! i) = Returned e"
  shows "sys_ok n concurrent_flows flows (s\<lparr>sys_workers := (sys_workers s)[i := Serving e]\<rparr>)"
    (is "sys_ok n concurrent_flows flows ?t")
proof -
  have "poll_flag (cl_polls (sys_client s) ! i) \<noteq> THREAD_IDLE"
    using pop by (auto simp: event_pop_def split: if_splits)
  then have "i \<in> polls.busy n (cl_polls (sys_client s))"
    using ok i by (auto simp: sys_ok_def polls.busy_def idle_slots_def)
  moreover have "active_slots n ?t = active_slots n s"
    using i by (auto simp: active_slots_def nth_list_update)
  ultimately show ?thesis
    using ok i by (auto simp: sys_ok_def nth_list_update)
qed

lemma sys_ok_release:
  assumes ok: "sys_ok n concurrent_flows flows s"
    and i: "i < length (sys_workers s)" "sys_workers s ! i = Counted"
  shows "sys_ok n concurrent_flows flows
    (s\<lparr>sys_client := set_idle i (sys_client s), sys_workers := (sys_workers s)[i := Waiting_worker]\<rparr>)"
    (is "sys_ok n concurrent_flows flows ?t")
proof -
  have wf: "wf_polls n (cl_polls (sys_client s))"
    and mem: "i \<in> polls.busy n (cl_polls (sys_client s))"
    using ok i by (simp_all add: sys_ok_def)
  note slots = polls.release_makes_idle [OF wf mem]
  have "active_slots n ?t = active_slots n s"
    using i slots(3) by (auto simp: active_slots_def set_idle_def nth_list_update)
  then show ?thesis
    using ok i slots(1,3) by (auto simp: sys_ok_def set_idle_def nth_list_update)
qed

lemma sys_worker_Some [simp]:
  "sys_worker s i = Some w \<longleftrightarrow> i < length (sys_workers s) \<and> sys_workers s ! i = w"
  by (simp add: sys_worker_def)

lemma sys_ok_step:
  assumes "sys_ok n concurrent_flows flows s" "atomic_finish l s"
    and "client_exec cdf concurrent_flows l s = Returned t"
  shows "sys_ok n concurrent_flows flows t"
proof (cases l)
  case (C_event a events fd)
  then show ?thesis
    using assms sys_ok_event [OF assms(1)] by (auto simp: atomic_finish_def run_bind_eq_Returned_iff)
next
  case (C_take i)
  then show ?thesis
    using assms sys_ok_take [OF assms(1)] by (auto simp: run_bind_eq_Returned_iff split: if_splits)
next
  case (C_serve i stack reads ctl now)
  then obtain e c rest where "i < length (sys_workers s)" "sys_workers s ! i = Serving e"
    "serve_flow stack e reads ctl now (sys_client s) = Returned (c, rest)"
    "t = s\<lparr>sys_client := c, sys_workers := (sys_workers s)[i := Counted], sys_done := sys_done s + 1\<rparr>"
    using assms(3) by (auto simp: run_bind_eq_Returned_iff split: option.splits client_worker.splits)
  then show ?thesis
    using sys_ok_serve [OF assms(1)] serve_flow_effect by blast
next
  case (C_release i)
  then show ?thesis
    using assms sys_ok_release [OF assms(1)] by (auto split: if_splits)
qed

interpretation client_ok: step_invariant "client_sys_start n flows" atomic_finish
  "\<lambda>l s. returned (client_exec cdf concurrent_flows l s)"
  "client_reach atomic_finish cdf concurrent_flows n flows" "sys_ok n concurrent_flows flows"
  by unfold_locales (auto intro: sys_ok_start sys_ok_step simp del: client_exec.simps)

lemmas sys_ok_reach = client_ok.inv_reach

lemma idle_slot_left:
  assumes "sys_ok n concurrent_flows flows s" "unat concurrent_flows \<le> n" "Counted \<notin> set (sys_workers s)"
    and "cl_active_flows (sys_client s) < concurrent_flows"
  shows "idle_slots (cl_polls (sys_client s)) \<noteq> {}"
proof -
  let ?p = "cl_polls (sys_client s)"
  have len: "length (sys_workers s) = n" using assms(1) by (simp add: sys_ok_def)
  then have "\<forall>i\<in>polls.busy n ?p. sys_workers s ! i \<noteq> Counted"
    using assms(3) busy_less nth_mem by metis
  then have "active_slots n s = polls.busy n ?p" by (auto simp: active_slots_def)
  then have "card (polls.busy n ?p) < n"
    using assms(1,2,4) by (simp add: sys_ok_def word_less_nat_alt)
  moreover have "card (polls.busy n ?p) + card (idle_slots ?p) = n"
    using polls.card_busy_idle [of n ?p] assms(1) by (simp add: sys_ok_def)
  ultimately show ?thesis by auto
qed

text \<open>
  C5.  When workers finish atomically, and with at least as many threads as concurrent flows, which
  \<open>read_args\<close> enforces, the client never has more active flows than asked for, \<open>left_flows\<close> is the
  number of connections minus the flows served, and no event ends the program: whenever the epoll
  thread starts a flow there is an idle slot for it.
\<close>

theorem threads_suffice:
  assumes "client_reach atomic_finish cdf concurrent_flows n flows s" "unat concurrent_flows \<le> n"
  shows "cl_active_flows (sys_client s) \<le> concurrent_flows
    \<and> cl_left_flows (sys_client s) = flows - of_nat (sys_done s)
    \<and> (Counted \<notin> set (sys_workers s) \<longrightarrow>
         client_exec cdf concurrent_flows (C_event a events fd) s \<noteq> Exited k)"
proof -
  have ok: "sys_ok n concurrent_flows flows s" using sys_ok_reach [OF assms(1)] .
  have "client_exec cdf concurrent_flows (C_event a events fd) s \<noteq> Exited k"
    if "Counted \<notin> set (sys_workers s)"
  proof -
    have "no_exit (client_event cdf concurrent_flows a events fd (sys_client s))"
      using idle_slot_left [OF ok assms(2) that] by (rule no_exit_client_event)
    then have "no_exit (client_exec cdf concurrent_flows (C_event a events fd) s)"
      by (auto intro!: no_exit_bind)
    then show ?thesis by (simp add: no_exit_def)
  qed
  with ok show ?thesis by (simp add: sys_ok_def)
qed

section \<open>The start establishes the invariant\<close>

lemma nat_sint: "0 \<le> sint (w :: u32) \<Longrightarrow> nat (sint w) = unat w"
proof -
  assume nonneg: "0 \<le> sint w"
  have "uint w < 2 ^ 32" using unsigned_less [of w, where 'a = int] by simp
  have "uint w < 2 ^ 31"
  proof (rule ccontr)
    assume big: "\<not> uint w < 2 ^ 31"
    have eq: "(word_of_int (uint w - 2 ^ 32) :: u32) = w"
      by simp
    have "sint w = uint w - 2 ^ 32"
      using big \<open>uint w < 2 ^ 32\<close> sint_word_of_int [of "uint w - 2 ^ 32", unfolded eq] by simp
    with nonneg \<open>uint w < 2 ^ 32\<close> show False by simp
  qed
  moreover have "- (2 ^ 31) \<le> uint w" by (rule order_trans [of _ 0]) simp_all
  ultimately have "sint w = uint w" using sint_word_of_int [of "uint w"] by simp
  then show "nat (sint w) = unat w" by simp
qed

lemma epoll_client_start_effect:
  assumes "epoll_client_start inet_addr create_ans ans ctl conn num c = Returned c'"
  shows "cl_polls c' = cl_polls c \<and> cl_active_flows c' = 0 \<and> cl_time_table c' = cl_time_table c"
  using assms by (auto simp: epoll_client_start_def run_bind_eq_Returned_iff)

lemma client_main_effect:
  assumes "client_main atoi ifaddrs opts malloc scan cdf_file alloc = Returned (conf, sc, conn, cdf, c)"
  shows "get_flow_configs atoi opts = Returned conf
    \<and> 0 < sint (fc_threads conf) \<and> sint (fc_threads conf) < int MAX_THREADS
    \<and> init_events_polls zero_polls (nat (sint (fc_threads conf))) = Some (cl_polls c)
    \<and> (\<exists>r. init_flow_time_table alloc zero_table (sint (fc_flows_num conf + BACKUP))
         = Returned (cl_time_table c, r))"
  using assms
  by (auto simp: client_main_def get_client_configs_def run_bind_eq_Returned_iff Let_def split: if_splits)

text \<open>
  Whenever \<open>main\<close> and the start of the epoll thread succeed, the program is in a start state
  of the interleavings: between 1 and 63 worker threads, all of their slots idle, no active flow, and
  at least as many threads as concurrent flows.  When memory is available and the number of
  flows is below \<open>2 ^ 31 - 64\<close>, the table has an unused entry for each flow and 64 more.
\<close>

theorem client_starts_well_formed:
  assumes "client_main atoi ifaddrs opts malloc scan cdf_file alloc = Returned (conf, sc, conn, cdf, c)"
    and "epoll_client_start inet_addr create_ans ans ctl conn num c = Returned c'"
  shows "let n = unat (fc_threads conf) in
      0 < n \<and> n < MAX_THREADS \<and> unat (fc_concurrent_flows conf) \<le> n
    \<and> client_sys_start n (cl_left_flows c')
        \<lparr>sys_client = c', sys_workers = replicate n Waiting_worker, sys_done = 0\<rparr>
    \<and> ((\<forall>k. alloc k) \<and> unat (fc_flows_num conf) < 2 ^ 31 - 64 \<longrightarrow>
         holds_rows (cl_time_table c') (replicate (unat (fc_flows_num conf) + 64) zero_time)
           (replicate THRES_NUM (replicate (unat (fc_flows_num conf) + 64) 0)))"
proof -
  note main = client_main_effect [OF assms(1)] and start = epoll_client_start_effect [OF assms(2)]
  define n where "n = unat (fc_threads conf)"
  have n: "nat (sint (fc_threads conf)) = n" "0 < n" "n < MAX_THREADS"
    using main nat_sint [of "fc_threads conf"] by (auto simp: n_def)
  have "unat (fc_concurrent_flows conf) \<le> n"
    using get_flow_configs_accepts(3) main by (auto simp: n_def word_le_nat_alt)
  moreover have "cl_polls c = replicate n (init_events_poll THREAD_IDLE)
      @ replicate (MAX_THREADS - n) (init_events_poll THREAD_INVALID)"
    using main n init_events_polls_spec [of zero_polls n] by (simp add: zero_polls_def)
  then have "client_sys_start n (cl_left_flows c')
      \<lparr>sys_client = c', sys_workers = replicate n Waiting_worker, sys_done = 0\<rparr>"
    using start n(3) by (simp add: client_sys_start_def)
  moreover have "holds_rows (cl_time_table c') (replicate (unat (fc_flows_num conf) + 64) zero_time)
           (replicate THRES_NUM (replicate (unat (fc_flows_num conf) + 64) 0))"
    if alloc: "\<forall>k. alloc k" and small: "unat (fc_flows_num conf) < 2 ^ 31 - 64"
  proof -
    have "sint (fc_flows_num conf + BACKUP) = int (unat (fc_flows_num conf) + 64)"
    proof -
      have "fc_flows_num conf + BACKUP = word_of_int (int (unat (fc_flows_num conf) + 64))"
        by (simp add: BACKUP_def)
      moreover have "int (unat (fc_flows_num conf)) < int (2 ^ 31 - 64)"
        using small by (rule of_nat_less_iff [THEN iffD2])
      ultimately show ?thesis
        using sint_word_of_int [of "int (unat (fc_flows_num conf) + 64)"] by simp
    qed
    then show ?thesis
      using init_table_ok [OF alloc, of zero_table "unat (fc_flows_num conf) + 64"] main start by auto
  qed
  ultimately show ?thesis using n by (simp add: Let_def n_def [symmetric])
qed

definition sample_main ::
    "(flow_configs \<times> socket_configs \<times> connection_four_tuples \<times> cdf_table option \<times> client) run" where
  "sample_main = client_main sample_atoi (Some [eth0_addr]) sample_opts zero_malloc conf_scan
     (Some conf_cdf) (\<lambda>_. True)"

lemma sample_main_returns:
  "(case sample_main of
      Returned (conf, sc, conn, cdf, c) \<Rightarrow> fc_threads conf = 12 \<and> sport conn = 0
    | _ \<Rightarrow> False)"
  by code_simp

theorem client_starts_well_formed_witness:
  "\<exists>c'. client_sys_start 12 0
     \<lparr>sys_client = c', sys_workers = replicate 12 Waiting_worker, sys_done = 0\<rparr>"
proof -
  obtain conf sc conn cdf c where main: "sample_main = Returned (conf, sc, conn, cdf, c)"
    "fc_threads conf = 12" "sport conn = 0"
    using sample_main_returns by (auto split: run.splits)
  define c' where "c' = c\<lparr>cl_efd := 3, cl_left_flows := 0, cl_active_flows := 0\<rparr>"
  have "epoll_client_start (\<lambda>_. 0) 3 (\<lambda>_. \<lparr>ans_socket = 5, ans_bind = 0, ans_getfl = 0, ans_setfl = 0,
      ans_connect = 0, ans_errno = EAGAIN\<rparr>) (\<lambda>_. 0) conn 0 c = Returned c'"
    using main(3) by (simp add: epoll_client_start_def create_epoll_def create_N_epoll_events_def c'_def)
  from client_starts_well_formed [OF main(1) [unfolded sample_main_def] this]
  have "client_sys_start 12 (cl_left_flows c')
     \<lparr>sys_client = c', sys_workers = replicate 12 Waiting_worker, sys_done = 0\<rparr>"
    by (simp add: main(2) Let_def)
  then show ?thesis by (auto simp: c'_def)
qed

section \<open>A race that ends the program\<close>

definition sample_sys :: client_sys where
  "sample_sys = \<lparr>sys_client = sample_client, sys_workers = [Waiting_worker], sys_done = 0\<rparr>"

lemma sample_sys_start: "client_sys_start 1 2 sample_sys"
  by (simp add: client_sys_start_def sample_sys_def sample_client_def MAX_THREADS_def)

theorem threads_suffice_witness:
  "client_exec (Some conf_table) 1 (C_event sample_answers EPOLLOUT 5) sample_sys \<noteq> Exited 0
   \<and> cl_active_flows (sys_client sample_sys) \<le> 1"
proof -
  have "client_reach atomic_finish (Some conf_table) 1 1 2 sample_sys"
    by (rule client_reach.start [OF sample_sys_start])
  moreover have "unat (1 :: u32) \<le> 1" by simp
  moreover have "Counted \<notin> set (sys_workers sample_sys)" by (simp add: sample_sys_def)
  ultimately show ?thesis using threads_suffice by blast
qed

lemma sample_idle_slots: "idle_slots (cl_polls sample_client) = {0}"
  by (auto simp: idle_slots_def sample_client_def init_events_poll_def nth_append nth_Cons' flag_defs MAX_THREADS_def
      split: if_splits)

text \<open>A run up to the race: an event starts a flow, the worker takes it, and serves it.\<close>

lemma started_client:
  "\<exists>c. client_event (Some conf_table) 1 sample_answers EPOLLOUT 5 sample_client = Returned c
    \<and> idle_slots (cl_polls c) = {}
    \<and> event_pop (cl_polls c ! 0) = Returned \<lparr>ev_fd = 5, ev_flow_size = 50\<rparr>
    \<and> cl_active_flows c = 1 \<and> cl_left_flows c = 2
    \<and> (\<exists>rows fcts. holds_rows (cl_time_table c) rows fcts \<and> length rows = 6
         \<and> ft_fd (rows ! 5) \<noteq> 0 \<and> ft_fd (rows ! 4) = 0)"
proof -
  have "(0::int) < 5" "(5::int) < MAX_FLOWS" "cl_active_flows sample_client < 1"
    by (simp_all add: MAX_FLOWS_def sample_client_facts)
  note start = start_flow_returns [OF sample_client_facts(1-3) this(1) sample_client_facts(5) this(2)
      sample_client_facts(4) sample_client_idle event_bits(1-3) this(3)]
  define rows where "rows = sample_rows[nat 5 := (sample_rows ! nat 5)\<lparr>ft_fd := 5, ft_flow_size := 50,
       ft_req_time := ea_now sample_answers\<rparr>]"
  have rows: "length rows = 6" "ft_fd (rows ! 5) \<noteq> 0" "ft_fd (rows ! 4) = 0"
    by (simp_all add: rows_def sample_rows_def zero_time_def nth_list_update)
  obtain c where c: "client_event (Some conf_table) 1 sample_answers EPOLLOUT 5 sample_client = Returned c"
    "cl_polls c = (cl_polls sample_client)[0 := store_event 5 50 (cl_polls sample_client ! 0)]"
    "cl_active_flows c = 1" "cl_left_flows c = 2"
    "holds_rows (cl_time_table c) rows (replicate THRES_NUM (replicate 6 0))"
    using start unfolding rows_def [symmetric] by (auto simp: sample_idle_slots sample_client_facts(6,7))
  have "0 < length (cl_polls sample_client)" by (simp add: sample_client_def)
  then have "event_pop (cl_polls c ! 0) = Returned \<lparr>ev_fd = 5, ev_flow_size = 50\<rparr>"
    by (simp add: c(2) store_event_def event_pop_def flag_defs)
  moreover have "idle_slots (cl_polls c) = {}" by (simp add: c(2) sample_idle_slots)
  ultimately show ?thesis using c rows by blast
qed

definition fifty_bytes :: "u8 list" where
  "fifty_bytes = replicate 50 0"

lemma served_client:
  assumes "cl_active_flows c = 1" "cl_left_flows c = 2" "idle_slots (cl_polls c) = {}"
    and "holds_rows (cl_time_table c) rows fcts" "length rows = 6" "ft_fd (rows ! 5) \<noteq> 0" "ft_fd (rows ! 4) = 0"
  shows "\<exists>d. serve_flow (replicate MAX_READ_BUFF 0) \<lparr>ev_fd = 5, ev_flow_size = 50\<rparr> [Read fifty_bytes] 0
        \<lparr>tv_sec = 2, tv_usec = 0\<rparr> c = Returned (d, [])
    \<and> cl_active_flows d = 0 \<and> cl_left_flows d = 1 \<and> idle_slots (cl_polls d) = {}
    \<and> (\<exists>rows fcts. holds_rows (cl_time_table d) rows fcts \<and> length rows = 6 \<and> ft_fd (rows ! 4) = 0)"
proof -
  let ?e = "\<lparr>ev_fd = 5, ev_flow_size = 50\<rparr>"
  have read: "read_responce (replicate MAX_READ_BUFF 0) (sint (ev_flow_size ?e)) [Read fifty_bytes]
      = Returned (50, [])"
    by (simp add: read_responce_def c_blit_def MAX_READ_BUFF_def INT_MAX_def fifty_bytes_def)
  have fd: "(5::int) = sint (ev_fd ?e)" "(0::int) \<le> 5" "5 < int (length rows)" "ft_fd (rows ! nat 5) \<noteq> 0"
    using assms(5,6) by simp_all
  obtain d where d: "serve_flow (replicate MAX_READ_BUFF 0) ?e [Read fifty_bytes] 0
        \<lparr>tv_sec = 2, tv_usec = 0\<rparr> c = Returned (d, [])"
    "cl_active_flows d = cl_active_flows c - 1" "cl_left_flows d = cl_left_flows c - 1"
    "cl_polls d = cl_polls c"
    "holds_rows (cl_time_table d) (rows[nat 5 := (rows ! nat 5)\<lparr>ft_resp_time := \<lparr>tv_sec = 2, tv_usec = 0\<rparr>,
         ft_fct := get_time_diff (ft_req_time (rows ! nat 5)) \<lparr>tv_sec = 2, tv_usec = 0\<rparr>\<rparr>]) fcts"
    using serve_flow_returns [OF read assms(4) fd, of 0 "\<lparr>tv_sec = 2, tv_usec = 0\<rparr>"] by auto
  define rows' where "rows' = rows[nat 5 := (rows ! nat 5)\<lparr>ft_resp_time := \<lparr>tv_sec = 2, tv_usec = 0\<rparr>,
         ft_fct := get_time_diff (ft_req_time (rows ! nat 5)) \<lparr>tv_sec = 2, tv_usec = 0\<rparr>\<rparr>]"
  have "holds_rows (cl_time_table d) rows' fcts" "length rows' = 6" "ft_fd (rows' ! 4) = 0"
    using d(5) assms(5,7) by (simp_all add: rows'_def)
  then have "\<exists>rows fcts. holds_rows (cl_time_table d) rows fcts \<and> length rows = 6 \<and> ft_fd (rows ! 4) = 0"
    by blast
  with d(1-4) assms(1-3) show ?thesis by (intro exI [of _ d]) simp
qed

lemma event_without_slot:
  assumes "cl_active_flows d < 1" "idle_slots (cl_polls d) = {}"
    and "holds_rows (cl_time_table d) rows fcts" "length rows = 6" "ft_fd (rows ! 4) = 0"
  shows "client_event (Some conf_table) 1 sample_answers EPOLLOUT 4 d = Exited EXIT_SUCCESS"
proof -
  obtain t where t: "add_flow_time_entry (ea_alloc sample_answers) (ea_now sample_answers)
      (cl_time_table d) 4 50 = Returned (t, SUCCESS)"
    using add_flow_time_entry_row [OF assms(3), of 4] assms(4,5) by fastforce
  obtain bytes r where w: "write_request (ea_stack sample_answers) (ea_req sample_answers) 50
      (ea_write sample_answers) = Returned (bytes, r)"
    using write_request_returns [OF sample_client_facts(2)] by blast
  obtain error where m: "modify_epoll_event (cl_efd d) 4 EPOLLIN (ea_ctl sample_answers)
      = Returned ([Epoll_ctl (cl_efd d) (EPOLL_CTL_MOD (EPOLLIN OR EPOLLET)) 4], error)"
    using modify_returns by blast
  have "EPOLLOUT \<noteq> 0" by (simp add: EPOLLOUT_def)
  then show ?thesis
    using assms(1) t w m
    by (simp add: client_event_def event_bits start_flow_eq sample_client_facts(1) write_flows_size_def
        MAX_FLOWS_def event_push_full [OF assms(2)])
qed

text \<open>
  C22.  Without atomic finishing the client can end with flows left: a worker decrements
  \<open>active_flows\<close> before it marks its slot idle, so with as many concurrent flows as threads (here
  one) an event in between passes the test for active flows, finds no idle slot, and
  \<open>event_push\<close> calls \<open>exit\<close> with status 0.
\<close>

theorem finish_race_ends_program:
  "\<exists>s. client_reach any_order (Some conf_table) 1 1 2 s \<and> cl_left_flows (sys_client s) = 1
     \<and> client_exec (Some conf_table) 1 (C_event sample_answers EPOLLOUT 4) s = Exited EXIT_SUCCESS"
proof -
  obtain c rows fcts where c:
    "client_event (Some conf_table) 1 sample_answers EPOLLOUT 5 sample_client = Returned c"
    "idle_slots (cl_polls c) = {}" "event_pop (cl_polls c ! 0) = Returned \<lparr>ev_fd = 5, ev_flow_size = 50\<rparr>"
    "cl_active_flows c = 1" "cl_left_flows c = 2" "holds_rows (cl_time_table c) rows fcts"
    "length rows = 6" "ft_fd (rows ! 5) \<noteq> 0" "ft_fd (rows ! 4) = 0"
    using started_client by blast
  obtain d rows' fcts' where d: "serve_flow (replicate MAX_READ_BUFF 0) \<lparr>ev_fd = 5, ev_flow_size = 50\<rparr>
        [Read fifty_bytes] 0 \<lparr>tv_sec = 2, tv_usec = 0\<rparr> c = Returned (d, [])"
    "cl_active_flows d = 0" "cl_left_flows d = 1" "idle_slots (cl_polls d) = {}"
    "holds_rows (cl_time_table d) rows' fcts'" "length rows' = 6" "ft_fd (rows' ! 4) = 0"
    using served_client [OF c(4,5,2,6-9)] by blast
  define s1 where "s1 = sample_sys\<lparr>sys_client := c\<rparr>"
  define s2 where "s2 = s1\<lparr>sys_workers := [Serving \<lparr>ev_fd = 5, ev_flow_size = 50\<rparr>]\<rparr>"
  define s3 where "s3 = s2\<lparr>sys_client := d, sys_workers := [Counted], sys_done := 1\<rparr>"
  have step: "client_reach any_order (Some conf_table) 1 1 2 s
      \<Longrightarrow> client_exec (Some conf_table) 1 l s = Returned t
      \<Longrightarrow> client_reach any_order (Some conf_table) 1 1 2 t" for s l t
    by (erule client_reach.step) (simp_all add: any_order_def)
  have "client_reach any_order (Some conf_table) 1 1 2 sample_sys"
    by (rule client_reach.start [OF sample_sys_start])
  then have "client_reach any_order (Some conf_table) 1 1 2 s1"
    by (rule step [where l = "C_event sample_answers EPOLLOUT 5"])
      (use c(1) in \<open>simp add: s1_def sample_sys_def\<close>)
  then have "client_reach any_order (Some conf_table) 1 1 2 s2"
    by (rule step [where l = "C_take 0"]) (use c(3) in \<open>simp add: s1_def s2_def sample_sys_def\<close>)
  then have "client_reach any_order (Some conf_table) 1 1 2 s3"
    by (rule step [where l = "C_serve 0 (replicate MAX_READ_BUFF 0) [Read fifty_bytes] 0
          \<lparr>tv_sec = 2, tv_usec = 0\<rparr>"])
      (use d(1) in \<open>simp add: s1_def s2_def s3_def sample_sys_def sys_worker_def\<close>)
  moreover have "cl_left_flows (sys_client s3) = 1" using d(3) by (simp add: s3_def)
  moreover have "client_event (Some conf_table) 1 sample_answers EPOLLOUT 4 d = Exited EXIT_SUCCESS"
    using d(2) by (intro event_without_slot [OF _ d(4-7)]) simp
  then have "client_exec (Some conf_table) 1 (C_event sample_answers EPOLLOUT 4) s3 = Exited EXIT_SUCCESS"
    by (simp add: s3_def)
  ultimately show ?thesis by blast
qed

end
