(* ===== verification/FG_Client_Safe.thy ===== *)
theory FG_Client_Safe
  imports FG_Client_Steps
begin

text \<open>
  Safety of the client's threads (\<open>flow_generator/src/client/client.c\<close>): when the system behaves as
  expected, no step of the epoll thread or of a worker accesses memory out of bounds, fails an
  assertion, or ends the program.  The expectations are stated as a discipline on the steps.
\<close>

section \<open>What is expected of the system\<close>

text \<open>The flow a slot is busy with, and the slots whose flow is not yet counted as done.\<close>

definition slot_fd :: "client_sys \<Rightarrow> nat \<Rightarrow> int" where
  "slot_fd s i = sint (ev_fd (held_event (cl_polls (sys_client s)) i))"

definition unused_entry :: "client \<Rightarrow> int \<Rightarrow> bool" where
  "unused_entry c fd = (case get_entry (cl_time_table c) fd of Some x \<Rightarrow> ft_fd x = 0 | None \<Rightarrow> False)"

fun fits_read :: "read_result \<Rightarrow> bool" where
  "fits_read (Read bs) = (length bs \<le> MAX_READ_BUFF)"
| "fits_read (Read_error e) = True"

text \<open>
  Events concern sockets inside the table; a socket becomes writable only before its flow has been
  started, as it is armed for input only when the flow starts; it reports no error and no hang-up
  while its flow is in progress; the drawn size is an \<open>int\<close>; workers
  finish atomically; and a \<open>read\<close> returns no more than asked for.
\<close>

fun expected :: "cdf_table option \<Rightarrow> nat \<Rightarrow> nat \<Rightarrow> client_label \<Rightarrow> client_sys \<Rightarrow> bool" where
  "expected cdf n entries (C_event a events fd) s =
     (Counted \<notin> set (sys_workers s) \<and> length (ea_stack a) = PAYLOAD_SIZE
      \<and> (\<exists>k. get_flow_size cdf (ea_rand a) = Returned k)
      \<and> 0 < fd \<and> fd < int entries \<and> fd < MAX_FLOWS
      \<and> (events AND EPOLLERR \<noteq> 0 \<or> events AND EPOLLHUP \<noteq> 0 \<or> events AND EPOLLOUT \<noteq> 0
           \<longrightarrow> fd \<notin> slot_fd s ` active_slots n s)
      \<and> (events AND EPOLLERR = 0 \<and> events AND EPOLLHUP = 0 \<and> events AND EPOLLOUT \<noteq> 0
           \<longrightarrow> unused_entry (sys_client s) fd))"
| "expected cdf n entries (C_serve i stack reads ctl now) s =
     (length stack = MAX_READ_BUFF \<and> list_all fits_read reads \<and> total_arrived reads \<le> INT_MAX)"
| "expected cdf n entries l s = True"

section \<open>Invariant\<close>

text \<open>
  Each flow in progress has an entry of the table in use, no two slots are busy with the same flow,
  and a worker serves the event its slot holds.
\<close>

definition flows_ok :: "nat \<Rightarrow> nat \<Rightarrow> client_sys \<Rightarrow> bool" where
  "flows_ok n entries s \<longleftrightarrow> (\<exists>rows fcts. holds_rows (cl_time_table (sys_client s)) rows fcts
     \<and> length rows = entries
     \<and> (\<forall>i\<in>active_slots n s. 0 < slot_fd s i \<and> slot_fd s i < int entries
          \<and> ft_fd (rows ! nat (slot_fd s i)) \<noteq> 0)
     \<and> inj_on (slot_fd s) (active_slots n s)
     \<and> (\<forall>i<n. \<forall>e. sys_workers s ! i = Serving e \<longrightarrow> held_event (cl_polls (sys_client s)) i = e))"

lemma flows_ok_same_slots:
  assumes "flows_ok n entries s" "holds_rows (cl_time_table (sys_client s)) rows fcts"
    and "active_slots n t \<subseteq> active_slots n s" "\<And>i. slot_fd t i = slot_fd s i"
    and "holds_rows (cl_time_table (sys_client t)) (rows[k := x]) fcts"
    and "\<And>i. i \<in> active_slots n t \<Longrightarrow> nat (slot_fd s i) = k \<Longrightarrow> ft_fd x \<noteq> 0"
    and "\<And>i e. i < n \<Longrightarrow> sys_workers t ! i = Serving e \<Longrightarrow> held_event (cl_polls (sys_client t)) i = e"
  shows "flows_ok n entries t"
proof -
  obtain rows' fcts' where old: "holds_rows (cl_time_table (sys_client s)) rows' fcts'"
    "length rows' = entries"
    "\<And>i. i \<in> active_slots n s \<Longrightarrow> 0 < slot_fd s i \<and> slot_fd s i < int entries
       \<and> ft_fd (rows' ! nat (slot_fd s i)) \<noteq> 0"
    "inj_on (slot_fd s) (active_slots n s)"
    using assms(1) unfolding flows_ok_def by blast
  have "map Some rows' = map Some rows" using old(1) assms(2) by (simp add: holds_rows_def)
  then have rows: "rows' = rows" by (metis inj_map_eq_map inj_Some)
  have "0 < slot_fd t i \<and> slot_fd t i < int entries \<and> ft_fd (rows[k := x] ! nat (slot_fd t i)) \<noteq> 0"
    if "i \<in> active_slots n t" for i
  proof -
    have i: "0 < slot_fd s i" "slot_fd s i < int entries" "ft_fd (rows ! nat (slot_fd s i)) \<noteq> 0"
      using old(3) [of i] assms(3) that by (auto simp: rows)
    then have "nat (slot_fd s i) < length rows" using old(2) rows by simp
    with i assms(6) [OF that] show ?thesis
      by (cases "nat (slot_fd s i) = k") (auto simp: assms(4))
  qed
  moreover have "inj_on (slot_fd t) (active_slots n t)"
    using inj_on_subset [OF old(4) assms(3)] assms(4) by (simp add: inj_on_def)
  ultimately show ?thesis
    unfolding flows_ok_def using assms(5,7) old(2) rows
    by (intro exI [of _ "rows[k := x]"] exI [of _ fcts]) simp
qed

lemma flows_ok_same_table:
  assumes "flows_ok n entries s" "cl_time_table (sys_client t) = cl_time_table (sys_client s)"
    and "active_slots n t = active_slots n s"
    and "held_event (cl_polls (sys_client t)) = held_event (cl_polls (sys_client s))"
    and "\<And>i e. i < n \<Longrightarrow> sys_workers t ! i = Serving e \<Longrightarrow> held_event (cl_polls (sys_client s)) i = e"
  shows "flows_ok n entries t"
proof -
  have "slot_fd t = slot_fd s" by (simp add: fun_eq_iff slot_fd_def assms(4))
  moreover obtain rows fcts where "holds_rows (cl_time_table (sys_client s)) rows fcts" "length rows = entries"
    "\<forall>i\<in>active_slots n s. 0 < slot_fd s i \<and> slot_fd s i < int entries
       \<and> ft_fd (rows ! nat (slot_fd s i)) \<noteq> 0" "inj_on (slot_fd s) (active_slots n s)"
    using assms(1) unfolding flows_ok_def by blast
  ultimately show ?thesis
    unfolding flows_ok_def using assms(2-5) by (intro exI [of _ rows] exI [of _ fcts]) simp
qed

lemma flows_ok_held:
  "flows_ok n entries s \<Longrightarrow> i < n \<Longrightarrow> sys_workers s ! i = Serving e
    \<Longrightarrow> held_event (cl_polls (sys_client s)) i = e"
  unfolding flows_ok_def by blast

lemma flows_ok_rows:
  assumes "flows_ok n entries s"
  obtains rows fcts where "holds_rows (cl_time_table (sys_client s)) rows fcts" "length rows = entries"
    "\<And>i. i \<in> active_slots n s \<Longrightarrow> 0 < slot_fd s i \<and> slot_fd s i < int entries
       \<and> ft_fd (rows ! nat (slot_fd s i)) \<noteq> 0"
    "inj_on (slot_fd s) (active_slots n s)"
    "\<And>i e. i < n \<Longrightarrow> sys_workers s ! i = Serving e \<Longrightarrow> held_event (cl_polls (sys_client s)) i = e"
  using assms unfolding flows_ok_def by blast

section \<open>Events\<close>

lemma safe_error_event:
  assumes flows: "flows_ok n entries s" and ev: "events AND EPOLLERR \<noteq> 0 \<or> events AND EPOLLHUP \<noteq> 0"
    and fd: "0 < fd" "fd < int entries" "fd \<notin> slot_fd s ` active_slots n s"
  shows "\<exists>c. client_event cdf concurrent_flows a events fd (sys_client s) = Returned c
    \<and> flows_ok n entries (s\<lparr>sys_client := c\<rparr>)"
proof -
  obtain rows fcts where rows: "holds_rows (cl_time_table (sys_client s)) rows fcts" "length rows = entries"
    "\<And>i. i \<in> active_slots n s \<Longrightarrow> 0 < slot_fd s i \<and> slot_fd s i < int entries
       \<and> ft_fd (rows ! nat (slot_fd s i)) \<noteq> 0"
    "\<And>i e. i < n \<Longrightarrow> sys_workers s ! i = Serving e \<Longrightarrow> held_event (cl_polls (sys_client s)) i = e"
    using flows_ok_rows [OF flows] by metis
  have "0 \<le> fd" "fd < int (length rows)" using fd rows(2) by simp_all
  then obtain t where t: "del_flow_time_entry (cl_time_table (sys_client s)) fd = Returned t"
    "holds_rows t (rows[nat fd := (rows ! nat fd)\<lparr>ft_fd := 0\<rparr>]) fcts"
    using del_flow_time_entry_row [OF rows(1)] by blast
  let ?c = "(sys_client s)\<lparr>cl_time_table := t, cl_effects := cl_effects (sys_client s)
      @ [Epoll_ctl (cl_efd (sys_client s)) EPOLL_CTL_DEL fd, Net (Close fd)]\<rparr>"
  have "client_event cdf concurrent_flows a events fd (sys_client s) = Returned ?c"
    using ev t(1) by (auto simp: client_event_def del_flow_def delete_epoll_event_def)
  moreover have "flows_ok n entries (s\<lparr>sys_client := ?c\<rparr>)"
  proof (rule flows_ok_same_slots [OF flows rows(1)])
    show "active_slots n (s\<lparr>sys_client := ?c\<rparr>) \<subseteq> active_slots n s" by (simp add: active_slots_def)
    show "ft_fd ((rows ! nat fd)\<lparr>ft_fd := 0\<rparr>) \<noteq> 0"
      if "i \<in> active_slots n (s\<lparr>sys_client := ?c\<rparr>)" "nat (slot_fd s i) = nat fd" for i
    proof -
      have i: "i \<in> active_slots n s" using that(1) by (simp add: active_slots_def)
      then have "slot_fd s i = fd" using rows(3) [of i] fd(1) that(2) by simp
      with i fd(3) show ?thesis by blast
    qed
  qed (simp_all add: slot_fd_def t(2) rows(4))
  ultimately show ?thesis by blast
qed

lemma safe_writable_event:
  assumes ok: "sys_ok n concurrent_flows flows s" and flows: "flows_ok n entries s"
    and ev: "events AND EPOLLERR = 0" "events AND EPOLLHUP = 0" "events AND EPOLLOUT \<noteq> 0"
    and exp: "expected cdf n entries (C_event a events fd) s"
    and less: "cl_active_flows (sys_client s) < concurrent_flows" "unat concurrent_flows \<le> n"
  shows "\<exists>c. client_event cdf concurrent_flows a events fd (sys_client s) = Returned c
    \<and> flows_ok n entries (s\<lparr>sys_client := c\<rparr>)"
proof -
  let ?p = "cl_polls (sys_client s)"
  obtain rows fcts where rows: "holds_rows (cl_time_table (sys_client s)) rows fcts" "length rows = entries"
    "\<And>i. i \<in> active_slots n s \<Longrightarrow> 0 < slot_fd s i \<and> slot_fd s i < int entries
       \<and> ft_fd (rows ! nat (slot_fd s i)) \<noteq> 0" "inj_on (slot_fd s) (active_slots n s)"
    "\<And>i e. i < n \<Longrightarrow> sys_workers s ! i = Serving e \<Longrightarrow> held_event ?p i = e"
    using flows_ok_rows [OF flows] by metis
  obtain k where k: "get_flow_size cdf (ea_rand a) = Returned k" using exp by auto
  have fd: "0 < fd" "fd < int (length rows)" "fd < MAX_FLOWS" "ft_fd (rows ! nat fd) = 0"
    "length (ea_stack a) = PAYLOAD_SIZE" "Counted \<notin> set (sys_workers s)"
    using exp ev rows(2) get_entry_row [OF rows(1), of fd] by (auto simp: unused_entry_def)
  have idle: "idle_slots ?p \<noteq> {}" by (rule idle_slot_left [OF ok less(2) fd(6) less(1)])
  let ?x = "(rows ! nat fd)\<lparr>ft_fd := fd, ft_flow_size := k, ft_req_time := ea_now a\<rparr>"
  obtain c i where c: "client_event cdf concurrent_flows a events fd (sys_client s) = Returned c"
    "i \<in> idle_slots ?p" "cl_polls c = ?p[i := store_event (word_of_int fd) (word_of_int k) (?p ! i)]"
    "holds_rows (cl_time_table c) (rows[nat fd := ?x]) fcts"
    using start_flow_returns [OF k fd(5) rows(1) fd(1-4) idle ev less(1)] by blast
  let ?t = "s\<lparr>sys_client := c\<rparr>"
  have wf: "wf_polls n ?p" and len: "length (sys_workers s) = n" using ok by (simp_all add: sys_ok_def)
  have i: "i < n" "i < length ?p" "i < MAX_THREADS" "i \<notin> polls.busy n ?p"
    using c(2) wf_polls_idle [OF wf] wf by (auto simp: wf_polls_def polls.busy_def idle_slots_def)
  have active: "active_slots n ?t = insert i (active_slots n s)"
    using i c(2,3) fd(6) len by (auto simp: active_slots_def polls.busy_def) (metis nth_mem)
  have fds: "slot_fd ?t j = (if j = i then fd else slot_fd s j)" for j
    using i fd(1,3)
    by (auto simp: slot_fd_def c(3) held_event_def store_event_def nth_list_update sint_word_of_int MAX_FLOWS_def)
  have new: "fd \<notin> slot_fd s ` active_slots n s" "i \<notin> active_slots n s"
    using exp ev(3) i(4) by (auto simp: active_slots_def)
  have "0 < slot_fd ?t j \<and> slot_fd ?t j < int entries \<and> ft_fd (rows[nat fd := ?x] ! nat (slot_fd ?t j)) \<noteq> 0"
    if "j \<in> active_slots n ?t" for j
    using that rows(2,3) fd(1,2) by (auto simp: active fds nth_list_update)
  moreover have "inj_on (slot_fd ?t) (active_slots n ?t)"
    unfolding active using rows(4) new by (auto simp: inj_on_def fds)
  moreover have "held_event (cl_polls (sys_client ?t)) j = e" if "j < n" "sys_workers ?t ! j = Serving e" for j e
  proof -
    have "j \<in> polls.busy n ?p" using ok that by (simp add: sys_ok_def)
    then have "j \<noteq> i" using i(4) by blast
    moreover have "held_event ?p j = e" using rows(5) [of j e] that by simp
    ultimately show ?thesis by (auto simp: c(3) held_event_def)
  qed
  ultimately have "flows_ok n entries ?t"
    unfolding flows_ok_def using c(4) rows(2)
    by (intro exI [of _ "rows[nat fd := ?x]"] exI [of _ fcts]) simp
  with c(1) show ?thesis by blast
qed

lemma safe_event:
  assumes ok: "sys_ok n concurrent_flows flows s" and flows: "flows_ok n entries s"
    and exp: "expected cdf n entries (C_event a events fd) s" and enough: "unat concurrent_flows \<le> n"
  shows "\<exists>c. client_event cdf concurrent_flows a events fd (sys_client s) = Returned c
    \<and> flows_ok n entries (s\<lparr>sys_client := c\<rparr>)"
proof -
  consider "events AND EPOLLERR \<noteq> 0 \<or> events AND EPOLLHUP \<noteq> 0"
    | "events AND EPOLLERR = 0" "events AND EPOLLHUP = 0" "events AND EPOLLOUT \<noteq> 0"
      "cl_active_flows (sys_client s) < concurrent_flows"
    | "events AND EPOLLERR = 0" "events AND EPOLLHUP = 0"
      "events AND EPOLLOUT = 0 \<or> \<not> cl_active_flows (sys_client s) < concurrent_flows"
    by blast
  then show ?thesis
  proof cases
    case 1
    then show ?thesis using exp by (intro safe_error_event [OF flows]) auto
  next
    case 2
    then show ?thesis by (intro safe_writable_event [OF ok flows _ _ _ exp _ enough])
  next
    case 3
    obtain error where m: "\<not> error < 0" "modify_epoll_event (cl_efd (sys_client s)) fd EPOLLOUT (ea_ctl a)
        = Returned ([Epoll_ctl (cl_efd (sys_client s)) (EPOLL_CTL_MOD (EPOLLOUT OR EPOLLET)) fd], error)"
      using modify_returns by blast
    obtain es where "client_event cdf concurrent_flows a events fd (sys_client s)
        = Returned ((sys_client s)\<lparr>cl_effects := es\<rparr>)"
    proof (cases "events AND EPOLLOUT = 0")
      case True
      have "sys_client s = (sys_client s)\<lparr>cl_effects := cl_effects (sys_client s)\<rparr>" by simp
      moreover have "client_event cdf concurrent_flows a events fd (sys_client s) = Returned (sys_client s)"
        using True 3 by (simp add: client_event_def)
      ultimately show ?thesis using that by metis
    next
      case False
      with 3 m that show ?thesis by (auto simp: client_event_def)
    qed
    moreover have "flows_ok n entries (s\<lparr>sys_client := (sys_client s)\<lparr>cl_effects := es\<rparr>\<rparr>)"
      by (rule flows_ok_same_table [OF flows]) (simp_all add: active_slots_def flows_ok_held [OF flows])
    ultimately show ?thesis by blast
  qed
qed

section \<open>Workers\<close>

lemma read_loop_safe:
  assumes "length buf = MAX_READ_BUFF" "list_all fits_read reads" "0 \<le> amount"
    and "amount + total_arrived reads \<le> INT_MAX"
  shows "read_responce_loop n amount buf reads = Blocked
    \<or> (\<exists>k rest. read_responce_loop n amount buf reads = Returned (k, rest))"
  using assms
proof (induction reads arbitrary: amount buf)
  case (Cons r reads)
  show ?case
  proof (cases r)
    case (Read bs)
    have blit: "c_blit buf bs = Some (bs @ drop (length bs) buf)" "length bs \<le> length buf"
      using Cons.prems Read by (simp_all add: c_blit_def)
    have "total_arrived (r # reads) = int (length bs) + total_arrived reads" by (simp add: Read)
    then have "amount + int (length bs) \<le> INT_MAX"
      using Cons.prems(4) total_arrived_nonneg [of reads] by linarith
    with Cons.IH [of "bs @ drop (length bs) buf" "amount + int (length bs)"] Cons.prems blit Read
    show ?thesis by (auto simp: Let_def)
  next
    case (Read_error e)
    with Cons.IH [of buf amount] Cons.prems show ?thesis by auto
  qed
qed simp

lemma safe_serve:
  assumes ok: "sys_ok n concurrent_flows flows s" and flows: "flows_ok n entries s"
    and i: "i < length (sys_workers s)" "sys_workers s ! i = Serving e"
    and exp: "expected cdf n entries (C_serve i stack reads ctl now) s"
  shows "serve_flow stack e reads ctl now (sys_client s) = Blocked
    \<or> (\<exists>c rest. serve_flow stack e reads ctl now (sys_client s) = Returned (c, rest)
        \<and> flows_ok n entries (s\<lparr>sys_client := c, sys_workers := (sys_workers s)[i := Counted],
            sys_done := Suc (sys_done s)\<rparr>))"
proof -
  let ?p = "cl_polls (sys_client s)"
  obtain rows fcts where rows: "holds_rows (cl_time_table (sys_client s)) rows fcts" "length rows = entries"
    "\<And>i. i \<in> active_slots n s \<Longrightarrow> 0 < slot_fd s i \<and> slot_fd s i < int entries
       \<and> ft_fd (rows ! nat (slot_fd s i)) \<noteq> 0" "inj_on (slot_fd s) (active_slots n s)"
    "\<And>i e. i < n \<Longrightarrow> sys_workers s ! i = Serving e \<Longrightarrow> held_event ?p i = e"
    using flows_ok_rows [OF flows] by metis
  have len: "length (sys_workers s) = n" using ok by (simp add: sys_ok_def)
  have mem: "i \<in> active_slots n s" using ok i len by (simp add: sys_ok_def active_slots_def)
  have fd: "slot_fd s i = sint (ev_fd e)" using rows(5) [of i e] i len by (simp add: slot_fd_def)
  have bounds: "0 \<le> sint (ev_fd e)" "sint (ev_fd e) < int (length rows)"
    "ft_fd (rows ! nat (sint (ev_fd e))) \<noteq> 0"
    using rows(2) rows(3) [OF mem] by (simp_all add: fd)
  consider "read_responce stack (sint (ev_flow_size e)) reads = Blocked"
    | k rest where "read_responce stack (sint (ev_flow_size e)) reads = Returned (k, rest)"
    using read_loop_safe [of stack reads 0 "sint (ev_flow_size e)"] exp by (auto simp: read_responce_def)
  then show ?thesis
  proof cases
    case 1
    then show ?thesis by (simp add: serve_flow_def Let_def)
  next
    case (2 k rest)
    obtain c x where c: "serve_flow stack e reads ctl now (sys_client s) = Returned (c, rest)"
      "cl_polls c = ?p" "holds_rows (cl_time_table c) (rows[nat (sint (ev_fd e)) := x]) fcts"
      using serve_flow_returns [OF 2 rows(1) refl bounds, of ctl now] by (auto split: if_splits)
    let ?t = "s\<lparr>sys_client := c, sys_workers := (sys_workers s)[i := Counted], sys_done := Suc (sys_done s)\<rparr>"
    have active: "active_slots n ?t = active_slots n s - {i}"
      using i c(2) by (auto simp: active_slots_def nth_list_update)
    have "flows_ok n entries ?t"
    proof (rule flows_ok_same_slots [OF flows rows(1)])
      show "active_slots n ?t \<subseteq> active_slots n s" by (auto simp: active)
      show "holds_rows (cl_time_table (sys_client ?t)) (rows[nat (sint (ev_fd e)) := x]) fcts" by (simp add: c(3))
      show "ft_fd x \<noteq> 0" if "j \<in> active_slots n ?t" "nat (slot_fd s j) = nat (sint (ev_fd e))" for j
      proof -
        have j: "j \<in> active_slots n s" "j \<noteq> i" using that(1) by (auto simp: active)
        have "0 < slot_fd s j" "0 < sint (ev_fd e)"
          using rows(3) [OF j(1)] rows(3) [OF mem] by (simp_all add: fd)
        then have "slot_fd s j = slot_fd s i" using that(2) fd by linarith
        with rows(4) j mem show ?thesis by (auto simp: inj_on_def)
      qed
      show "held_event (cl_polls (sys_client ?t)) j = e'" if "j < n" "sys_workers ?t ! j = Serving e'" for j e'
        using rows(5) [of j e'] that i by (auto simp: c(2) nth_list_update split: if_splits)
    qed (simp add: slot_fd_def c(2))
    with c(1) show ?thesis by blast
  qed
qed

lemma safe_take:
  assumes ok: "sys_ok n concurrent_flows flows s" and flows: "flows_ok n entries s"
    and i: "i < length (sys_workers s)" "sys_workers s ! i = Waiting_worker"
    and pop: "event_pop (cl_polls (sys_client s) ! i) = Returned e"
  shows "flows_ok n entries (s\<lparr>sys_workers := (sys_workers s)[i := Serving e]\<rparr>)" (is "flows_ok n entries ?t")
proof -
  have len: "i < MAX_THREADS" using ok i by (simp add: sys_ok_def wf_polls_def)
  have "active_slots n ?t = active_slots n s" using i by (auto simp: active_slots_def nth_list_update)
  moreover have "held_event (cl_polls (sys_client s)) i = e"
    using pop len by (auto simp: event_pop_def held_event_def split: if_splits)
  ultimately show ?thesis
    using i flows_ok_held [OF flows]
    by (intro flows_ok_same_table [OF flows]) (auto simp: nth_list_update split: if_splits)
qed

lemma safe_release:
  assumes ok: "sys_ok n concurrent_flows flows s" and flows: "flows_ok n entries s"
    and i: "i < length (sys_workers s)" "sys_workers s ! i = Counted"
  shows "flows_ok n entries
    (s\<lparr>sys_client := set_idle i (sys_client s), sys_workers := (sys_workers s)[i := Waiting_worker]\<rparr>)"
    (is "flows_ok n entries ?t")
proof -
  have wf: "wf_polls n (cl_polls (sys_client s))"
    and mem: "i \<in> polls.busy n (cl_polls (sys_client s))"
    using ok i by (simp_all add: sys_ok_def)
  note slots = polls.release_makes_idle [OF wf mem]
  have "active_slots n ?t = active_slots n s"
    using i slots(3) by (auto simp: active_slots_def set_idle_def nth_list_update)
  moreover have "held_event (cl_polls (sys_client ?t)) = held_event (cl_polls (sys_client s))"
    using slots(5) by (simp add: set_idle_def)
  ultimately show ?thesis
    using i flows_ok_held [OF flows]
    by (intro flows_ok_same_table [OF flows]) (auto simp: nth_list_update set_idle_def split: if_splits)
qed

section \<open>No step goes wrong\<close>

lemma safe_step:
  assumes "sys_ok n concurrent_flows flows s" "flows_ok n entries s" "unat concurrent_flows \<le> n"
    and exp: "expected cdf n entries l s"
  shows "client_exec cdf concurrent_flows l s = Blocked
    \<or> (\<exists>t. client_exec cdf concurrent_flows l s = Returned t \<and> flows_ok n entries t)"
proof (cases l)
  case (C_event a events fd)
  with safe_event [OF assms(1,2) _ assms(3), of cdf a events fd] exp show ?thesis by auto
next
  case (C_take i)
  consider e where "event_pop (cl_polls (sys_client s) ! i) = Returned e"
    | "event_pop (cl_polls (sys_client s) ! i) = Blocked"
    by (cases "poll_flag (cl_polls (sys_client s) ! i) = THREAD_IDLE") (auto simp: event_pop_def)
  then show ?thesis
    using C_take safe_take [OF assms(1,2), of i] by cases auto
next
  case (C_serve i stack reads ctl now)
  show ?thesis
  proof (cases "\<exists>e. i < length (sys_workers s) \<and> sys_workers s ! i = Serving e")
    case True
    then obtain e where i: "i < length (sys_workers s)" "sys_workers s ! i = Serving e" by blast
    with C_serve safe_serve [OF assms(1,2) i, of cdf stack reads ctl now] exp show ?thesis
      by (auto simp: sys_worker_def)
  next
    case False
    with C_serve show ?thesis by (auto simp: sys_worker_def split: client_worker.split)
  qed
next
  case (C_release i)
  with safe_release [OF assms(1,2), of i] show ?thesis by auto
qed

text \<open>The runs from a start state in which every step is as expected.\<close>

inductive client_runs ::
    "cdf_table option \<Rightarrow> u32 \<Rightarrow> nat \<Rightarrow> nat \<Rightarrow> client_sys \<Rightarrow> client_sys \<Rightarrow> bool"
  for cdf concurrent_flows n entries s0 where
  none: "client_runs cdf concurrent_flows n entries s0 s0"
| more: "client_runs cdf concurrent_flows n entries s0 s \<Longrightarrow> expected cdf n entries l s
    \<Longrightarrow> client_exec cdf concurrent_flows l s = Returned t
    \<Longrightarrow> client_runs cdf concurrent_flows n entries s0 t"

lemma expected_atomic: "expected cdf n entries l s \<Longrightarrow> atomic_finish l s"
  by (cases l) (simp_all add: atomic_finish_def)

lemma flows_ok_start:
  assumes "client_sys_start n flows s" "holds_rows (cl_time_table (sys_client s)) rows fcts"
  shows "flows_ok n (length rows) s"
proof -
  have "active_slots n s = {}" using assms(1) by (simp add: client_sys_start_def active_slots_def busy_init)
  moreover have "sys_workers s ! i \<noteq> Serving e" if "i < n" for i e
    using assms(1) that by (simp add: client_sys_start_def)
  ultimately show ?thesis
    unfolding flows_ok_def using assms(2) by (intro exI [of _ rows] exI [of _ fcts]) simp
qed

lemma safe_runs:
  assumes "client_runs cdf concurrent_flows n entries s0 s" "unat concurrent_flows \<le> n"
    and "sys_ok n concurrent_flows flows s0" "flows_ok n entries s0"
  shows "sys_ok n concurrent_flows flows s \<and> flows_ok n entries s"
  using assms
proof (induction rule: client_runs.induct)
  case (more s l t)
  then have "sys_ok n concurrent_flows flows s" "flows_ok n entries s" by blast+
  moreover from this have "flows_ok n entries t"
    using safe_step [OF _ _ more.prems(1) more.hyps(2)] more.hyps(3) by fastforce
  ultimately show ?case
    using sys_ok_step [OF _ expected_atomic [OF more.hyps(2)] more.hyps(3)] by blast
qed simp

text \<open>
  From a start state with a table of unused entries and at least as many threads as concurrent
  flows, and as long as the system behaves as expected, no step of the client accesses memory out of
  bounds, fails an assertion or ends the program: it returns, or waits for the system.
\<close>

theorem client_never_faults:
  assumes "client_sys_start n flows s0" "holds_rows (cl_time_table (sys_client s0)) rows fcts"
    and "unat concurrent_flows \<le> n"
    and "client_runs cdf concurrent_flows n (length rows) s0 s" "expected cdf n (length rows) l s"
  shows "client_exec cdf concurrent_flows l s = Blocked
    \<or> (\<exists>t. client_exec cdf concurrent_flows l s = Returned t)"
proof -
  have "sys_ok n concurrent_flows flows s \<and> flows_ok n (length rows) s"
    using safe_runs [OF assms(4,3) sys_ok_start [OF assms(1)] flows_ok_start [OF assms(1,2)]] .
  then show ?thesis using safe_step [OF _ _ assms(3,5)] by blast
qed

theorem client_never_faults_witness:
  "\<exists>s t. client_exec (Some conf_table) 1 (C_event sample_answers EPOLLOUT 5) sample_sys = Returned s
     \<and> client_exec (Some conf_table) 1 (C_take 0) s = Returned t"
proof -
  have table: "holds_rows (cl_time_table (sys_client sample_sys)) sample_rows (replicate THRES_NUM (replicate 6 0))"
    using sample_client_facts(3) by (simp add: sample_sys_def)
  have entries: "length sample_rows = 6" by (simp add: sample_rows_def)
  have one: "unat (1 :: u32) \<le> 1" by simp
  have "unused_entry (sys_client sample_sys) 5"
    using get_entry_row [OF table, of 5] sample_client_facts(4) by (simp add: unused_entry_def entries)
  then have event: "expected (Some conf_table) 1 (length sample_rows) (C_event sample_answers EPOLLOUT 5) sample_sys"
    using sample_client_facts(1,2) busy_init [of 1]
    by (simp add: entries MAX_FLOWS_def active_slots_def sample_sys_def sample_client_def MAX_THREADS_def)
  note safe = client_never_faults [OF sample_sys_start table one]
  obtain c where c: "client_event (Some conf_table) 1 sample_answers EPOLLOUT 5 sample_client = Returned c"
    "event_pop (cl_polls c ! 0) = Returned \<lparr>ev_fd = 5, ev_flow_size = 50\<rparr>"
    using started_client by blast
  let ?s = "sample_sys\<lparr>sys_client := c\<rparr>"
  have step: "client_exec (Some conf_table) 1 (C_event sample_answers EPOLLOUT 5) sample_sys = Returned ?s"
    using c(1) by (simp add: sample_sys_def)
  have "client_runs (Some conf_table) 1 1 (length sample_rows) sample_sys ?s"
    by (rule client_runs.more [OF client_runs.none event step])
  from safe [OF this, of "C_take 0"] step c(2) show ?thesis by (auto simp: sample_sys_def)
qed

end
