(* ===== verification/FG_Client_Progress.thy ===== *)
theory FG_Client_Progress
  imports FG_Client_Safe
begin

text \<open>
  The client ends its flows (\<open>epoll_client\<close> and \<open>request_thread\<close> in \<open>client/client.c\<close>): as long as the
  system behaves as expected, every flow takes four steps, some thread can always make the next
  one, and when no thread can, all flows are done and the loop of the epoll thread ends.
\<close>

section \<open>Steps that bring a flow forward\<close>

text \<open>
  A flow is started by an event that reports its socket writable while fewer flows are active than asked
  for; then a worker takes it, serves it, and gives its slot back.  Other events, which report an
  error, input, or a socket whose turn has not come, change no flow.
\<close>

definition starts_flow :: "u32 \<Rightarrow> client_label \<Rightarrow> client_sys \<Rightarrow> bool" where
  "starts_flow concurrent_flows l s =
     (case l of
        C_event a events fd \<Rightarrow>
          events AND EPOLLERR = 0 \<and> events AND EPOLLHUP = 0 \<and> events AND EPOLLOUT \<noteq> 0
          \<and> cl_active_flows (sys_client s) < concurrent_flows
          \<and> cl_active_flows (sys_client s) < cl_left_flows (sys_client s)
      | _ \<Rightarrow> True)"

definition brings_forward :: "cdf_table option \<Rightarrow> u32 \<Rightarrow> nat \<Rightarrow> nat \<Rightarrow> client_label \<Rightarrow> client_sys \<Rightarrow> bool" where
  "brings_forward cdf concurrent_flows n entries l s \<longleftrightarrow>
     expected cdf n entries l s \<and> starts_flow concurrent_flows l s"

inductive flow_runs ::
    "cdf_table option \<Rightarrow> u32 \<Rightarrow> nat \<Rightarrow> nat \<Rightarrow> client_sys \<Rightarrow> nat \<Rightarrow> client_sys \<Rightarrow> bool"
  for cdf concurrent_flows n entries s0 where
  none: "flow_runs cdf concurrent_flows n entries s0 0 s0"
| more: "flow_runs cdf concurrent_flows n entries s0 k s
    \<Longrightarrow> brings_forward cdf concurrent_flows n entries l s
    \<Longrightarrow> client_exec cdf concurrent_flows l s = Returned t
    \<Longrightarrow> flow_runs cdf concurrent_flows n entries s0 (Suc k) t"

text \<open>The steps still to make: four for each flow not started, and fewer for those in a slot.\<close>

fun steps_left :: "client_worker \<Rightarrow> nat" where
  "steps_left Waiting_worker = 3"
| "steps_left (Serving e) = 2"
| "steps_left Counted = 1"

definition slot_work :: "nat \<Rightarrow> client_sys \<Rightarrow> nat" where
  "slot_work n s = (\<Sum>i\<in>polls.busy n (cl_polls (sys_client s)). steps_left (sys_workers s ! i))"

definition client_work :: "nat \<Rightarrow> client_sys \<Rightarrow> nat" where
  "client_work n s =
     4 * (unat (cl_left_flows (sys_client s)) - unat (cl_active_flows (sys_client s))) + slot_work n s"

section \<open>Entries of the table\<close>

text \<open>A flow in progress or done has used one entry at most, so there is one left for each flow to come.\<close>

definition used_entries :: "flow_time list \<Rightarrow> nat set" where
  "used_entries rows = {k. 0 < k \<and> k < length rows \<and> ft_fd (rows ! k) \<noteq> 0}"

lemma finite_used_entries [simp]: "finite (used_entries rows)"
  by (simp add: used_entries_def)

lemma used_entries_update:
  assumes "k < length rows"
  shows "card (used_entries (rows[k := x])) \<le> Suc (card (used_entries rows))"
    "0 < k \<Longrightarrow> ft_fd (rows ! k) \<noteq> 0 \<Longrightarrow> card (used_entries (rows[k := x])) \<le> card (used_entries rows)"
proof -
  have sub: "used_entries (rows[k := x]) \<subseteq> insert k (used_entries rows)"
    by (auto simp: used_entries_def nth_list_update split: if_splits)
  then have "card (used_entries (rows[k := x])) \<le> card (insert k (used_entries rows))"
    by (intro card_mono) simp_all
  then show "card (used_entries (rows[k := x])) \<le> Suc (card (used_entries rows))"
    using card_insert_le_m1 [of "Suc (card (used_entries rows))" "used_entries rows" k] by simp
  assume "0 < k" "ft_fd (rows ! k) \<noteq> 0"
  with assms sub have "used_entries (rows[k := x]) \<subseteq> used_entries rows"
    by (auto simp: used_entries_def)
  then show "card (used_entries (rows[k := x])) \<le> card (used_entries rows)"
    by (intro card_mono) simp_all
qed

lemma unused_entry_exists:
  assumes "Suc (card (used_entries rows)) < length rows"
  obtains k where "0 < k" "k < length rows" "ft_fd (rows ! k) = 0"
proof -
  have "used_entries rows \<subseteq> {1..<length rows}" by (auto simp: used_entries_def)
  moreover have "used_entries rows \<noteq> {1..<length rows}" using assms by auto
  ultimately obtain k where "k \<in> {1..<length rows}" "k \<notin> used_entries rows" by blast
  then show thesis using that [of k] by (simp add: used_entries_def)
qed

definition progress_ok :: "nat \<Rightarrow> u32 \<Rightarrow> u32 \<Rightarrow> nat \<Rightarrow> client_sys \<Rightarrow> bool" where
  "progress_ok n concurrent_flows flows entries s \<longleftrightarrow>
     sys_ok n concurrent_flows flows s \<and> flows_ok n entries s
   \<and> (\<exists>rows fcts. holds_rows (cl_time_table (sys_client s)) rows fcts \<and> length rows = entries
        \<and> card (used_entries rows) \<le> sys_done s + unat (cl_active_flows (sys_client s)))
   \<and> unat (cl_active_flows (sys_client s)) \<le> unat (cl_left_flows (sys_client s))
   \<and> sys_done s + unat (cl_left_flows (sys_client s)) = unat flows"

lemma progress_ok_start:
  assumes "client_sys_start n flows s" "holds_rows (cl_time_table (sys_client s)) rows fcts"
    and "\<forall>x\<in>set rows. ft_fd x = 0"
  shows "progress_ok n concurrent_flows flows (length rows) s"
proof -
  have "used_entries rows = {}" using assms(3) by (auto simp: used_entries_def)
  then show ?thesis
    using assms sys_ok_start [OF assms(1)] flows_ok_start [OF assms(1,2)]
    by (auto simp: progress_ok_def client_sys_start_def)
qed

lemma client_work_start: "client_sys_start n flows s \<Longrightarrow> client_work n s = 4 * unat flows"
  by (simp add: client_work_def slot_work_def client_sys_start_def busy_init)

section \<open>Each step counts\<close>

lemma slot_work_same:
  assumes "polls.busy n (cl_polls (sys_client t)) = polls.busy n (cl_polls (sys_client s))"
    and "i \<in> polls.busy n (cl_polls (sys_client s))"
    and "\<And>j. j \<noteq> i \<Longrightarrow> sys_workers t ! j = sys_workers s ! j"
  shows "slot_work n t + steps_left (sys_workers s ! i) = slot_work n s + steps_left (sys_workers t ! i)"
proof -
  let ?b = "polls.busy n (cl_polls (sys_client s))"
  have "(\<Sum>j\<in>?b - {i}. steps_left (sys_workers t ! j)) = (\<Sum>j\<in>?b - {i}. steps_left (sys_workers s ! j))"
    using assms(3) by (intro sum.cong) auto
  then show ?thesis
    using sum.remove [of ?b i "\<lambda>j. steps_left (sys_workers t ! j)"]
      sum.remove [of ?b i "\<lambda>j. steps_left (sys_workers s ! j)"] assms(1,2)
    by (simp add: slot_work_def)
qed

lemma progress_ok_facts:
  assumes "progress_ok n concurrent_flows flows entries s"
  shows "sys_ok n concurrent_flows flows s" "flows_ok n entries s"
    "unat (cl_active_flows (sys_client s)) = card (active_slots n s)"
    "length (sys_workers s) = n" "wf_polls n (cl_polls (sys_client s))"
    "i < n \<Longrightarrow> sys_workers s ! i \<noteq> Waiting_worker \<Longrightarrow> i \<in> polls.busy n (cl_polls (sys_client s))"
  using assms by (simp_all add: progress_ok_def sys_ok_def)

lemma start_counts:
  assumes ok: "progress_ok n concurrent_flows flows entries s"
    and l: "brings_forward cdf concurrent_flows n entries (C_event a events fd) s"
    and enough: "unat concurrent_flows \<le> n"
    and ex: "client_event cdf concurrent_flows a events fd (sys_client s) = Returned c"
  shows "progress_ok n concurrent_flows flows entries (s\<lparr>sys_client := c\<rparr>)"
    "Suc (client_work n (s\<lparr>sys_client := c\<rparr>)) = client_work n s"
proof -
  let ?c = "sys_client s" and ?t = "s\<lparr>sys_client := c\<rparr>"
  obtain rows fcts where rows: "holds_rows (cl_time_table ?c) rows fcts" "length rows = entries"
    "card (used_entries rows) \<le> sys_done s + unat (cl_active_flows ?c)"
    using ok by (auto simp: progress_ok_def)
  have exp: "expected cdf n entries (C_event a events fd) s"
    and ev: "events AND EPOLLERR = 0" "events AND EPOLLHUP = 0" "events AND EPOLLOUT \<noteq> 0"
    and less: "cl_active_flows ?c < concurrent_flows" "cl_active_flows ?c < cl_left_flows ?c"
    using l by (simp_all add: brings_forward_def starts_flow_def)
  obtain m where size: "get_flow_size cdf (ea_rand a) = Returned m" using exp by auto
  have fd: "length (ea_stack a) = PAYLOAD_SIZE" "Counted \<notin> set (sys_workers s)"
    "0 < fd" "fd < int (length rows)" "fd < MAX_FLOWS" "ft_fd (rows ! nat fd) = 0"
    using exp ev rows(2) get_entry_row [OF rows(1), of fd] by (auto simp: unused_entry_def)
  note facts = progress_ok_facts [OF ok]
  have idle: "idle_slots (cl_polls ?c) \<noteq> {}" by (rule idle_slot_left [OF facts(1) enough fd(2) less(1)])
  obtain x where x: "holds_rows (cl_time_table c) (rows[nat fd := x]) fcts"
    using start_flow_returns [OF size fd(1) rows(1) fd(3-6) idle ev less(1)] ex by auto
  note effect = client_event_effect [OF ex]
  have active: "cl_active_flows c = cl_active_flows ?c + 1" "cl_left_flows c = cl_left_flows ?c"
    using start_flow_returns [OF size fd(1) rows(1) fd(3-6) idle ev less(1)] ex by auto
  then obtain k i where push: "event_push (cl_polls ?c) (word_of_int fd) k = Returned (cl_polls c, i)"
    using effect by auto
  note slots = event_push_slots [OF facts(5) push]
  have inc: "unat (cl_active_flows c) = Suc (unat (cl_active_flows ?c))"
    unfolding active(1) by (rule unat_increment [OF less(1)])
  have "card (used_entries (rows[nat fd := x])) \<le> Suc (card (used_entries rows))"
    using fd(3,4) by (intro used_entries_update) simp
  moreover have "sys_ok n concurrent_flows flows ?t" by (rule sys_ok_event [OF facts(1) fd(2) ex])
  moreover have "flows_ok n entries ?t"
    using safe_event [OF facts(1,2) exp enough] ex by auto
  ultimately show "progress_ok n concurrent_flows flows entries ?t"
    using ok rows x less(2) active(2) inc
    by (auto simp: progress_ok_def word_less_nat_alt intro!: exI [of _ "rows[nat fd := x]"] exI [of _ fcts])
  have "sys_workers s ! i = Waiting_worker" using facts(6) [of i] slots(2,3) by blast
  then have "slot_work n ?t = slot_work n s + 3" using slots(3,4) by (simp add: slot_work_def)
  then show "Suc (client_work n ?t) = client_work n s"
    using less(2) active(2) inc by (simp add: client_work_def word_less_nat_alt)
qed

lemma take_counts:
  assumes ok: "progress_ok n concurrent_flows flows entries s"
    and ex: "client_exec cdf concurrent_flows (C_take i) s = Returned t"
  shows "progress_ok n concurrent_flows flows entries t" "Suc (client_work n t) = client_work n s"
proof -
  note facts = progress_ok_facts [OF ok]
  obtain e where i: "i < length (sys_workers s)" "sys_workers s ! i = Waiting_worker"
    "event_pop (cl_polls (sys_client s) ! i) = Returned e" "t = s\<lparr>sys_workers := (sys_workers s)[i := Serving e]\<rparr>"
    using ex by (auto simp: run_bind_eq_Returned_iff split: if_splits)
  have "sys_ok n concurrent_flows flows t" "flows_ok n entries t"
    using sys_ok_take [OF facts(1) i(1-3)] safe_take [OF facts(1,2) i(1-3)] by (simp_all add: i(4))
  then show "progress_ok n concurrent_flows flows entries t" using ok by (auto simp: progress_ok_def i(4))
  have "i \<in> polls.busy n (cl_polls (sys_client t))"
    using \<open>sys_ok n concurrent_flows flows t\<close> i(1) facts(4) by (simp add: sys_ok_def i(4))
  then have "slot_work n t + 3 = slot_work n s + 2"
    using slot_work_same [of n t s i] i by simp
  then show "Suc (client_work n t) = client_work n s" by (simp add: client_work_def i(4))
qed

lemma release_counts:
  assumes ok: "progress_ok n concurrent_flows flows entries s"
    and ex: "client_exec cdf concurrent_flows (C_release i) s = Returned t"
  shows "progress_ok n concurrent_flows flows entries t" "Suc (client_work n t) = client_work n s"
proof -
  note facts = progress_ok_facts [OF ok]
  have i: "i < length (sys_workers s)" "sys_workers s ! i = Counted"
    "t = s\<lparr>sys_client := set_idle i (sys_client s), sys_workers := (sys_workers s)[i := Waiting_worker]\<rparr>"
    using ex by (auto split: if_splits)
  have "sys_ok n concurrent_flows flows t" "flows_ok n entries t"
    using sys_ok_release [OF facts(1) i(1,2)] safe_release [OF facts(1,2) i(1,2)] by (simp_all add: i(3))
  then show "progress_ok n concurrent_flows flows entries t"
    using ok by (auto simp: progress_ok_def i(3) set_idle_def)
  have mem: "i \<in> polls.busy n (cl_polls (sys_client s))" using facts(4) facts(6) [of i] i(1,2) by simp
  let ?b = "polls.busy n (cl_polls (sys_client s))"
  have "polls.busy n (cl_polls (sys_client t)) = ?b - {i}"
    using polls.release_makes_idle(3) [OF facts(5) mem] by (simp add: i(3) set_idle_def)
  moreover have "(\<Sum>j\<in>?b - {i}. steps_left (sys_workers t ! j)) = (\<Sum>j\<in>?b - {i}. steps_left (sys_workers s ! j))"
    by (intro sum.cong) (auto simp: i(3))
  ultimately have "Suc (slot_work n t) = slot_work n s"
    using sum.remove [of ?b i "\<lambda>j. steps_left (sys_workers s ! j)"] mem i(2) by (simp add: slot_work_def)
  then show "Suc (client_work n t) = client_work n s" by (simp add: client_work_def i(3) set_idle_def)
qed

text \<open>A flow being served has an entry in use, so that serving it ends well whenever the transfer ends.\<close>

lemma serving_entry:
  assumes ok: "progress_ok n concurrent_flows flows entries s"
    and i: "i < length (sys_workers s)" "sys_workers s ! i = Serving e"
    and rows: "holds_rows (cl_time_table (sys_client s)) rows fcts"
  shows "0 < sint (ev_fd e)" "sint (ev_fd e) < int (length rows)" "ft_fd (rows ! nat (sint (ev_fd e))) \<noteq> 0"
    "i \<in> active_slots n s"
proof -
  note facts = progress_ok_facts [OF ok]
  show mem: "i \<in> active_slots n s" using facts(6) [of i] facts(4) i by (simp add: active_slots_def)
  obtain rows' fcts' where old: "holds_rows (cl_time_table (sys_client s)) rows' fcts'" "length rows' = entries"
    "0 < slot_fd s i \<and> slot_fd s i < int entries \<and> ft_fd (rows' ! nat (slot_fd s i)) \<noteq> 0"
    using flows_ok_rows [OF facts(2)] mem by metis
  have "rows' = rows" using old(1) rows by (auto simp: holds_rows_def dest: map_injective)
  moreover have "slot_fd s i = sint (ev_fd e)"
    using flows_ok_held [OF facts(2), of i e] facts(4) i by (simp add: slot_fd_def)
  ultimately show "0 < sint (ev_fd e)" "sint (ev_fd e) < int (length rows)"
    "ft_fd (rows ! nat (sint (ev_fd e))) \<noteq> 0"
    using old by simp_all
qed

lemma serve_counts:
  assumes ok: "progress_ok n concurrent_flows flows entries s"
    and exp: "expected cdf n entries (C_serve i stack reads ctl now) s"
    and ex: "client_exec cdf concurrent_flows (C_serve i stack reads ctl now) s = Returned t"
  shows "progress_ok n concurrent_flows flows entries t" "Suc (client_work n t) = client_work n s"
proof -
  note facts = progress_ok_facts [OF ok]
  obtain e c rest where i: "i < length (sys_workers s)" "sys_workers s ! i = Serving e"
    and c: "serve_flow stack e reads ctl now (sys_client s) = Returned (c, rest)"
    and t: "t = s\<lparr>sys_client := c, sys_workers := (sys_workers s)[i := Counted], sys_done := sys_done s + 1\<rparr>"
    using ex by (auto simp: run_bind_eq_Returned_iff split: option.splits client_worker.splits)
  obtain rows fcts where rows: "holds_rows (cl_time_table (sys_client s)) rows fcts" "length rows = entries"
    "card (used_entries rows) \<le> sys_done s + unat (cl_active_flows (sys_client s))"
    using ok by (auto simp: progress_ok_def)
  note entry = serving_entry [OF ok i rows(1)]
  obtain k where k: "read_responce stack (sint (ev_flow_size e)) reads = Returned (k, rest)"
    using c by (auto simp: serve_flow_def Let_def run_bind_eq_Returned_iff)
  have nonneg: "0 \<le> sint (ev_fd e)" using entry(1) by simp
  obtain x where x: "holds_rows (cl_time_table c) (rows[nat (sint (ev_fd e)) := x]) fcts"
    using serve_flow_returns [OF k rows(1) refl nonneg entry(2,3), of ctl now] c by (auto split: if_splits)
  have small: "card (used_entries (rows[nat (sint (ev_fd e)) := x])) \<le> card (used_entries rows)"
    using entry(1-3) by (intro used_entries_update) simp_all
  note effect = serve_flow_effect [OF c]
  have "0 < card (active_slots n s)" using entry(4) by (auto simp: card_gt_0_iff)
  then have active: "0 < unat (cl_active_flows (sys_client s))" using facts(3) by simp
  moreover have "unat (cl_active_flows (sys_client s)) \<le> unat (cl_left_flows (sys_client s))"
    using ok by (simp add: progress_ok_def)
  ultimately have pos: "0 < unat (cl_active_flows (sys_client s))" "0 < unat (cl_left_flows (sys_client s))"
    by linarith+
  then have dec: "unat (cl_active_flows c) = unat (cl_active_flows (sys_client s)) - 1"
    "unat (cl_left_flows c) = unat (cl_left_flows (sys_client s)) - 1"
    using effect by (simp_all add: unat_decrement)
  have "sys_ok n concurrent_flows flows t"
    using sys_ok_serve [OF facts(1) i] effect by (simp add: t)
  moreover have "flows_ok n entries t"
    using safe_serve [OF facts(1,2) i exp] c by (simp add: t)
  ultimately show "progress_ok n concurrent_flows flows entries t"
    using ok rows small x dec pos
    by (auto simp: progress_ok_def t intro!: exI [of _ "rows[nat (sint (ev_fd e)) := x]"] exI [of _ fcts])
  have "i \<in> polls.busy n (cl_polls (sys_client s))" using entry(4) by (simp add: active_slots_def)
  then have "slot_work n t + 2 = slot_work n s + 1"
    using slot_work_same [of n t s i] effect i by (simp add: t)
  then show "Suc (client_work n t) = client_work n s"
    using dec pos by (simp add: client_work_def t)
qed

lemma forward_counts:
  assumes "progress_ok n concurrent_flows flows entries s" "unat concurrent_flows \<le> n"
    and "brings_forward cdf concurrent_flows n entries l s" "client_exec cdf concurrent_flows l s = Returned t"
  shows "progress_ok n concurrent_flows flows entries t \<and> Suc (client_work n t) = client_work n s"
proof (cases l)
  case (C_event a events fd)
  with assms(4) obtain c where "client_event cdf concurrent_flows a events fd (sys_client s) = Returned c"
    "t = s\<lparr>sys_client := c\<rparr>" by (auto simp: run_bind_eq_Returned_iff)
  with start_counts [OF assms(1) _ assms(2)] assms(3) C_event show ?thesis by blast
next
  case (C_take i)
  with take_counts [OF assms(1)] assms(4) show ?thesis by blast
next
  case (C_serve i stack reads ctl now)
  with serve_counts [OF assms(1)] assms(3,4) show ?thesis unfolding brings_forward_def by blast
next
  case (C_release i)
  with release_counts [OF assms(1)] assms(4) show ?thesis by blast
qed

lemma flow_runs_count:
  assumes "flow_runs cdf concurrent_flows n entries s0 k s"
    and "progress_ok n concurrent_flows flows entries s0" "unat concurrent_flows \<le> n"
  shows "progress_ok n concurrent_flows flows entries s \<and> client_work n s + k = client_work n s0"
  using assms
proof (induction rule: flow_runs.induct)
  case (more k s l t)
  with forward_counts [OF _ _ more.hyps(2,3)] show ?case by force
qed simp

section \<open>Some thread can go on\<close>

lemma serve_possible:
  assumes ok: "progress_ok n concurrent_flows flows entries s"
    and i: "i < length (sys_workers s)" "sys_workers s ! i = Serving e"
    and reads: "read_responce stack (sint (ev_flow_size e)) reads = Returned r"
  shows "\<exists>t. client_exec cdf concurrent_flows (C_serve i stack reads ctl now) s = Returned t"
proof -
  obtain k rest where r: "r = (k, rest)" by (cases r)
  obtain rows fcts where rows: "holds_rows (cl_time_table (sys_client s)) rows fcts"
    using ok by (auto simp: progress_ok_def)
  note entry = serving_entry [OF ok i rows]
  have "\<exists>c. serve_flow stack e reads ctl now (sys_client s) = Returned (c, rest)"
    using serve_flow_returns [OF reads [unfolded r] rows refl _ entry(2,3), of ctl now] entry(1) by auto
  with i show ?thesis by (auto simp: sys_worker_def)
qed

lemma busy_can_go_on:
  assumes ok: "progress_ok n concurrent_flows flows entries s" and i: "i \<in> polls.busy n (cl_polls (sys_client s))"
  shows "\<exists>l t. brings_forward cdf concurrent_flows n entries l s \<and> client_exec cdf concurrent_flows l s = Returned t"
proof -
  note facts = progress_ok_facts [OF ok]
  have len: "i < length (sys_workers s)" using i facts(4) busy_less by blast
  show ?thesis
  proof (cases "sys_workers s ! i")
    case Waiting_worker
    have "poll_flag (cl_polls (sys_client s) ! i) \<noteq> THREAD_IDLE"
      using i facts(5) by (auto simp: polls.busy_def idle_slots_def wf_polls_def)
    with len Waiting_worker show ?thesis
      by (intro exI [of _ "C_take i"]) (auto simp: brings_forward_def starts_flow_def event_pop_def)
  next
    case (Serving e)
    have "read_responce (replicate MAX_READ_BUFF 0) (sint (ev_flow_size e)) [Read_error (Other_errno 104)]
        = Returned (-1, [])" by (simp add: read_responce_def)
    from serve_possible [OF ok len Serving this] show ?thesis
      by (intro exI [of _ "C_serve i (replicate MAX_READ_BUFF 0) [Read_error (Other_errno 104)] 0 \<lparr>tv_sec = 0, tv_usec = 0\<rparr>"])
        (auto simp: brings_forward_def starts_flow_def total_arrived_def INT_MAX_def)
  next
    case Counted
    with len show ?thesis
      by (intro exI [of _ "C_release i"]) (simp add: brings_forward_def starts_flow_def)
  qed
qed

lemma idle_can_go_on:
  assumes ok: "progress_ok n concurrent_flows flows entries s" and idle: "polls.busy n (cl_polls (sys_client s)) = {}"
    and left: "cl_left_flows (sys_client s) \<noteq> 0" and enough: "0 < concurrent_flows" "unat concurrent_flows \<le> n"
    and table: "unat flows < entries" "int entries \<le> MAX_FLOWS" and size: "get_flow_size cdf r = Returned k"
  shows "\<exists>a fd t. brings_forward cdf concurrent_flows n entries (C_event a EPOLLOUT fd) s
    \<and> client_exec cdf concurrent_flows (C_event a EPOLLOUT fd) s = Returned t"
proof -
  note facts = progress_ok_facts [OF ok]
  have active: "active_slots n s = {}" using idle by (simp add: active_slots_def)
  then have zero: "cl_active_flows (sys_client s) = 0" using facts(3) by (simp add: unat_eq_zero)
  have "Counted \<notin> set (sys_workers s)"
  proof
    assume "Counted \<in> set (sys_workers s)"
    then obtain i where "i < n" "sys_workers s ! i = Counted" using facts(4) by (auto simp: in_set_conv_nth)
    with facts(6) [of i] idle show False by simp
  qed
  obtain rows fcts where rows: "holds_rows (cl_time_table (sys_client s)) rows fcts" "length rows = entries"
    "card (used_entries rows) \<le> sys_done s"
    using ok zero by (auto simp: progress_ok_def)
  have "0 < unat (cl_left_flows (sys_client s))" using left by (simp add: unat_gt_0)
  then have "sys_done s < unat flows" using ok by (simp add: progress_ok_def)
  then obtain m where m: "0 < m" "m < length rows" "ft_fd (rows ! m) = 0"
    using unused_entry_exists [of rows] rows(2,3) table(1) by auto
  let ?a = "sample_answers\<lparr>ea_rand := r, ea_stack := replicate PAYLOAD_SIZE 0\<rparr>"
  let ?l = "C_event ?a EPOLLOUT (int m)"
  have exp: "expected cdf n entries ?l s"
    using m rows(2) table(2) size active \<open>Counted \<notin> set (sys_workers s)\<close> get_entry_row [OF rows(1), of "int m"]
    by (simp add: unused_entry_def)
  have "0 < cl_left_flows (sys_client s)" using left by (simp add: word_neq_0_conv)
  then have "brings_forward cdf concurrent_flows n entries ?l s"
    using exp enough(1) zero event_bits by (simp add: brings_forward_def starts_flow_def)
  moreover have "\<exists>t. client_exec cdf concurrent_flows ?l s = Returned t"
    using safe_event [OF facts(1,2) exp enough(2)] by auto
  ultimately show ?thesis by blast
qed

lemma client_work_0:
  assumes "progress_ok n concurrent_flows flows entries s"
  shows "client_work n s = 0 \<longleftrightarrow> cl_left_flows (sys_client s) = 0 \<and> polls.busy n (cl_polls (sys_client s)) = {}"
proof -
  have "steps_left w \<noteq> 0" for w by (cases w) simp_all
  then have "slot_work n s = 0 \<longleftrightarrow> polls.busy n (cl_polls (sys_client s)) = {}"
    unfolding slot_work_def by (simp add: sum_eq_0_iff del: neq0_conv)
  moreover have "unat (cl_active_flows (sys_client s)) = 0" if "polls.busy n (cl_polls (sys_client s)) = {}"
    using progress_ok_facts(3) [OF assms] that by (simp add: active_slots_def)
  moreover have "unat (cl_active_flows (sys_client s)) \<le> unat (cl_left_flows (sys_client s))"
    using assms by (simp add: progress_ok_def)
  ultimately show ?thesis by (auto simp: client_work_def unat_eq_zero)
qed

text \<open>
  Let the table have an unused entry for each of the connections, and a thread for each concurrent
  flow, of which there is at least one, and let a size be drawn when asked for.  While the system behaves
  as expected, every flow is brought forward by exactly four steps, so that at most four times the
  number of flows can be made; a worker whose transfer ends, in whatever way, can go on; and
  when no step can be made all flows are done, \<open>left_flows\<close> is 0, all slots are idle, and the
  loop of the epoll thread ends.  So no interleaving ends in a deadlock or goes on for ever.
\<close>

theorem client_finishes:
  assumes "client_sys_start n flows s0" "holds_rows (cl_time_table (sys_client s0)) rows fcts"
    and "\<forall>x\<in>set rows. ft_fd x = 0" "unat flows < length rows" "int (length rows) \<le> MAX_FLOWS"
    and "0 < concurrent_flows" "unat concurrent_flows \<le> n" "get_flow_size cdf r = Returned size'"
    and "flow_runs cdf concurrent_flows n (length rows) s0 k s"
  shows "client_work n s + k = 4 * unat flows
    \<and> (\<forall>i e stack reads ctl now x. sys_worker s i = Some (Serving e)
         \<and> read_responce stack (sint (ev_flow_size e)) reads = Returned x
         \<longrightarrow> (\<exists>t. client_exec cdf concurrent_flows (C_serve i stack reads ctl now) s = Returned t))
    \<and> ((\<nexists>l t. brings_forward cdf concurrent_flows n (length rows) l s
          \<and> client_exec cdf concurrent_flows l s = Returned t)
       \<longrightarrow> k = 4 * unat flows \<and> sys_done s = unat flows \<and> cl_left_flows (sys_client s) = 0
         \<and> card (idle_slots (cl_polls (sys_client s))) = n
         \<and> client_loop_head flows_num (sys_client s) = None)"
proof (intro conjI allI impI)
  let ?entries = "length rows"
  have "progress_ok n concurrent_flows flows ?entries s0" by (rule progress_ok_start [OF assms(1-3)])
  then have count: "progress_ok n concurrent_flows flows ?entries s" "client_work n s + k = 4 * unat flows"
    using flow_runs_count [OF assms(9) _ assms(7)] client_work_start [OF assms(1)] by auto
  then show "client_work n s + k = 4 * unat flows" by blast
  show "\<exists>t. client_exec cdf concurrent_flows (C_serve i stack reads ctl now) s = Returned t"
    if "sys_worker s i = Some (Serving e) \<and> read_responce stack (sint (ev_flow_size e)) reads = Returned x"
    for i e stack reads ctl now x
    using serve_possible [OF count(1)] that by (simp del: client_exec.simps)
  assume "\<nexists>l t. brings_forward cdf concurrent_flows n ?entries l s \<and> client_exec cdf concurrent_flows l s = Returned t"
  then have none: "polls.busy n (cl_polls (sys_client s)) = {}" "cl_left_flows (sys_client s) = 0"
    using busy_can_go_on [OF count(1)] idle_can_go_on [OF count(1) _ _ assms(6,7,4,5,8)] by blast+
  then have "client_work n s = 0" by (simp add: client_work_0 [OF count(1)])
  with count none show "k = 4 * unat flows" "sys_done s = unat flows" "cl_left_flows (sys_client s) = 0"
    "client_loop_head flows_num (sys_client s) = None"
    by (simp_all add: progress_ok_def client_loop_head_def)
  show "card (idle_slots (cl_polls (sys_client s))) = n"
    using polls.card_busy_idle [OF progress_ok_facts(5) [OF count(1)]] none(1) by simp
qed

lemma sample_rows_unused: "length sample_rows = 6" "\<forall>x\<in>set sample_rows. ft_fd x = 0"
  by (simp_all add: sample_rows_def zero_time_def)

lemma sample_table: "holds_rows (cl_time_table (sys_client sample_sys)) sample_rows (replicate THRES_NUM (replicate 6 0))"
  using sample_client_facts(3) by (simp add: sample_sys_def)

lemma sample_forward: "brings_forward (Some conf_table) 1 1 6 (C_event sample_answers EPOLLOUT 5) sample_sys"
proof -
  have "unused_entry (sys_client sample_sys) 5"
    using get_entry_row [OF sample_table, of 5] sample_client_facts(4)
    by (simp add: unused_entry_def sample_rows_unused(1))
  then show ?thesis
    using sample_client_facts(1,2) busy_init [of 1] event_bits
    by (simp add: brings_forward_def starts_flow_def MAX_FLOWS_def active_slots_def sample_sys_def
        sample_client_def MAX_THREADS_def)
qed

theorem client_finishes_witness:
  "\<exists>s. flow_runs (Some conf_table) 1 1 6 sample_sys 1 s \<and> client_work 1 s = 7"
proof -
  obtain c where "client_exec (Some conf_table) 1 (C_event sample_answers EPOLLOUT 5) sample_sys
      = Returned (sample_sys\<lparr>sys_client := c\<rparr>)"
    using started_client by (auto simp: sample_sys_def)
  with sample_forward have run: "flow_runs (Some conf_table) 1 1 6 sample_sys 1 (sample_sys\<lparr>sys_client := c\<rparr>)"
    using flow_runs.more [OF flow_runs.none] by fastforce
  have "client_work 1 (sample_sys\<lparr>sys_client := c\<rparr>) + 1 = 4 * unat (2 :: u32)"
    by (rule client_finishes [OF sample_sys_start sample_table sample_rows_unused(2) _ _ _ _ sample_client_facts(1),
      unfolded sample_rows_unused(1), OF _ _ _ _ run, THEN conjunct1]) (simp_all add: MAX_FLOWS_def)
  with run show ?thesis by auto
qed

end
