(* ===== verification/FG_Pool_Steps.thy ===== *)
theory FG_Pool_Steps
  imports FG_Thread_Poll
begin

text \<open>
  The interleavings of \<open>event_push\<close>, called by the epoll thread, with \<open>event_pop\<close> and the resetting
  of the flag, called by the worker threads (\<open>thread_poll.c\<close>, and the loops of \<open>request_thread\<close> in
  \<open>client.c\<close> and \<open>responce_thread\<close> in \<open>server.c\<close>).

  A step is what one thread does between two points where others can run: a critical section of a
  slot's mutex, one call of \<open>pthread_cond_signal\<close>, or one access of the flag outside the mutex.
  \<open>pthread_cond_wait\<close> gives the mutex up; a signal wakes a thread that waits and is lost otherwise.
  The logs \<open>pool_pushed\<close> and \<open>pool_popped\<close> record what was stored into and taken from each slot.
\<close>

section \<open>States and steps\<close>

datatype pusher =
    Push_ready
  | Push_chosen nat event_info
  | Push_waiting nat event_info
  | Push_woken nat event_info
  | Push_signal nat
  | Push_exited

datatype worker =
    Pop_start
  | Pop_waiting
  | Pop_woken
  | Pop_unlocked event_info
  | Working event_info

record pool =
  pool_polls :: "events_poll list"
  pool_pusher :: pusher
  pool_workers :: "worker list"
  pool_pushed :: "(nat \<times> event_info) list"
  pool_popped :: "(nat \<times> event_info) list"

definition init_pool :: "nat \<Rightarrow> pool" where
  "init_pool n =
     \<lparr>pool_polls = replicate n (init_events_poll THREAD_IDLE)
        @ replicate (MAX_THREADS - n) (init_events_poll THREAD_INVALID),
      pool_pusher = Push_ready, pool_workers = replicate n Pop_start,
      pool_pushed = [], pool_popped = []\<rparr>"

text \<open>
  The steps.  \<open>Choose e\<close>: the epoll thread calls \<open>event_push\<close> with \<open>e\<close> and looks for an idle slot.
  \<open>Store\<close>: its critical section.  \<open>Signal\<close>: it signals \<open>busy\<close>.  \<open>Lock i\<close>: worker \<open>i\<close> enters
  \<open>event_pop\<close> up to the wait or the unlock.  \<open>Resume i\<close>: it comes back from the wait.
  \<open>Signal_idle i\<close>: it signals \<open>idle\<close>.  \<open>Finish i\<close>: it sets its flag to \<open>THREAD_IDLE\<close> after serving the event.
  \<open>Spurious i\<close>: its wait ends without a signal.
\<close>

datatype pool_label =
    Choose event_info
  | Store
  | Signal
  | Lock nat
  | Resume nat
  | Signal_idle nat
  | Finish nat
  | Spurious nat

definition do_store :: "nat \<Rightarrow> event_info \<Rightarrow> pool \<Rightarrow> pool" where
  "do_store i e s =
     s\<lparr>pool_polls := (pool_polls s)[i := store_event (ev_fd e) (ev_flow_size e) (pool_polls s ! i)],
       pool_pusher := Push_signal i,
       pool_pushed := pool_pushed s @ [(i, e)]\<rparr>"

definition do_pop :: "nat \<Rightarrow> pool \<Rightarrow> pool" where
  "do_pop i s =
     (let e = poll_event (pool_polls s ! i) in
      s\<lparr>pool_workers := (pool_workers s)[i := Pop_unlocked e],
        pool_popped := pool_popped s @ [(i, e)]\<rparr>)"

definition worker_at :: "pool \<Rightarrow> nat \<Rightarrow> worker option" where
  "worker_at s i = (if i < length (pool_workers s) then Some (pool_workers s ! i) else None)"

fun pool_exec :: "pool_label \<Rightarrow> pool \<Rightarrow> pool option" where
  "pool_exec (Choose e) s =
     (if pool_pusher s = Push_ready then
        let index = get_valid_thread (pool_polls s) in
        Some (s\<lparr>pool_pusher := (if index < 0 then Push_exited else Push_chosen (nat index) e)\<rparr>)
      else None)"
| "pool_exec Store s =
     (case pool_pusher s of
        Push_chosen i e \<Rightarrow>
          if poll_flag (pool_polls s ! i) = THREAD_BUSY
          then Some (s\<lparr>pool_pusher := Push_waiting i e\<rparr>) else Some (do_store i e s)
      | Push_woken i e \<Rightarrow> Some (do_store i e s)
      | _ \<Rightarrow> None)"
| "pool_exec Signal s =
     (case pool_pusher s of
        Push_signal i \<Rightarrow>
          Some (s\<lparr>pool_pusher := Push_ready,
                  pool_workers := (if worker_at s i = Some Pop_waiting
                    then (pool_workers s)[i := Pop_woken] else pool_workers s)\<rparr>)
      | _ \<Rightarrow> None)"
| "pool_exec (Lock i) s =
     (if worker_at s i = Some Pop_start then
        if poll_flag (pool_polls s ! i) = THREAD_IDLE
        then Some (s\<lparr>pool_workers := (pool_workers s)[i := Pop_waiting]\<rparr>)
        else Some (do_pop i s)
      else None)"
| "pool_exec (Resume i) s =
     (if worker_at s i = Some Pop_woken then Some (do_pop i s) else None)"
| "pool_exec (Signal_idle i) s =
     (case worker_at s i of
        Some (Pop_unlocked e) \<Rightarrow>
          Some (s\<lparr>pool_workers := (pool_workers s)[i := Working e],
                  pool_pusher := (case pool_pusher s of
                      Push_waiting j e' \<Rightarrow> if j = i then Push_woken j e' else Push_waiting j e'
                    | p \<Rightarrow> p)\<rparr>)
      | _ \<Rightarrow> None)"
| "pool_exec (Finish i) s =
     (case worker_at s i of
        Some (Working e) \<Rightarrow>
          Some (s\<lparr>pool_workers := (pool_workers s)[i := Pop_start],
                  pool_polls := release_slot (pool_polls s) i\<rparr>)
      | _ \<Rightarrow> None)"
| "pool_exec (Spurious i) s =
     (if worker_at s i = Some Pop_waiting
      then Some (s\<lparr>pool_workers := (pool_workers s)[i := Pop_woken]\<rparr>) else None)"

text \<open>
  The states reachable with \<open>n\<close> workers under a discipline \<open>ok\<close>, which says which step may
  be taken in which state.
\<close>

inductive pool_reach :: "(pool_label \<Rightarrow> pool \<Rightarrow> bool) \<Rightarrow> nat \<Rightarrow> pool \<Rightarrow> bool"
  for ok n where
  init: "pool_reach ok n (init_pool n)"
| step: "pool_reach ok n s \<Longrightarrow> ok l s \<Longrightarrow> pool_exec l s = Some t \<Longrightarrow> pool_reach ok n t"

definition any_schedule :: "pool_label \<Rightarrow> pool \<Rightarrow> bool" where
  "any_schedule l s = True"

definition no_spurious :: "pool_label \<Rightarrow> pool \<Rightarrow> bool" where
  "no_spurious l s = (case l of Spurious i \<Rightarrow> False | _ \<Rightarrow> True)"

text \<open>
  Prompt schedules: no wait ends without a signal, and between the unlocking of the mutex in
  \<open>event_push\<close> and the signal that follows it the worker of the slot does not start another wait.
  Workers may do anything else in between, for example serve the event the signal is about.
\<close>

definition prompt :: "pool_label \<Rightarrow> pool \<Rightarrow> bool" where
  "prompt l s =
     (no_spurious l s \<and> (case pool_pusher s of
        Push_signal i \<Rightarrow> \<not> (l = Lock i \<and> poll_flag (pool_polls s ! i) = THREAD_IDLE)
      | _ \<Rightarrow> True))"

lemma pool_reach_mono:
  assumes "pool_reach ok n s" "\<And>l s. ok l s \<Longrightarrow> ok' l s"
  shows "pool_reach ok' n s"
  using assms(1)
  by (induction) (auto intro: pool_reach.intros assms(2))

text \<open>A run of labels in which every step obeys the discipline.\<close>

abbreviation pool_run :: "(pool_label \<Rightarrow> pool \<Rightarrow> bool) \<Rightarrow> pool_label list \<Rightarrow> pool \<Rightarrow> pool option" where
  "pool_run ok \<equiv> run_labels ok pool_exec"

interpretation pools: step_system "\<lambda>s. s = init_pool n" ok pool_exec "pool_reach ok n"
  by unfold_locales (auto intro: pool_reach.intros, erule pool_reach.induct, blast+)

lemmas pool_run_exists = pools.run_exists [OF _ refl]

section \<open>Every schedule\<close>

text \<open>
  The slot the epoll thread has chosen stays idle until it stores the event, because only the
  epoll thread sets a flag to busy.  So \<open>event_push\<close> never waits for \<open>idle\<close>.
\<close>

definition pusher_ok :: "nat \<Rightarrow> pool \<Rightarrow> bool" where
  "pusher_ok n s = (case pool_pusher s of
      Push_chosen i e \<Rightarrow> i < n \<and> poll_flag (pool_polls s ! i) = THREAD_IDLE
    | Push_signal i \<Rightarrow> i < n
    | Push_waiting i e \<Rightarrow> False
    | Push_woken i e \<Rightarrow> False
    | _ \<Rightarrow> True)"

definition pool_ok :: "nat \<Rightarrow> pool \<Rightarrow> bool" where
  "pool_ok n s \<longleftrightarrow> wf_polls n (pool_polls s) \<and> length (pool_workers s) = n \<and> pusher_ok n s"

lemma wf_polls_store:
  "wf_polls n ps \<Longrightarrow> i < n \<Longrightarrow> wf_polls n (ps[i := store_event fd size' p])"
  by (auto simp: wf_polls_def nth_list_update store_event_def)

lemma wf_polls_release: "wf_polls n ps \<Longrightarrow> i < n \<Longrightarrow> wf_polls n (release_slot ps i)"
  by (auto simp: wf_polls_def nth_list_update release_slot_def)

lemma release_slot_flag:
  "poll_flag (release_slot ps i ! j) =
     (if j = i \<and> i < length ps then THREAD_IDLE else poll_flag (ps ! j))"
  by (cases "i < length ps") (simp_all add: release_slot_def nth_list_update list_update_beyond not_less)

lemma release_slot_event: "poll_event (release_slot ps i ! j) = poll_event (ps ! j)"
  by (cases "i < length ps") (simp_all add: release_slot_def nth_list_update list_update_beyond not_less)

lemmas release_slot_nth = release_slot_flag release_slot_event

lemma store_event_fields [simp]:
  "poll_flag (store_event fd size' p) = THREAD_BUSY"
  "poll_event (store_event fd size' p) = \<lparr>ev_fd = fd, ev_flow_size = size'\<rparr>"
  by (simp_all add: store_event_def)

lemma event_info_eta [simp]: "\<lparr>ev_fd = ev_fd e, ev_flow_size = ev_flow_size e\<rparr> = e"
  by (cases e) simp

lemma store_slot_nth:
  "i < length ps \<Longrightarrow> poll_flag (ps[i := store_event fd size' p] ! j) =
     (if j = i then THREAD_BUSY else poll_flag (ps ! j))"
  "i < length ps \<Longrightarrow> poll_event (ps[i := store_event fd size' p] ! j) =
     (if j = i then \<lparr>ev_fd = fd, ev_flow_size = size'\<rparr> else poll_event (ps ! j))"
  by (simp_all add: nth_list_update store_event_def)

lemma worker_at_Some [simp]:
  "worker_at s i = Some w \<longleftrightarrow> i < length (pool_workers s) \<and> pool_workers s ! i = w"
  by (simp add: worker_at_def)

lemma flags_distinct [simp]: "THREAD_BUSY \<noteq> THREAD_IDLE" "THREAD_IDLE \<noteq> THREAD_BUSY"
  by (simp_all add: flag_defs)

lemma pool_ok_init: "n \<le> MAX_THREADS \<Longrightarrow> pool_ok n (init_pool n)"
  by (simp add: pool_ok_def pusher_ok_def init_pool_def wf_polls_init)

lemma pool_ok_step:
  assumes "pool_ok n s" "pool_exec l s = Some t"
  shows "pool_ok n t"
proof (cases l)
  case (Choose e)
  have "pusher_ok n (s\<lparr>pool_pusher := Push_chosen (nat index) e\<rparr>)"
    if "index = get_valid_thread (pool_polls s)" "\<not> index < 0" for index
  proof -
    have "nat index \<in> idle_slots (pool_polls s)"
      using that by (intro get_valid_thread_eq_int) simp
    then show ?thesis
      using assms(1) wf_polls_idle [of n "pool_polls s"]
      by (auto simp: pusher_ok_def pool_ok_def idle_slots_def)
  qed
  with assms Choose show ?thesis
    by (auto simp: pool_ok_def Let_def pusher_ok_def split: if_splits)
next
  case Store
  with assms show ?thesis
    by (auto simp: pool_ok_def pusher_ok_def do_store_def wf_polls_store split: pusher.splits)
next
  case (Finish i)
  then obtain e where "i < length (pool_workers s)"
    "t = s\<lparr>pool_workers := (pool_workers s)[i := Pop_start],
           pool_polls := release_slot (pool_polls s) i\<rparr>"
    using assms(2) by (auto split: option.splits worker.splits)
  with assms(1) show ?thesis
    by (simp add: pool_ok_def pusher_ok_def wf_polls_release release_slot_nth split: pusher.splits)
qed (use assms in \<open>auto simp: pool_ok_def pusher_ok_def do_pop_def Let_def
      split: pusher.splits option.splits worker.splits if_splits\<close>)

interpretation pools_ok: step_invariant "\<lambda>s. s = init_pool n" ok pool_exec "pool_reach ok n"
  "\<lambda>s. n \<le> MAX_THREADS \<longrightarrow> pool_ok n s"
  by unfold_locales (auto intro: pool_ok_init pool_ok_step)

lemma pool_ok_reach: "pool_reach ok n s \<Longrightarrow> n \<le> MAX_THREADS \<Longrightarrow> pool_ok n s"
  using pools_ok.inv_reach by blast

text \<open>What the steps of a worker do to the state.\<close>

lemma Signal_idle_effect:
  assumes "pool_ok n s" "pool_exec (Signal_idle i) s = Some t"
  obtains e where "i < length (pool_workers s)" "pool_workers s ! i = Pop_unlocked e"
    "t = s\<lparr>pool_workers := (pool_workers s)[i := Working e]\<rparr>"
  using assms
  by (cases s) (auto simp: pool_ok_def pusher_ok_def split: option.splits worker.splits pusher.splits)

lemma Signal_effect:
  assumes "pool_exec Signal s = Some t"
  obtains (woken) i where "pool_pusher s = Push_signal i" "i < length (pool_workers s)"
      "pool_workers s ! i = Pop_waiting"
      "t = s\<lparr>pool_pusher := Push_ready, pool_workers := (pool_workers s)[i := Pop_woken]\<rparr>"
    | (lost) i where "pool_pusher s = Push_signal i"
      "\<not> (i < length (pool_workers s) \<and> pool_workers s ! i = Pop_waiting)"
      "t = s\<lparr>pool_pusher := Push_ready\<rparr>"
  using assms by (cases s) (auto split: pusher.splits if_splits)

lemma Lock_effect:
  assumes "pool_exec (Lock i) s = Some t"
  obtains (wait) "i < length (pool_workers s)" "pool_workers s ! i = Pop_start"
      "poll_flag (pool_polls s ! i) = THREAD_IDLE"
      "t = s\<lparr>pool_workers := (pool_workers s)[i := Pop_waiting]\<rparr>"
    | (pop) "i < length (pool_workers s)" "pool_workers s ! i = Pop_start"
      "poll_flag (pool_polls s ! i) \<noteq> THREAD_IDLE" "t = do_pop i s"
  using assms by (auto split: if_splits)

lemma Finish_effect:
  assumes "pool_exec (Finish i) s = Some t"
  obtains e where "i < length (pool_workers s)" "pool_workers s ! i = Working e"
    "t = s\<lparr>pool_workers := (pool_workers s)[i := Pop_start],
           pool_polls := release_slot (pool_polls s) i\<rparr>"
  using assms by (auto split: option.splits worker.splits)

section \<open>Only pushed events are served\<close>

text \<open>
  A slot holds a pushed event whenever it is busy, its worker has been woken, or its signal is
  still to come.
\<close>

definition holds_pushed :: "nat \<Rightarrow> pool \<Rightarrow> bool" where
  "holds_pushed n s \<longleftrightarrow> set (pool_popped s) \<subseteq> set (pool_pushed s)
     \<and> (\<forall>i<n. poll_flag (pool_polls s ! i) \<noteq> THREAD_IDLE \<or> pool_workers s ! i = Pop_woken
          \<or> pool_pusher s = Push_signal i
          \<longrightarrow> (i, poll_event (pool_polls s ! i)) \<in> set (pool_pushed s))"

lemma holds_pushed_step:
  assumes "pool_ok n s" "holds_pushed n s" "pool_exec l s = Some t" "no_spurious l s"
  shows "holds_pushed n t"
proof (cases l)
  case Store
  then obtain i e where "pool_pusher s = Push_chosen i e" "i < n" "t = do_store i e s"
    using assms(1,3) by (auto simp: pool_ok_def pusher_ok_def split: pusher.splits)
  moreover have "length (pool_polls s) = MAX_THREADS" "n \<le> MAX_THREADS"
    using assms(1) by (simp_all add: pool_ok_def wf_polls_def)
  ultimately show ?thesis
    using assms(2) by (auto simp: holds_pushed_def do_store_def store_slot_nth)
next
  case (Finish i)
  with assms(3) have "pool_exec (Finish i) s = Some t" by simp
  then show ?thesis
    using assms(2) by (elim Finish_effect)
      (auto simp: holds_pushed_def release_slot_nth nth_list_update split: if_splits)
next
  case (Lock i)
  with assms show ?thesis
    by (auto simp: holds_pushed_def do_pop_def Let_def pool_ok_def nth_list_update split: if_splits)
next
  case (Resume i)
  with assms show ?thesis
    by (auto simp: holds_pushed_def do_pop_def Let_def pool_ok_def nth_list_update split: if_splits)
next
  case (Spurious i)
  with assms show ?thesis by (simp add: no_spurious_def)
next
  case Signal
  with assms show ?thesis
    by (auto simp: holds_pushed_def pool_ok_def nth_list_update split: pusher.splits if_splits)
next
  case (Choose e)
  with assms show ?thesis
    by (auto simp: holds_pushed_def Let_def split: if_splits)
next
  case (Signal_idle i)
  with assms(3) have "pool_exec (Signal_idle i) s = Some t" by simp
  with assms(1) show ?thesis
    using assms(2) by (elim Signal_idle_effect)
      (auto simp: holds_pushed_def pool_ok_def nth_list_update split: if_splits)
qed

lemma holds_pushed_reach:
  "pool_reach no_spurious n s \<Longrightarrow> n \<le> MAX_THREADS \<Longrightarrow> holds_pushed n s"
proof (induction rule: pool_reach.induct)
  case init
  then show ?case
    by (auto simp: holds_pushed_def init_pool_def init_events_poll_def nth_append)
next
  case (step s l t)
  then show ?case
    using holds_pushed_step pool_ok_reach by blast
qed

text \<open>
  In every interleaving (without waits that end by themselves) \<open>event_push\<close> never waits for
  a worker, and every event a worker takes from its slot has been pushed into that slot.
\<close>

theorem only_pushed_events_served:
  assumes "pool_reach no_spurious n s" "n \<le> MAX_THREADS"
  shows "set (pool_popped s) \<subseteq> set (pool_pushed s)
    \<and> pool_pusher s \<noteq> Push_waiting i e \<and> wf_polls n (pool_polls s)"
proof -
  have "pool_ok n s" using pool_ok_reach [OF assms] .
  moreover have "holds_pushed n s" using holds_pushed_reach [OF assms] .
  ultimately show ?thesis
    by (auto simp: holds_pushed_def pool_ok_def pusher_ok_def)
qed

section \<open>Prompt signals: every event is served once\<close>

definition slot_log :: "nat \<Rightarrow> (nat \<times> event_info) list \<Rightarrow> event_info list" where
  "slot_log i log = map snd (filter (\<lambda>p. fst p = i) log)"

lemma slot_log_simps [simp]:
  "slot_log i [] = []"
  "slot_log i (log @ [(j, e)]) = (if i = j then slot_log i log @ [e] else slot_log i log)"
  by (simp_all add: slot_log_def)

text \<open>The event of slot \<open>i\<close> its worker has still to take, if any.\<close>

definition pending :: "nat \<Rightarrow> pool \<Rightarrow> event_info list" where
  "pending i s =
     (if poll_flag (pool_polls s ! i) = THREAD_BUSY
         \<and> pool_workers s ! i \<in> {Pop_start, Pop_waiting, Pop_woken}
      then [poll_event (pool_polls s ! i)] else [])"

definition slot_ok :: "nat \<Rightarrow> pool \<Rightarrow> bool" where
  "slot_ok i s \<longleftrightarrow>
     slot_log i (pool_pushed s) = slot_log i (pool_popped s) @ pending i s
   \<and> (poll_flag (pool_polls s ! i) = THREAD_IDLE \<longrightarrow>
        pool_workers s ! i \<in> {Pop_start, Pop_waiting}
      \<and> (pool_workers s ! i = Pop_waiting \<longrightarrow> pool_pusher s \<noteq> Push_signal i))
   \<and> (poll_flag (pool_polls s ! i) = THREAD_BUSY \<and> pool_workers s ! i = Pop_waiting \<longrightarrow>
        pool_pusher s = Push_signal i)
   \<and> (\<forall>e. pool_workers s ! i \<in> {Pop_unlocked e, Working e} \<longrightarrow> e = poll_event (pool_polls s ! i))"

lemma slot_ok_step:
  assumes ok: "pool_ok n s" and i: "i < n" and slot: "slot_ok i s"
    and ex: "pool_exec l s = Some t" and pr: "prompt l s"
  shows "slot_ok i t"
proof -
  have len: "length (pool_polls s) = MAX_THREADS" "n \<le> MAX_THREADS" "length (pool_workers s) = n"
    using ok by (simp_all add: pool_ok_def wf_polls_def)
  have flag: "poll_flag (pool_polls s ! i) = THREAD_IDLE \<or> poll_flag (pool_polls s ! i) = THREAD_BUSY"
    using ok i by (simp add: pool_ok_def wf_polls_def)
  show ?thesis
  proof (cases l)
    case Store
    then obtain j e where j: "pool_pusher s = Push_chosen j e" "j < n" "t = do_store j e s"
      "poll_flag (pool_polls s ! j) = THREAD_IDLE"
      using ok ex by (auto simp: pool_ok_def pusher_ok_def split: pusher.splits)
    with slot len i show ?thesis
      by (auto simp: slot_ok_def do_store_def store_slot_nth pending_def)
  next
    case (Finish j)
    with ex have "pool_exec (Finish j) s = Some t" by simp
    then obtain e where j: "j < length (pool_workers s)" "pool_workers s ! j = Working e"
      "t = s\<lparr>pool_workers := (pool_workers s)[j := Pop_start],
             pool_polls := release_slot (pool_polls s) j\<rparr>"
      by (rule Finish_effect)
    with slot len i show ?thesis
      by (auto simp: slot_ok_def release_slot_nth pending_def nth_list_update)
  next
    case (Lock j)
    with ex have "pool_exec (Lock j) s = Some t" by simp
    then show ?thesis
    proof (cases rule: Lock_effect)
      case wait
      then have "pool_pusher s \<noteq> Push_signal j" using pr Lock by (auto simp: prompt_def)
      with wait show ?thesis
        using slot len i by (cases "j = i") (auto simp: slot_ok_def pending_def)
    next
      case pop
      then show ?thesis
        using slot len i flag
        by (cases "j = i") (auto simp: slot_ok_def pending_def do_pop_def Let_def)
    qed
  next
    case (Resume j)
    then have "j < length (pool_workers s)" "pool_workers s ! j = Pop_woken" "t = do_pop j s"
      using ex by (auto split: if_splits)
    then show ?thesis
      using slot len i flag
      by (cases "j = i") (auto simp: slot_ok_def pending_def do_pop_def Let_def)
  next
    case (Spurious j)
    with pr show ?thesis by (simp add: prompt_def no_spurious_def)
  next
    case Signal
    with ex have "pool_exec Signal s = Some t" by simp
    then show ?thesis
    proof (cases rule: Signal_effect)
      case (woken j)
      then show ?thesis
        using slot len i flag by (cases "j = i") (auto simp: slot_ok_def pending_def)
    next
      case (lost j)
      then show ?thesis
        using slot len i flag by (cases "j = i") (auto simp: slot_ok_def pending_def)
    qed
  next
    case (Choose e)
    then obtain p where "t = s\<lparr>pool_pusher := p\<rparr>" "\<forall>i. p \<noteq> Push_signal i"
      "pool_pusher s = Push_ready"
      using ex by (auto simp: Let_def split: if_splits)
    moreover from this have "pending i t = pending i s" by (simp add: pending_def)
    ultimately show ?thesis using slot by (simp add: slot_ok_def)
  next
    case (Signal_idle j)
    with ex have "pool_exec (Signal_idle j) s = Some t" by simp
    with ok show ?thesis
    proof (rule Signal_idle_effect)
      fix e
      assume "j < length (pool_workers s)" "pool_workers s ! j = Pop_unlocked e"
        "t = s\<lparr>pool_workers := (pool_workers s)[j := Working e]\<rparr>"
      then show ?thesis
        using slot len i by (cases "j = i") (auto simp: slot_ok_def pending_def)
    qed
  qed
qed

lemma slot_ok_reach:
  "pool_reach prompt n s \<Longrightarrow> n \<le> MAX_THREADS \<Longrightarrow> i < n \<Longrightarrow> slot_ok i s"
proof (induction rule: pool_reach.induct)
  case init
  then show ?case
    by (simp add: slot_ok_def init_pool_def init_events_poll_def nth_append pending_def)
next
  case (step s l t)
  then show ?case
    using slot_ok_step pool_ok_reach by blast
qed

text \<open>
  C13.  When signals are prompt, the events a worker takes are the events pushed into its slot, in
  order and each once, except for at most one it has still to take; and no worker sleeps while its
  slot holds an event it has still to take, unless the signal is about to come.
\<close>

theorem prompt_events_served_once:
  assumes "pool_reach prompt n s" "n \<le> MAX_THREADS" "i < n"
  shows "slot_log i (pool_pushed s) = slot_log i (pool_popped s) @ pending i s
    \<and> (pending i s = [] \<or> pool_workers s ! i \<noteq> Pop_waiting \<or> pool_pusher s = Push_signal i)
    \<and> (poll_flag (pool_polls s ! i) = THREAD_IDLE \<longrightarrow>
         slot_log i (pool_pushed s) = slot_log i (pool_popped s))"
proof -
  have "slot_ok i s" using slot_ok_reach [OF assms] .
  moreover from this have "poll_flag (pool_polls s ! i) = THREAD_IDLE \<longrightarrow>
      slot_log i (pool_pushed s) = slot_log i (pool_popped s)"
    by (auto simp: slot_ok_def pending_def)
  ultimately show ?thesis
    by (auto simp: slot_ok_def pending_def)
qed

text \<open>
  When signals are prompt, progress is always possible: while the epoll thread is not in the
  middle of a push, the worker of a slot with an event still to take has a step that takes this
  event, whatever the other threads do.
\<close>

theorem pending_event_can_be_taken:
  assumes "pool_reach prompt n s" "n \<le> MAX_THREADS" "i < n"
    and "pool_pusher s = Push_ready" "pending i s \<noteq> []"
  shows "\<exists>l\<in>{Lock i, Resume i}. \<exists>t. prompt l s \<and> pool_exec l s = Some t
    \<and> pool_popped t = pool_popped s @ [(i, poll_event (pool_polls s ! i))] \<and> pending i t = []"
proof -
  have slot: "slot_ok i s" using slot_ok_reach [OF assms(1-3)] .
  have len: "i < length (pool_workers s)" using pool_ok_reach [OF assms(1,2)] assms(3) by (simp add: pool_ok_def)
  have flag: "poll_flag (pool_polls s ! i) = THREAD_BUSY"
    "pool_workers s ! i \<in> {Pop_start, Pop_waiting, Pop_woken}"
    using assms(5) by (auto simp: pending_def split: if_splits)
  then consider "pool_workers s ! i = Pop_start" | "pool_workers s ! i = Pop_woken"
    using slot assms(4) by (auto simp: slot_ok_def)
  then show ?thesis
  proof cases
    case 1
    then have "pool_exec (Lock i) s = Some (do_pop i s)" using flag(1) len by simp
    then show ?thesis
      using assms(4) len by (auto simp: do_pop_def Let_def pending_def prompt_def no_spurious_def)
  next
    case 2
    then have "pool_exec (Resume i) s = Some (do_pop i s)" using len by simp
    then show ?thesis
      using assms(4) len by (auto simp: do_pop_def Let_def pending_def prompt_def no_spurious_def)
  qed
qed

section \<open>Late signals\<close>

definition flow_a :: event_info where
  "flow_a = \<lparr>ev_fd = 7, ev_flow_size = 100\<rparr>"

definition flow_b :: event_info where
  "flow_b = \<lparr>ev_fd = 8, ev_flow_size = 200\<rparr>"

text \<open>A run in which an event is pushed and served.\<close>

lemma served_run:
  "map_option (\<lambda>s. (pool_pushed s, pool_popped s, pool_workers s))
     (pool_run prompt [Lock 0, Choose flow_a, Store, Signal, Resume 0] (init_pool 1))
   = Some ([(0, flow_a)], [(0, flow_a)], [Pop_unlocked flow_a])"
  by code_simp

theorem prompt_events_served_once_witness:
  "\<exists>s. slot_log 0 (pool_pushed s) = slot_log 0 (pool_popped s) @ pending 0 s
     \<and> pool_pushed s = [(0, flow_a)] \<and> pool_popped s = [(0, flow_a)]"
proof -
  have "(1::nat) \<le> MAX_THREADS" "(0::nat) < 1" by (simp_all add: MAX_THREADS_def)
  moreover obtain s where "pool_reach prompt 1 s" "pool_pushed s = [(0, flow_a)]"
    "pool_popped s = [(0, flow_a)]"
    using pool_run_exists [OF served_run] by auto
  ultimately show ?thesis using prompt_events_served_once by blast
qed

lemma stored_run:
  "map_option (\<lambda>s. (pool_pusher s, pending 0 s, pool_popped s))
     (pool_run prompt [Lock 0, Choose flow_a, Store, Signal] (init_pool 1))
   = Some (Push_ready, [flow_a], [])"
  by code_simp

theorem pending_event_can_be_taken_witness:
  "\<exists>s t l. pending 0 s = [flow_a] \<and> pool_exec l s = Some t \<and> pending 0 t = []"
proof -
  have "(1::nat) \<le> MAX_THREADS" "(0::nat) < 1" by (simp_all add: MAX_THREADS_def)
  moreover obtain s where "pool_reach prompt 1 s" "pool_pusher s = Push_ready" "pending 0 s = [flow_a]"
    using pool_run_exists [OF stored_run] by auto
  ultimately show ?thesis using pending_event_can_be_taken [of 1 s 0] by fastforce
qed

theorem only_pushed_events_served_witness:
  "\<exists>s :: pool. set (pool_popped s) \<subseteq> set (pool_pushed s) \<and> pool_popped s = [(0, flow_a)]"
proof -
  obtain s where s: "pool_reach prompt 1 s" "pool_popped s = [(0, flow_a)]"
    using pool_run_exists [OF served_run] by auto
  then have "pool_reach no_spurious 1 s"
    by (elim pool_reach_mono) (simp add: prompt_def)
  moreover have "(1::nat) \<le> MAX_THREADS" by (simp add: MAX_THREADS_def)
  ultimately have "set (pool_popped s) \<subseteq> set (pool_pushed s)"
    using only_pushed_events_served [of 1 s] by simp
  with s(2) show ?thesis by blast
qed

text \<open>
  C15.  \<open>event_push\<close> signals after it has unlocked the mutex, and \<open>event_pop\<close> does not look at the flag
  again after its wait.  So with one worker, and no wait that ends by itself, an event pushed once
  can be served twice: the worker serves it and waits again before the signal arrives.  The next
  event is then stored while the worker is busy with the old one, marked as done when the worker
  finishes it, and never served: the worker sleeps, the slot is idle and no signal is to come.
\<close>

theorem late_signal_serves_twice_and_loses:
  "(\<exists>s. pool_reach no_spurious 1 s
      \<and> pool_pushed s = [(0, flow_a)] \<and> pool_popped s = [(0, flow_a), (0, flow_a)])
   \<and> (\<exists>s. pool_reach no_spurious 1 s
      \<and> pool_pushed s = [(0, flow_a), (0, flow_b)] \<and> pool_popped s = [(0, flow_a), (0, flow_a)]
      \<and> pool_pusher s = Push_ready \<and> pool_workers s = [Pop_waiting]
      \<and> poll_flag (pool_polls s ! 0) = THREAD_IDLE)"
proof
  have "map_option (\<lambda>s. (pool_pushed s, pool_popped s))
      (pool_run no_spurious [Choose flow_a, Store, Lock 0, Signal_idle 0, Finish 0, Lock 0, Signal,
         Resume 0] (init_pool 1))
    = Some ([(0, flow_a)], [(0, flow_a), (0, flow_a)])"
    by code_simp
  from pool_run_exists [OF this] show "\<exists>s. pool_reach no_spurious 1 s
      \<and> pool_pushed s = [(0, flow_a)] \<and> pool_popped s = [(0, flow_a), (0, flow_a)]"
    by auto
  have "map_option (\<lambda>s. (pool_pushed s, pool_popped s, pool_pusher s, pool_workers s,
        poll_flag (pool_polls s ! 0) = THREAD_IDLE))
      (pool_run no_spurious [Choose flow_a, Store, Lock 0, Signal_idle 0, Finish 0, Lock 0, Signal,
         Resume 0, Signal_idle 0, Choose flow_b, Store, Signal, Finish 0, Lock 0] (init_pool 1))
    = Some ([(0, flow_a), (0, flow_b)], [(0, flow_a), (0, flow_a)], Push_ready, [Pop_waiting], True)"
    by code_simp
  from pool_run_exists [OF this] show "\<exists>s. pool_reach no_spurious 1 s
      \<and> pool_pushed s = [(0, flow_a), (0, flow_b)] \<and> pool_popped s = [(0, flow_a), (0, flow_a)]
      \<and> pool_pusher s = Push_ready \<and> pool_workers s = [Pop_waiting]
      \<and> poll_flag (pool_polls s ! 0) = THREAD_IDLE"
    by auto
qed

end
