(* ===== verification/FG_Pool_Atomic.thy ===== *)
theory FG_Pool_Atomic
  imports FG_Pool_Steps
begin

text \<open>
  What the slots promise to the programs that use them, as a specification with atomic steps: an
  event is put into an idle slot, a worker without an event takes the event of its busy slot, and a worker
  that has an event gives its slot back.  With prompt signals every step of \<open>FG_Pool_Steps\<close>, in which
  threads run between any two accesses, is one of these steps or changes nothing that they see.

  The client and the server are put on top of the detailed steps in \<open>FG_Client_Threads\<close> and
  \<open>FG_Server_Threads\<close>.
\<close>

section \<open>The specification\<close>

type_synonym slots = "events_poll list \<times> (nat \<Rightarrow> event_info option)"

inductive slot_step :: "nat \<Rightarrow> slots \<Rightarrow> slots \<Rightarrow> bool" for n where
  Push: "push_event ps e = Returned (ps', i) \<Longrightarrow> slot_step n (ps, held) (ps', held)"
| Take: "i < n \<Longrightarrow> held i = None \<Longrightarrow> event_pop (ps ! i) = Returned e
    \<Longrightarrow> slot_step n (ps, held) (ps, held(i \<mapsto> e))"
| Release: "i < n \<Longrightarrow> held i = Some e
    \<Longrightarrow> slot_step n (ps, held) (release_slot ps i, held(i := None))"

section \<open>The abstraction\<close>

text \<open>
  The slots with the event the epoll thread is about to store, and the events workers have
  taken.  A chosen slot counts as busy: the epoll thread stores into it whatever the workers do.
\<close>

definition stored_polls :: "pool \<Rightarrow> events_poll list" where
  "stored_polls s =
     (case pool_pusher s of
        Push_chosen i e \<Rightarrow>
          (pool_polls s)[i := store_event (ev_fd e) (ev_flow_size e) (pool_polls s ! i)]
      | _ \<Rightarrow> pool_polls s)"

fun held_by :: "worker \<Rightarrow> event_info option" where
  "held_by (Pop_unlocked e) = Some e"
| "held_by (Working e) = Some e"
| "held_by _ = None"

definition in_hand :: "pool \<Rightarrow> nat \<Rightarrow> event_info option" where
  "in_hand s i = (if i < length (pool_workers s) then held_by (pool_workers s ! i) else None)"

definition slots_of :: "pool \<Rightarrow> slots" where
  "slots_of s = (stored_polls s, in_hand s)"

lemma in_hand_cong: "pool_workers t = pool_workers s \<Longrightarrow> in_hand t = in_hand s"
  by (simp add: in_hand_def fun_eq_iff)

lemma in_hand_update:
  assumes "i < length (pool_workers s)" "pool_workers t = (pool_workers s)[i := w]"
  shows "in_hand t = (in_hand s)(i := held_by w)"
  using assms by (auto simp: in_hand_def fun_eq_iff nth_list_update)

lemma in_hand_same:
  assumes "i < length (pool_workers s)" "pool_workers t = (pool_workers s)[i := w]"
    and "held_by w = held_by (pool_workers s ! i)"
  shows "in_hand t = in_hand s"
  using assms by (auto simp: in_hand_def fun_eq_iff nth_list_update)

lemma in_hand_None:
  "i < length (pool_workers s) \<Longrightarrow>
     in_hand s i = None \<longleftrightarrow> pool_workers s ! i \<in> {Pop_start, Pop_waiting, Pop_woken}"
  by (cases "pool_workers s ! i") (simp_all add: in_hand_def)

lemma in_hand_Some:
  "in_hand s i = Some e \<longleftrightarrow>
     i < length (pool_workers s) \<and> pool_workers s ! i \<in> {Pop_unlocked e, Working e}"
  by (cases "pool_workers s ! i") (simp_all add: in_hand_def)

lemma stored_polls_simps [simp]:
  "stored_polls (s\<lparr>pool_workers := ws\<rparr>) = stored_polls s"
  "stored_polls (s\<lparr>pool_popped := log\<rparr>) = stored_polls s"
  "stored_polls (s\<lparr>pool_pushed := log\<rparr>) = stored_polls s"
  by (simp_all add: stored_polls_def split: pusher.split)

lemma stored_polls_ready: "pool_pusher s = Push_ready \<Longrightarrow> stored_polls s = pool_polls s"
  by (simp add: stored_polls_def)

section \<open>The steps\<close>

text \<open>The state of a pool under prompt signals: the two invariants of \<open>FG_Pool_Steps\<close>.\<close>

lemma prompt_facts:
  assumes "pool_reach prompt n s" "n \<le> MAX_THREADS"
  shows "pool_ok n s" "length (pool_workers s) = n" "length (pool_polls s) = MAX_THREADS"
    "\<And>i. i < n \<Longrightarrow> slot_ok i s"
    "\<And>i. i < n \<Longrightarrow> poll_flag (pool_polls s ! i) = THREAD_IDLE \<or> poll_flag (pool_polls s ! i) = THREAD_BUSY"
  using pool_ok_reach [OF assms] slot_ok_reach [OF assms]
  by (simp_all add: pool_ok_def wf_polls_def)

text \<open>A worker with an event has a busy slot; so has a worker that has been woken.\<close>

lemma in_hand_busy:
  assumes "pool_reach prompt n s" "n \<le> MAX_THREADS" "in_hand s i = Some e"
  shows "i < n" "poll_flag (pool_polls s ! i) = THREAD_BUSY" "poll_event (pool_polls s ! i) = e"
proof -
  show i: "i < n" using assms(3) prompt_facts(2) [OF assms(1,2)] by (simp add: in_hand_Some)
  show "poll_flag (pool_polls s ! i) = THREAD_BUSY" "poll_event (pool_polls s ! i) = e"
    using assms(3) prompt_facts(4,5) [OF assms(1,2) i] by (auto simp: in_hand_Some slot_ok_def)
qed

lemma event_pop_busy: "poll_flag p = THREAD_BUSY \<Longrightarrow> event_pop p = Returned (poll_event p)"
  by (cases "poll_event p") (simp add: event_pop_def flag_defs)

lemma chosen_idle:
  assumes "pool_reach prompt n s" "n \<le> MAX_THREADS" "pool_pusher s = Push_chosen i e"
  shows "i < n" "poll_flag (pool_polls s ! i) = THREAD_IDLE"
  using prompt_facts(1) [OF assms(1,2)] assms(3) by (simp_all add: pool_ok_def pusher_ok_def)

text \<open>Choosing a slot is pushing the event, and fails as \<open>event_push\<close> does.\<close>

lemma choose_atomic:
  assumes "pool_exec (Choose e) s = Some t"
  shows "in_hand t = in_hand s"
    "pool_pusher t = Push_exited \<Longrightarrow> push_event (stored_polls s) e = Exited EXIT_SUCCESS"
    "pool_pusher t \<noteq> Push_exited \<Longrightarrow> \<exists>i. push_event (stored_polls s) e = Returned (stored_polls t, i)"
proof -
  define index where "index = get_valid_thread (pool_polls s)"
  have s: "pool_pusher s = Push_ready"
    and t: "t = s\<lparr>pool_pusher := (if index < 0 then Push_exited else Push_chosen (nat index) e)\<rparr>"
    using assms by (simp_all add: index_def Let_def split: if_splits)
  show "in_hand t = in_hand s" by (rule in_hand_cong) (simp add: t)
  show "push_event (stored_polls s) e = Exited EXIT_SUCCESS" if "pool_pusher t = Push_exited"
    using that s by (simp add: t push_event_def event_push_def index_def Let_def stored_polls_ready split: if_splits)
  assume "pool_pusher t \<noteq> Push_exited"
  then have "0 \<le> index" by (auto simp: t split: if_splits)
  then have "nat index < length (pool_polls s)" "poll_flag (pool_polls s ! nat index) = THREAD_IDLE"
    using get_valid_thread_eq_int [of "pool_polls s" "nat index"] by (simp_all add: index_def idle_slots_def)
  with \<open>0 \<le> index\<close> s show "\<exists>i. push_event (stored_polls s) e = Returned (stored_polls t, i)"
    by (simp add: t push_event_def event_push_def stored_polls_def index_def [symmetric] Let_def c_read_def)
qed

text \<open>The other steps of a push, and all of a worker's except taking and releasing, are not seen.\<close>

definition pops :: "pool_label \<Rightarrow> pool \<Rightarrow> nat option" where
  "pops l s =
     (case l of
        Lock i \<Rightarrow> if poll_flag (pool_polls s ! i) = THREAD_IDLE then None else Some i
      | Resume i \<Rightarrow> Some i
      | _ \<Rightarrow> None)"

lemma pop_atomic:
  assumes reach: "pool_reach prompt n s" "n \<le> MAX_THREADS"
    and ex: "pool_exec l s = Some t" and pops: "pops l s = Some i"
  shows "i < n" "in_hand s i = None" "event_pop (stored_polls s ! i) = Returned (poll_event (pool_polls s ! i))"
    "in_hand t = (in_hand s)(i \<mapsto> poll_event (pool_polls s ! i))" "stored_polls t = stored_polls s"
proof -
  note facts = prompt_facts [OF reach]
  have i: "i < length (pool_workers s)" "pool_workers s ! i \<in> {Pop_start, Pop_woken}" "t = do_pop i s"
    "pool_workers s ! i = Pop_start \<longrightarrow> poll_flag (pool_polls s ! i) \<noteq> THREAD_IDLE"
    using ex pops by (auto simp: pops_def split: pool_label.splits if_splits)
  then show n: "i < n" and "in_hand s i = None" using facts(2) by (auto simp: in_hand_None)
  have busy: "poll_flag (pool_polls s ! i) = THREAD_BUSY"
    using facts(4,5) [OF n] i by (auto simp: slot_ok_def)
  have "j \<noteq> i" if "pool_pusher s = Push_chosen j e" for j e
    using chosen_idle [OF reach that] busy by auto
  then have "stored_polls s ! i = pool_polls s ! i"
    by (simp add: stored_polls_def split: pusher.split)
  then show "event_pop (stored_polls s ! i) = Returned (poll_event (pool_polls s ! i))"
    using event_pop_busy [OF busy] by simp
  show "in_hand t = (in_hand s)(i \<mapsto> poll_event (pool_polls s ! i))" "stored_polls t = stored_polls s"
    using in_hand_update [OF i(1), of t "Pop_unlocked (poll_event (pool_polls s ! i))"]
    by (simp_all add: i(3) do_pop_def Let_def)
qed

lemma inner_atomic:
  assumes reach: "pool_reach prompt n s" "n \<le> MAX_THREADS"
    and ex: "pool_exec l s = Some t" and pops: "pops l s = None"
    and l: "\<And>e. l \<noteq> Choose e" "\<And>i. l \<noteq> Finish i"
  shows "slots_of t = slots_of s"
proof (cases l)
  case Store
  then obtain i e where i: "pool_pusher s = Push_chosen i e" "t = do_store i e s"
    using ex prompt_facts(1) [OF reach] by (auto simp: pool_ok_def pusher_ok_def split: pusher.splits)
  then have "in_hand t = in_hand s" by (intro in_hand_cong) (simp add: do_store_def)
  with i show ?thesis by (simp add: slots_of_def stored_polls_def do_store_def)
next
  case Signal
  with ex have "pool_exec Signal s = Some t" by simp
  then show ?thesis
  proof (cases rule: Signal_effect)
    case (woken i)
    then have "in_hand t = in_hand s"
      by (intro in_hand_same [OF woken(2), of t Pop_woken]) simp_all
    with woken show ?thesis by (simp add: slots_of_def stored_polls_def)
  next
    case (lost i)
    then have "in_hand t = in_hand s" by (intro in_hand_cong) simp
    with lost show ?thesis by (simp add: slots_of_def stored_polls_def)
  qed
next
  case (Lock i)
  with ex have "pool_exec (Lock i) s = Some t" by simp
  then show ?thesis
  proof (cases rule: Lock_effect)
    case wait
    then have "in_hand t = in_hand s" by (intro in_hand_same [OF wait(1), of t Pop_waiting]) simp_all
    with wait show ?thesis by (simp add: slots_of_def)
  next
    case pop
    with pops Lock show ?thesis by (simp add: pops_def)
  qed
next
  case (Signal_idle i)
  with ex have "pool_exec (Signal_idle i) s = Some t" by simp
  with prompt_facts(1) [OF reach] show ?thesis
  proof (rule Signal_idle_effect)
    fix e
    assume i: "i < length (pool_workers s)" "pool_workers s ! i = Pop_unlocked e"
      "t = s\<lparr>pool_workers := (pool_workers s)[i := Working e]\<rparr>"
    then have "in_hand t = in_hand s" by (intro in_hand_same [OF i(1), of t "Working e"]) simp_all
    with i show ?thesis by (simp add: slots_of_def)
  qed
next
  case (Spurious i)
  then have i: "i < length (pool_workers s)" "pool_workers s ! i = Pop_waiting"
    "t = s\<lparr>pool_workers := (pool_workers s)[i := Pop_woken]\<rparr>"
    using ex by (auto split: if_splits)
  then have "in_hand t = in_hand s" by (intro in_hand_same [OF i(1), of t Pop_woken]) simp_all
  with i show ?thesis by (simp add: slots_of_def)
qed (use l pops in \<open>simp_all add: pops_def\<close>)

lemma finish_atomic:
  assumes reach: "pool_reach prompt n s" "n \<le> MAX_THREADS" and ex: "pool_exec (Finish i) s = Some t"
  shows "i < n" "\<exists>e. in_hand s i = Some e" "in_hand t = (in_hand s)(i := None)"
    "stored_polls t = release_slot (stored_polls s) i"
proof -
  obtain e where i: "i < length (pool_workers s)" "pool_workers s ! i = Working e"
    "t = s\<lparr>pool_workers := (pool_workers s)[i := Pop_start],
           pool_polls := release_slot (pool_polls s) i\<rparr>"
    using Finish_effect [OF ex] .
  then have taken: "in_hand s i = Some e" by (simp add: in_hand_Some)
  then show "\<exists>e. in_hand s i = Some e" by simp
  note busy = in_hand_busy [OF reach taken]
  show "i < n" by (rule busy(1))
  show "in_hand t = (in_hand s)(i := None)"
    using in_hand_update [OF i(1), of t Pop_start] i(3) by simp
  have "j \<noteq> i" if "pool_pusher s = Push_chosen j e'" for j e'
    using chosen_idle [OF reach that] busy(2) by auto
  then show "stored_polls t = release_slot (stored_polls s) i"
    by (auto simp: i(3) stored_polls_def release_slot_def list_update_swap split: pusher.split)
qed

text \<open>What the programs on top of the slots use.\<close>

definition of_step :: "'a option \<Rightarrow> 'a run" where
  "of_step m = (case m of Some x \<Rightarrow> Returned x | None \<Rightarrow> Blocked)"

lemma of_step_Returned [simp]: "of_step m = Returned x \<longleftrightarrow> m = Some x"
  by (auto simp: of_step_def split: option.split)

lemma prompt_choose: "pool_exec (Choose e) s = Some t \<Longrightarrow> prompt (Choose e) s"
  by (simp add: prompt_def no_spurious_def split: if_splits)

lemma prompt_finish: "prompt (Finish i) s"
  by (simp add: prompt_def no_spurious_def split: pusher.split)

lemma working_in_hand: "worker_at p i = Some (Working e) \<Longrightarrow> in_hand p i = Some e"
  by (simp add: in_hand_def)

lemma working_kept:
  assumes "pool_exec l p = Some q" "worker_at p i = Some (Working e)" "l \<noteq> Finish i"
  shows "worker_at q i = Some (Working e)"
  using assms
  by (cases l) (auto simp: do_store_def do_pop_def Let_def nth_list_update
      split: pusher.splits option.splits worker.splits if_splits)

lemma in_hand_init [simp]: "in_hand (init_pool n) i = None"
  by (simp add: in_hand_def init_pool_def)

lemma stored_init: "stored_polls (init_pool n) = pool_polls (init_pool n)"
  by (simp add: stored_polls_def init_pool_def)

text \<open>
  C14.  With prompt signals the slots refine their specification: each step of the epoll thread or
  a worker in \<open>event_push\<close>, \<open>event_pop\<close> or between leaves the slots as they are, or puts an event into an idle
  slot, lets a worker without an event take the event of its busy slot, or releases a worker's
  slot; and choosing fails exactly as an atomic push does.
\<close>

theorem pool_refines_atomic_slots:
  assumes "pool_reach prompt n s" "n \<le> MAX_THREADS" "prompt l s" "pool_exec l s = Some t"
  shows "(slots_of t = slots_of s \<or> slot_step n (slots_of s) (slots_of t))
    \<and> (pool_pusher t = Push_exited \<and> pool_pusher s \<noteq> Push_exited \<longrightarrow>
         (\<exists>e. l = Choose e \<and> push_event (stored_polls s) e = Exited EXIT_SUCCESS))"
proof (cases "pops l s")
  case (Some i)
  note pop = pop_atomic [OF assms(1,2,4) Some]
  have "slot_step n (slots_of s) (slots_of t)"
    unfolding slots_of_def pop(4,5) using pop(1-3) by (rule Take)
  moreover have "pool_pusher t = pool_pusher s"
    using assms(4) Some by (auto simp: pops_def do_pop_def Let_def split: pool_label.splits if_splits)
  ultimately show ?thesis by simp
next
  case None
  consider (choose) e where "l = Choose e" | (finish) i where "l = Finish i"
    | (inner) "\<And>e. l \<noteq> Choose e" "\<And>i. l \<noteq> Finish i" by blast
  then show ?thesis
  proof cases
    case choose
    note c = choose_atomic [OF assms(4) [unfolded choose]]
    show ?thesis
    proof (cases "pool_pusher t = Push_exited")
      case True
      then have "stored_polls t = stored_polls s"
        using assms(4) choose by (auto simp: stored_polls_def Let_def split: if_splits)
      with c True choose show ?thesis by (simp add: slots_of_def)
    next
      case False
      with c show ?thesis by (auto simp: slots_of_def intro: Push)
    qed
  next
    case finish
    note f = finish_atomic [OF assms(1,2) assms(4) [unfolded finish]]
    have "slot_step n (slots_of s) (slots_of t)"
      unfolding slots_of_def f(3,4) using f(1,2) by (blast intro: Release)
    moreover have "pool_pusher t = pool_pusher s"
      by (rule Finish_effect [OF assms(4) [unfolded finish]]) simp
    ultimately show ?thesis by simp
  next
    case inner
    then have "pool_pusher t = Push_exited \<longrightarrow> pool_pusher s = Push_exited"
      using assms(4) by (cases l) (auto simp: do_store_def do_pop_def Let_def
          split: pusher.splits option.splits worker.splits if_splits)
    with inner_atomic [OF assms(1,2,4) None inner] show ?thesis by blast
  qed
qed

theorem pool_refines_atomic_slots_witness:
  "\<exists>s t. pool_exec (Lock 0) s = Some t \<and> in_hand t 0 = Some flow_a \<and> slot_step 1 (slots_of s) (slots_of t)"
proof -
  have run: "map_option (\<lambda>s. (in_hand s 0, case pool_exec (Lock 0) s of Some t \<Rightarrow> in_hand t 0 | None \<Rightarrow> None,
        prompt (Lock 0) s))
      (pool_run prompt [Choose flow_a, Store] (init_pool 1)) = Some (None, Some flow_a, True)"
    by code_simp
  obtain s where s: "pool_reach prompt 1 s" "in_hand s 0 = None" "prompt (Lock 0) s"
    "(case pool_exec (Lock 0) s of Some t \<Rightarrow> in_hand t 0 | None \<Rightarrow> None) = Some flow_a"
    using pool_run_exists [OF run] by auto
  then obtain t where t: "pool_exec (Lock 0) s = Some t" "in_hand t 0 = Some flow_a"
    by (auto split: option.splits)
  have "1 \<le> MAX_THREADS" by (simp add: MAX_THREADS_def)
  moreover have "slots_of t \<noteq> slots_of s"
  proof
    assume "slots_of t = slots_of s"
    then have "in_hand t 0 = in_hand s 0" by (simp add: slots_of_def)
    with s(2) t(2) show False by simp
  qed
  ultimately show ?thesis
    using pool_refines_atomic_slots [OF s(1) _ s(3) t(1)] t by blast
qed

end
