(* ===== verification/FG_Client_Threads.thy ===== *)
theory FG_Client_Threads
  imports FG_Client_Safe FG_Pool_Atomic
begin

text \<open>
  The threads of the client at the grain of \<open>FG_Pool_Steps\<close> (\<open>epoll_client\<close> and \<open>request_thread\<close> in
  \<open>client/client.c\<close> on top of \<open>common/thread_poll.c\<close>): the epoll thread handles an event up to the choice
  of a slot in \<open>event_push\<close>, and then stores the event and signals while workers run; a worker locks,
  waits, takes its event, serves the flow, and gives its slot back.

  With prompt signals these threads do what \<open>FG_Client_Steps\<close> describes with atomic pushes and takes, so
  that its theorems hold for them.
\<close>

section \<open>The handler up to the push\<close>

definition request_flow ::
    "cdf_table option \<Rightarrow> event_answers \<Rightarrow> int \<Rightarrow> client \<Rightarrow> (client \<times> int) run" where
  "request_flow req_size_dist a fd c0 =
     run_bind (get_flow_size req_size_dist (ea_rand a)) (\<lambda>flow_size.
     run_bind (of_access (write_flows_size (cl_flows_size c0) fd (word_of_int flow_size))) (\<lambda>sizes.
     run_bind (write_request (ea_stack a) (ea_req a) flow_size (ea_write a)) (\<lambda>(bytes, _).
     run_bind (modify_epoll_event (cl_efd c0) fd EPOLLIN (ea_ctl a)) (\<lambda>(effects, error).
       let c1 = c0\<lparr>cl_flows_size := sizes, cl_effects := cl_effects c0 @ effects\<rparr> in
       run_bind
         (if error < 0 then del_flow (ea_ctl a) fd c1
          else
            run_bind (add_flow_time_entry (ea_alloc a) (ea_now a) (cl_time_table c1) fd flow_size)
              (\<lambda>(t, _). Returned (c1\<lparr>cl_active_flows := cl_active_flows c1 + 1, cl_time_table := t\<rparr>)))
         (\<lambda>c2. Returned (c2, flow_size))))))"

text \<open>The event to be pushed, if any, comes with the new state.\<close>

definition client_event_upto ::
    "cdf_table option \<Rightarrow> u32 \<Rightarrow> event_answers \<Rightarrow> u32 \<Rightarrow> int \<Rightarrow> client
     \<Rightarrow> (client \<times> event_info option) run" where
  "client_event_upto req_size_dist concurrent_flows a events fd c =
     (if events AND EPOLLERR \<noteq> 0 \<or> events AND EPOLLHUP \<noteq> 0 then
        run_bind (del_flow (ea_ctl a) fd c) (\<lambda>c1. Returned (c1, None))
      else if events AND EPOLLOUT \<noteq> 0 then
        if cl_active_flows c < concurrent_flows then
          run_bind (request_flow req_size_dist a fd c) (\<lambda>(c1, flow_size).
            Returned (c1, Some \<lparr>ev_fd = word_of_int fd, ev_flow_size = word_of_int flow_size\<rparr>))
        else
          run_bind (modify_epoll_event (cl_efd c) fd EPOLLOUT (ea_ctl a)) (\<lambda>(effects, error).
            let c1 = c\<lparr>cl_effects := cl_effects c @ effects\<rparr>
            in if error < 0 then run_bind (del_flow (ea_ctl a) fd c1) (\<lambda>c2. Returned (c2, None))
               else Returned (c1, None))
      else Returned (c, None))"

text \<open>The handlers do not look at the slots before the push.\<close>

abbreviation at_polls :: "events_poll list \<Rightarrow> client \<Rightarrow> client" where
  "at_polls ps c \<equiv> c\<lparr>cl_polls := ps\<rparr>"

lemma del_flow_at_polls:
  "del_flow ctl fd (at_polls ps c) = run_bind (del_flow ctl fd c) (\<lambda>c'. Returned (at_polls ps c'))"
  by (cases "del_flow_time_entry (cl_time_table c) fd") (simp_all add: del_flow_def Let_def case_prod_beta')

definition push_pending :: "events_poll list \<Rightarrow> client \<times> event_info option \<Rightarrow> client run" where
  "push_pending ps r =
     (case r of
        (c, None) \<Rightarrow> Returned (at_polls ps c)
      | (c, Some e) \<Rightarrow> run_bind (push_event ps e) (\<lambda>(ps', _). Returned (at_polls ps' c)))"

lemma run_bind_assoc: "run_bind (run_bind m f) g = run_bind m (\<lambda>x. run_bind (f x) g)"
  by (cases m) simp_all

lemma start_flow_at_polls:
  "start_flow cdf a fd (at_polls ps c) = run_bind (request_flow cdf a fd c) (\<lambda>(c1, n).
     push_pending ps (c1, Some \<lparr>ev_fd = word_of_int fd, ev_flow_size = word_of_int n\<rparr>))"
proof -
  obtain error where m: "\<not> error < 0" "modify_epoll_event (cl_efd c) fd EPOLLIN (ea_ctl a)
      = Returned ([Epoll_ctl (cl_efd c) (EPOLL_CTL_MOD (EPOLLIN OR EPOLLET)) fd], error)"
    using modify_returns by blast
  show ?thesis
    by (simp add: start_flow_eq request_flow_def m run_bind_assoc case_prod_beta' push_pending_def
        push_event_def Let_def)
qed

lemma client_event_at_polls:
  "client_event cdf concurrent_flows a events fd (at_polls ps c) =
     run_bind (client_event_upto cdf concurrent_flows a events fd c) (push_pending ps)"
proof -
  obtain error where "\<not> error < 0" "modify_epoll_event (cl_efd c) fd EPOLLOUT (ea_ctl a)
      = Returned ([Epoll_ctl (cl_efd c) (EPOLL_CTL_MOD (EPOLLOUT OR EPOLLET)) fd], error)"
    using modify_returns by blast
  then show ?thesis
    by (simp add: client_event_def client_event_upto_def start_flow_at_polls del_flow_at_polls run_bind_assoc
        case_prod_beta' push_pending_def)
qed

lemma finish_flow_at_polls:
  "finish_flow n flow_size fd ctl now (at_polls ps c) =
     run_bind (finish_flow n flow_size fd ctl now c) (\<lambda>c'. Returned (at_polls ps c'))"
  by (cases c; cases "n = -1"; cases "n = flow_size")
    (simp_all add: finish_flow_def del_flow_def run_bind_assoc case_prod_beta' Let_def)

lemma counters_at_polls:
  "(at_polls ps c)\<lparr>cl_active_flows := x, cl_left_flows := y\<rparr>
    = at_polls ps (c\<lparr>cl_active_flows := x, cl_left_flows := y\<rparr>)"
  by (cases c) simp

lemma serve_flow_at_polls:
  "serve_flow stack e reads ctl now (at_polls ps c) =
     run_bind (serve_flow stack e reads ctl now c) (\<lambda>(c', rest). Returned (at_polls ps c', rest))"
  by (simp add: serve_flow_def finish_flow_at_polls counters_at_polls run_bind_assoc case_prod_beta' Let_def)

section \<open>States and steps\<close>

text \<open>
  The slots, where the epoll thread is in \<open>event_push\<close>, and where each worker is in \<open>event_pop\<close> or with
  its event, are a state of \<open>FG_Pool_Steps\<close>; the field \<open>cl_polls\<close> of the client is not used.  A worker in
  \<open>th_counted\<close> has decremented the counters and has still to mark its slot idle.
\<close>

record client_threads =
  th_client :: client
  th_pool :: pool
  th_counted :: "nat set"
  th_done :: nat

datatype thread_label =
    T_event event_answers u32 int
  | T_pool pool_label
  | T_serve nat "u8 list" "read_result list" int timeval
  | T_release nat

fun threads_exec ::
    "cdf_table option \<Rightarrow> u32 \<Rightarrow> thread_label \<Rightarrow> client_threads \<Rightarrow> client_threads run" where
  "threads_exec cdf concurrent_flows (T_event a events fd) s =
     (if pool_pusher (th_pool s) \<noteq> Push_ready then Blocked
      else
        run_bind (client_event_upto cdf concurrent_flows a events fd (th_client s)) (\<lambda>(c, event).
          case event of
            None \<Rightarrow> Returned (s\<lparr>th_client := c\<rparr>)
          | Some e \<Rightarrow>
              run_bind (of_step (pool_exec (Choose e) (th_pool s))) (\<lambda>p.
                if pool_pusher p = Push_exited then Exited EXIT_SUCCESS
                else Returned (s\<lparr>th_client := c, th_pool := p\<rparr>))))"
| "threads_exec cdf concurrent_flows (T_pool l) s =
     (case l of
        Choose e \<Rightarrow> Blocked
      | Finish i \<Rightarrow> Blocked
      | _ \<Rightarrow> run_bind (of_step (pool_exec l (th_pool s))) (\<lambda>p. Returned (s\<lparr>th_pool := p\<rparr>)))"
| "threads_exec cdf concurrent_flows (T_serve i stack reads ctl now) s =
     (case worker_at (th_pool s) i of
        Some (Working e) \<Rightarrow>
          if i \<in> th_counted s then Blocked
          else
            run_bind (serve_flow stack e reads ctl now (th_client s)) (\<lambda>(c, _).
              Returned (s\<lparr>th_client := c, th_counted := insert i (th_counted s), th_done := th_done s + 1\<rparr>))
      | _ \<Rightarrow> Blocked)"
| "threads_exec cdf concurrent_flows (T_release i) s =
     (if i \<in> th_counted s then
        run_bind (of_step (pool_exec (Finish i) (th_pool s))) (\<lambda>p.
          Returned (s\<lparr>th_pool := p, th_counted := th_counted s - {i}\<rparr>))
      else Blocked)"

section \<open>Refinement\<close>

text \<open>What the steps of the threads look like with atomic pushes and takes.\<close>

definition client_worker_of :: "(nat \<Rightarrow> event_info option) \<Rightarrow> nat set \<Rightarrow> nat \<Rightarrow> client_worker" where
  "client_worker_of held done_slots i =
     (case held i of
        None \<Rightarrow> Waiting_worker
      | Some e \<Rightarrow> if i \<in> done_slots then Counted else Serving e)"

definition client_sys_of :: "client_threads \<Rightarrow> client_sys" where
  "client_sys_of s =
     \<lparr>sys_client = at_polls (stored_polls (th_pool s)) (th_client s),
      sys_workers = map (client_worker_of (in_hand (th_pool s)) (th_counted s))
        [0..<length (pool_workers (th_pool s))],
      sys_done = th_done s\<rparr>"

definition client_label_of :: "client_threads \<Rightarrow> thread_label \<Rightarrow> client_label option" where
  "client_label_of s l =
     (case l of
        T_event a events fd \<Rightarrow> Some (C_event a events fd)
      | T_pool k \<Rightarrow> map_option C_take (pops k (th_pool s))
      | T_serve i stack reads ctl now \<Rightarrow> Some (C_serve i stack reads ctl now)
      | T_release i \<Rightarrow> Some (C_release i))"

text \<open>
  The schedules: signals are prompt, and the atomic steps obey a discipline \<open>ok\<close> of \<open>FG_Client_Steps\<close>.
\<close>

definition threads_ok :: "(client_label \<Rightarrow> client_sys \<Rightarrow> bool) \<Rightarrow> thread_label \<Rightarrow> client_threads \<Rightarrow> bool" where
  "threads_ok ok l s \<longleftrightarrow>
     (case l of T_pool k \<Rightarrow> prompt k (th_pool s) | _ \<Rightarrow> True)
   \<and> (case client_label_of s l of Some k \<Rightarrow> ok k (client_sys_of s) | None \<Rightarrow> True)"

text \<open>The start of \<open>n\<close> workers and the epoll thread, with the client's state \<open>c\<close>.\<close>

definition threads_start :: "nat \<Rightarrow> client \<Rightarrow> client_threads" where
  "threads_start n c = \<lparr>th_client = c, th_pool = init_pool n, th_counted = {}, th_done = 0\<rparr>"

inductive threads_reach ::
    "(client_label \<Rightarrow> client_sys \<Rightarrow> bool) \<Rightarrow> cdf_table option \<Rightarrow> u32 \<Rightarrow> nat \<Rightarrow> client \<Rightarrow> client_threads \<Rightarrow> bool"
  for ok cdf concurrent_flows n c where
  start: "n \<le> MAX_THREADS \<Longrightarrow> cl_active_flows c = 0
    \<Longrightarrow> threads_reach ok cdf concurrent_flows n c (threads_start n c)"
| step: "threads_reach ok cdf concurrent_flows n c s \<Longrightarrow> threads_ok ok l s
    \<Longrightarrow> threads_exec cdf concurrent_flows l s = Returned t
    \<Longrightarrow> threads_reach ok cdf concurrent_flows n c t"

lemma client_sys_of_start:
  assumes "n \<le> MAX_THREADS" "cl_active_flows c = 0"
  shows "client_sys_start n (cl_left_flows c) (client_sys_of (threads_start n c))"
proof -
  have "map (client_worker_of (in_hand (init_pool n)) {}) [0..<n] = replicate n Waiting_worker"
    by (intro nth_equalityI) (simp_all add: client_worker_of_def)
  then show ?thesis
    using assms by (simp add: client_sys_start_def client_sys_of_def stored_init threads_start_def)
      (simp add: init_pool_def)
qed

text \<open>
  The invariant: the pool is one reached with prompt signals, and a worker that has counted its flow
  has it still.
\<close>

definition threads_wf :: "nat \<Rightarrow> client_threads \<Rightarrow> bool" where
  "threads_wf n s \<longleftrightarrow> n \<le> MAX_THREADS \<and> pool_reach prompt n (th_pool s)
     \<and> (\<forall>i\<in>th_counted s. \<exists>e. worker_at (th_pool s) i = Some (Working e))"

text \<open>What a worker is seen to do depends on its event and on whether it has counted its flow.\<close>

lemma workers_update:
  assumes "length (pool_workers (th_pool t)) = length (pool_workers (th_pool s))"
    and "i < length (pool_workers (th_pool s))"
    and "client_worker_of (in_hand (th_pool t)) (th_counted t)
      = (client_worker_of (in_hand (th_pool s)) (th_counted s))(i := w)"
  shows "sys_workers (client_sys_of t) = (sys_workers (client_sys_of s))[i := w]"
  using assms by (intro nth_equalityI) (auto simp: client_sys_of_def nth_list_update)

lemma sys_worker_of:
  "sys_worker (client_sys_of s) i =
     (if i < length (pool_workers (th_pool s))
      then Some (client_worker_of (in_hand (th_pool s)) (th_counted s) i) else None)"
  by (simp add: sys_worker_def client_sys_of_def)

lemma client_sys_eqI:
  "sys_client s = sys_client t \<Longrightarrow> sys_workers s = sys_workers t \<Longrightarrow> sys_done s = sys_done t \<Longrightarrow> s = t"
  for s t :: client_sys
  by (cases s; cases t) simp

lemma workers_length:
  assumes "threads_wf n s"
  shows "length (pool_workers (th_pool s)) = n"
  using assms prompt_facts(2) by (simp add: threads_wf_def)

lemma wf_pool_step:
  assumes "threads_wf n s" "pool_exec l (th_pool s) = Some p" "prompt l (th_pool s)"
    and "\<And>i. l = Finish i \<Longrightarrow> i \<notin> set_c" "set_c \<subseteq> th_counted s"
  shows "threads_wf n (s\<lparr>th_pool := p, th_counted := set_c\<rparr>)"
proof -
  have wf: "n \<le> MAX_THREADS" "pool_reach prompt n (th_pool s)"
    "\<And>i. i \<in> th_counted s \<Longrightarrow> \<exists>e. worker_at (th_pool s) i = Some (Working e)"
    using assms(1) by (simp_all add: threads_wf_def)
  have "\<exists>e. worker_at p i = Some (Working e)" if "i \<in> set_c" for i
    using wf(3) [of i] that assms(4,5) working_kept [OF assms(2)] by blast
  moreover have "pool_reach prompt n p" using wf(2) assms(3,2) by (rule pool_reach.step)
  ultimately show ?thesis using wf(1) by (simp add: threads_wf_def)
qed

lemma threads_wf_step:
  assumes wf: "threads_wf n s" and ok: "threads_ok ok l s"
    and ex: "threads_exec cdf concurrent_flows l s = Returned t"
  shows "threads_wf n t"
proof (cases l)
  case (T_event a events fd)
  with ex obtain c e where upto: "client_event_upto cdf concurrent_flows a events fd (th_client s) = Returned (c, e)"
    by (auto simp: run_bind_eq_Returned_iff split: if_splits)
  show ?thesis
  proof (cases e)
    case None
    with ex upto T_event wf show ?thesis by (auto simp: threads_wf_def split: if_splits)
  next
    case (Some ev)
    with ex upto T_event obtain p where p: "pool_exec (Choose ev) (th_pool s) = Some p"
      "t = s\<lparr>th_client := c, th_pool := p\<rparr>"
      by (auto simp: run_bind_eq_Returned_iff split: if_splits simp del: pool_exec.simps)
    have "threads_wf n (s\<lparr>th_pool := p, th_counted := th_counted s\<rparr>)"
      by (rule wf_pool_step [OF wf p(1) prompt_choose [OF p(1)]]) simp_all
    then show ?thesis by (simp add: p(2) threads_wf_def)
  qed
next
  case (T_pool k)
  with ex obtain p where p: "pool_exec k (th_pool s) = Some p" "t = s\<lparr>th_pool := p\<rparr>" "\<And>i. k \<noteq> Finish i"
    by (auto simp: run_bind_eq_Returned_iff split: pool_label.splits simp del: pool_exec.simps)
  have "prompt k (th_pool s)" using ok T_pool by (simp add: threads_ok_def)
  then have "threads_wf n (s\<lparr>th_pool := p, th_counted := th_counted s\<rparr>)"
    using p(3) by (intro wf_pool_step [OF wf p(1)]) blast+
  then show ?thesis by (simp add: p(2) threads_wf_def)
next
  case (T_serve i stack reads ctl now)
  with ex wf show ?thesis
    by (auto simp: threads_wf_def run_bind_eq_Returned_iff split: option.splits worker.splits if_splits)
next
  case (T_release i)
  with ex obtain p where p: "pool_exec (Finish i) (th_pool s) = Some p"
    "t = s\<lparr>th_pool := p, th_counted := th_counted s - {i}\<rparr>"
    by (auto simp: run_bind_eq_Returned_iff split: if_splits simp del: pool_exec.simps)
  show ?thesis
    unfolding p(2) by (rule wf_pool_step [OF wf p(1) prompt_finish]) auto
qed

text \<open>Each step corresponds to one with atomic slots, whatever its outcome.\<close>

lemma event_simulated:
  assumes "pool_pusher (th_pool s) = Push_ready"
  shows "client_exec cdf concurrent_flows (C_event a events fd) (client_sys_of s) =
    run_bind (threads_exec cdf concurrent_flows (T_event a events fd) s) (\<lambda>t. Returned (client_sys_of t))"
proof (cases "client_event_upto cdf concurrent_flows a events fd (th_client s)")
  case (Returned r)
  obtain c e where r: "r = (c, e)" by (cases r)
  show ?thesis
  proof (cases e)
    case None
    with Returned r assms show ?thesis
      by (simp add: client_event_at_polls client_sys_of_def push_pending_def client_worker_of_def)
  next
    case (Some ev)
    obtain p where p: "pool_exec (Choose ev) (th_pool s) = Some p"
      using assms by (simp add: Let_def)
    note c = choose_atomic [OF p]
    have len: "length (pool_workers p) = length (pool_workers (th_pool s))"
      using p by (auto simp: Let_def split: if_splits)
    show ?thesis
    proof (cases "pool_pusher p = Push_exited")
      case True
      with c(2) p Some Returned r assms show ?thesis
        by (simp add: client_event_at_polls client_sys_of_def push_pending_def of_step_def
            del: pool_exec.simps)
    next
      case False
      then obtain i where "push_event (stored_polls (th_pool s)) ev = Returned (stored_polls p, i)"
        using c(3) by blast
      with False c(1) p Some Returned r assms len show ?thesis
        by (simp add: client_event_at_polls client_sys_of_def push_pending_def of_step_def
            client_worker_of_def del: pool_exec.simps)
    qed
  qed
qed (use assms in \<open>simp_all add: client_event_at_polls client_sys_of_def\<close>)

lemma serve_simulated:
  assumes i: "worker_at (th_pool s) i = Some (Working e)" "i \<notin> th_counted s"
  shows "client_exec cdf concurrent_flows (C_serve i stack reads ctl now) (client_sys_of s) =
    run_bind (threads_exec cdf concurrent_flows (T_serve i stack reads ctl now) s)
      (\<lambda>t. Returned (client_sys_of t))"
proof -
  have w: "sys_worker (client_sys_of s) i = Some (Serving e)"
    using i working_in_hand [OF i(1)] by (simp add: sys_worker_of client_worker_of_def)
  let ?t = "\<lambda>c. s\<lparr>th_client := c, th_counted := insert i (th_counted s), th_done := th_done s + 1\<rparr>"
  have "client_sys_of (?t c) = (client_sys_of s)\<lparr>sys_client := at_polls (stored_polls (th_pool s)) c,
        sys_workers := (sys_workers (client_sys_of s))[i := Counted], sys_done := th_done s + 1\<rparr>" for c
  proof (rule client_sys_eqI)
    have "client_worker_of (in_hand (th_pool s)) (insert i (th_counted s))
        = (client_worker_of (in_hand (th_pool s)) (th_counted s))(i := Counted)"
      using working_in_hand [OF i(1)] by (auto simp: client_worker_of_def fun_eq_iff split: option.split)
    then have "sys_workers (client_sys_of (?t c)) = (sys_workers (client_sys_of s))[i := Counted]"
      using i(1) by (intro workers_update) simp_all
    then show "sys_workers (client_sys_of (?t c)) = sys_workers ((client_sys_of s)
        \<lparr>sys_client := at_polls (stored_polls (th_pool s)) c,
         sys_workers := (sys_workers (client_sys_of s))[i := Counted], sys_done := th_done s + 1\<rparr>)"
      by simp
  qed (simp_all add: client_sys_of_def)
  moreover have "sys_client (client_sys_of s) = at_polls (stored_polls (th_pool s)) (th_client s)"
    "sys_done (client_sys_of s) = th_done s"
    by (simp_all add: client_sys_of_def)
  ultimately show ?thesis
    using w i by (simp add: serve_flow_at_polls run_bind_assoc case_prod_beta' del: sys_worker_Some worker_at_Some)
qed

text \<open>Two states that differ in one worker and the slots.\<close>

lemma client_sys_of_update:
  assumes "i < length (pool_workers (th_pool s))"
    and "length (pool_workers (th_pool t)) = length (pool_workers (th_pool s))"
    and "client_worker_of (in_hand (th_pool t)) (th_counted t)
      = (client_worker_of (in_hand (th_pool s)) (th_counted s))(i := w)"
    and "th_client t = th_client s" "th_done t = th_done s"
  shows "client_sys_of t = (client_sys_of s)\<lparr>sys_client := at_polls (stored_polls (th_pool t)) (th_client s),
    sys_workers := (sys_workers (client_sys_of s))[i := w]\<rparr>"
proof (rule client_sys_eqI)
  have "sys_workers (client_sys_of t) = (sys_workers (client_sys_of s))[i := w]"
    using assms(1-3) by (intro workers_update) simp_all
  then show "sys_workers (client_sys_of t) = sys_workers ((client_sys_of s)
      \<lparr>sys_client := at_polls (stored_polls (th_pool t)) (th_client s),
       sys_workers := (sys_workers (client_sys_of s))[i := w]\<rparr>)"
    by simp
qed (use assms in \<open>simp_all add: client_sys_of_def\<close>)

lemma release_simulated:
  assumes wf: "threads_wf n s" and i: "i \<in> th_counted s"
    and ex: "threads_exec cdf concurrent_flows (T_release i) s = Returned t"
  shows "client_exec cdf concurrent_flows (C_release i) (client_sys_of s) = Returned (client_sys_of t)"
proof -
  obtain p where p: "pool_exec (Finish i) (th_pool s) = Some p"
    "t = s\<lparr>th_pool := p, th_counted := th_counted s - {i}\<rparr>"
    using ex i by (auto simp: run_bind_eq_Returned_iff simp del: pool_exec.simps)
  have reach: "pool_reach prompt n (th_pool s)" "n \<le> MAX_THREADS" using wf by (simp_all add: threads_wf_def)
  note f = finish_atomic [OF reach p(1)]
  have len: "length (pool_workers (th_pool s)) = n" by (rule workers_length [OF wf])
  have "length (pool_workers p) = n"
    by (rule Finish_effect [OF p(1)]) (simp add: len)
  moreover have "client_worker_of (in_hand p) (th_counted s - {i})
      = (client_worker_of (in_hand (th_pool s)) (th_counted s))(i := Waiting_worker)"
    using f(3) by (auto simp: client_worker_of_def fun_eq_iff split: option.split)
  ultimately have t: "client_sys_of t = (client_sys_of s)\<lparr>sys_client := at_polls (stored_polls p) (th_client s),
      sys_workers := (sys_workers (client_sys_of s))[i := Waiting_worker]\<rparr>"
    using client_sys_of_update [of i s t Waiting_worker] f(1) len by (simp add: p(2))
  have "sys_worker (client_sys_of s) i = Some Counted"
    using f(1,2) len i by (auto simp: sys_worker_of client_worker_of_def)
  moreover have "set_idle i (sys_client (client_sys_of s)) = at_polls (stored_polls p) (th_client s)"
    by (simp add: client_sys_of_def set_idle_def f(4))
  ultimately show ?thesis by (simp add: t del: sys_worker_Some)
qed

lemma take_simulated:
  assumes wf: "threads_wf n s" and pops: "pops k (th_pool s) = Some i"
    and ex: "pool_exec k (th_pool s) = Some p"
  shows "client_exec cdf concurrent_flows (C_take i) (client_sys_of s)
    = Returned (client_sys_of (s\<lparr>th_pool := p\<rparr>))"
proof -
  have reach: "pool_reach prompt n (th_pool s)" "n \<le> MAX_THREADS" using wf by (simp_all add: threads_wf_def)
  note f = pop_atomic [OF reach ex pops]
  let ?e = "poll_event (pool_polls (th_pool s) ! i)"
  have len: "length (pool_workers (th_pool s)) = n" by (rule workers_length [OF wf])
  have "length (pool_workers p) = n"
    using ex pops len by (auto simp: pops_def do_pop_def Let_def split: pool_label.splits if_splits)
  moreover have "i \<notin> th_counted s"
    using wf f(2) working_in_hand by (fastforce simp: threads_wf_def)
  then have "client_worker_of (in_hand p) (th_counted s)
      = (client_worker_of (in_hand (th_pool s)) (th_counted s))(i := Serving ?e)"
    using f(4) by (auto simp: client_worker_of_def fun_eq_iff)
  ultimately have t: "client_sys_of (s\<lparr>th_pool := p\<rparr>) = (client_sys_of s)
      \<lparr>sys_client := at_polls (stored_polls p) (th_client s),
       sys_workers := (sys_workers (client_sys_of s))[i := Serving ?e]\<rparr>"
    using client_sys_of_update [of i s "s\<lparr>th_pool := p\<rparr>" "Serving ?e"] f(1) len by simp
  have "sys_worker (client_sys_of s) i = Some Waiting_worker"
    using f(1,2) len by (simp add: sys_worker_of client_worker_of_def)
  moreover have "event_pop (cl_polls (sys_client (client_sys_of s)) ! i) = Returned ?e"
    using f(3) by (simp add: client_sys_of_def)
  moreover have "(client_sys_of s)\<lparr>sys_workers := ws\<rparr>
      = (client_sys_of s)\<lparr>sys_client := at_polls (stored_polls p) (th_client s), sys_workers := ws\<rparr>" for ws
    by (rule client_sys_eqI) (simp_all add: client_sys_of_def f(5))
  ultimately show ?thesis by (simp add: t del: sys_worker_Some)
qed

lemma inner_simulated:
  assumes wf: "threads_wf n s" and pops: "pops k (th_pool s) = None"
    and ex: "threads_exec cdf concurrent_flows (T_pool k) s = Returned t"
  shows "client_sys_of t = client_sys_of s"
proof -
  have reach: "pool_reach prompt n (th_pool s)" "n \<le> MAX_THREADS" using wf by (simp_all add: threads_wf_def)
  obtain p where p: "pool_exec k (th_pool s) = Some p" "t = s\<lparr>th_pool := p\<rparr>"
    "\<And>e. k \<noteq> Choose e" "\<And>i. k \<noteq> Finish i"
    using ex by (auto simp: run_bind_eq_Returned_iff split: pool_label.splits simp del: pool_exec.simps)
  have "slots_of p = slots_of (th_pool s)" by (rule inner_atomic [OF reach p(1) pops p(3,4)])
  moreover have "length (pool_workers p) = length (pool_workers (th_pool s))"
    using p(1) by (cases k) (auto simp: do_store_def do_pop_def Let_def
        split: pusher.splits option.splits worker.splits if_splits)
  ultimately show ?thesis by (simp add: client_sys_of_def slots_of_def p(2))
qed

lemma threads_simulated:
  assumes wf: "threads_wf n s" and ex: "threads_exec cdf concurrent_flows l s = Returned t"
  shows "case client_label_of s l of
      None \<Rightarrow> client_sys_of t = client_sys_of s
    | Some k \<Rightarrow> client_exec cdf concurrent_flows k (client_sys_of s) = Returned (client_sys_of t)"
proof (cases l)
  case (T_event a events fd)
  with ex have "pool_pusher (th_pool s) = Push_ready" by (simp split: if_splits)
  with event_simulated [of s cdf concurrent_flows a events fd] ex T_event show ?thesis
    by (simp add: client_label_of_def del: client_exec.simps threads_exec.simps)
next
  case (T_pool k)
  show ?thesis
  proof (cases "pops k (th_pool s)")
    case None
    with inner_simulated [OF wf None] ex T_pool show ?thesis by (simp add: client_label_of_def)
  next
    case (Some i)
    then obtain p where "pool_exec k (th_pool s) = Some p" "t = s\<lparr>th_pool := p\<rparr>"
      using ex T_pool by (auto simp: run_bind_eq_Returned_iff pops_def
          split: pool_label.splits simp del: pool_exec.simps)
    with take_simulated [OF wf Some] Some T_pool show ?thesis
      by (simp add: client_label_of_def del: client_exec.simps)
  qed
next
  case (T_serve i stack reads ctl now)
  with ex obtain e where "worker_at (th_pool s) i = Some (Working e)" "i \<notin> th_counted s"
    by (auto split: option.splits worker.splits if_splits simp del: worker_at_Some)
  with serve_simulated [of s i e cdf concurrent_flows stack reads ctl now] ex T_serve show ?thesis
    by (simp add: client_label_of_def del: client_exec.simps threads_exec.simps)
next
  case (T_release i)
  with ex have "i \<in> th_counted s" by (auto split: if_splits)
  with release_simulated [OF wf] ex T_release show ?thesis
    by (simp add: client_label_of_def del: client_exec.simps threads_exec.simps)
qed

interpretation client_threading: step_system
  "\<lambda>s. n \<le> MAX_THREADS \<and> cl_active_flows c = 0 \<and> s = threads_start n c" "threads_ok ok"
  "\<lambda>l s. returned (threads_exec cdf concurrent_flows l s)" "threads_reach ok cdf concurrent_flows n c"
  by unfold_locales
    (auto intro: threads_reach.intros simp del: threads_exec.simps, erule threads_reach.induct, auto)

interpretation client_threading_wf: step_invariant
  "\<lambda>s. n \<le> MAX_THREADS \<and> cl_active_flows c = 0 \<and> s = threads_start n c" "threads_ok ok"
  "\<lambda>l s. returned (threads_exec cdf concurrent_flows l s)" "threads_reach ok cdf concurrent_flows n c"
  "threads_wf n"
proof unfold_locales
  show "threads_wf n s" if "n \<le> MAX_THREADS \<and> cl_active_flows c = 0 \<and> s = threads_start n c" for s
    using that by (simp add: threads_wf_def threads_start_def pool_reach.init)
qed (use threads_wf_step in auto)

lemmas threads_reach_wf = client_threading_wf.inv_reach

text \<open>A label the atomic system does not see leaves its state alone.\<close>

interpretation client_sim: simulation "client_sys_start n (cl_left_flows c)" ok
  "\<lambda>l s. returned (client_exec cdf concurrent_flows l s)" "client_reach ok cdf concurrent_flows n (cl_left_flows c)"
  "\<lambda>s. n \<le> MAX_THREADS \<and> cl_active_flows c = 0 \<and> s = threads_start n c" "threads_ok ok"
  "\<lambda>l s. returned (threads_exec cdf concurrent_flows l s)" "threads_reach ok cdf concurrent_flows n c"
  "\<lambda>s a. a = client_sys_of s"
proof unfold_locales
  show "\<exists>a. client_sys_start n (cl_left_flows c) a \<and> a = client_sys_of s"
    if "n \<le> MAX_THREADS \<and> cl_active_flows c = 0 \<and> s = threads_start n c" for s
    using that client_sys_of_start by blast
  show "a = client_sys_of t \<or> (\<exists>k a'. ok k a \<and> returned (client_exec cdf concurrent_flows k a) = Some a' \<and> a' = client_sys_of t)"
    if "threads_reach ok cdf concurrent_flows n c s" "a = client_sys_of s" "threads_ok ok l s"
      "returned (threads_exec cdf concurrent_flows l s) = Some t" for s a l t
    using threads_simulated [OF threads_reach_wf [OF that(1)], of cdf concurrent_flows l t] that(2-4)
    by (cases "client_label_of s l") (auto simp: threads_ok_def simp del: client_exec.simps)
qed

text \<open>
  C7.  With prompt signals, the threads of the client refine the system of atomic steps of
  \<open>FG_Client_Steps\<close>: every state they reach is seen there as a reachable state, under any discipline on
  the atomic steps, and each step they take from it is one atomic step or is not seen at all.
\<close>

theorem client_threads_refine:
  assumes "threads_reach ok cdf concurrent_flows n c s"
  shows "client_reach ok cdf concurrent_flows n (cl_left_flows c) (client_sys_of s)
    \<and> (\<forall>l t. threads_exec cdf concurrent_flows l s = Returned t \<longrightarrow>
         (case client_label_of s l of
            None \<Rightarrow> client_sys_of t = client_sys_of s
          | Some k \<Rightarrow> client_exec cdf concurrent_flows k (client_sys_of s) = Returned (client_sys_of t)))"
  using client_sim.seen [OF assms] threads_simulated [OF threads_reach_wf [OF assms]]
  by (auto simp del: client_exec.simps threads_exec.simps)

section \<open>Safety of the threads\<close>

lemma threads_expected:
  assumes "threads_reach (expected cdf n entries) cdf concurrent_flows n c s"
  shows "client_runs cdf concurrent_flows n entries (client_sys_of (threads_start n c)) (client_sys_of s)"
  using assms
proof (induction rule: threads_reach.induct)
  case start
  show ?case by (rule client_runs.none)
next
  case (step s l t)
  note sim = threads_simulated [OF threads_reach_wf [OF step.hyps(1)] step.hyps(3)]
  show ?case
  proof (cases "client_label_of s l")
    case None
    with sim step.IH show ?thesis by simp
  next
    case (Some k)
    with step.hyps(2) have "expected cdf n entries k (client_sys_of s)" by (simp add: threads_ok_def)
    with sim step.IH Some show ?thesis by (auto intro: client_runs.more)
  qed
qed

lemma reach_start_facts:
  "threads_reach ok cdf concurrent_flows n c s \<Longrightarrow> n \<le> MAX_THREADS \<and> cl_active_flows c = 0"
  by (induction rule: threads_reach.induct) simp_all


section \<open>An example\<close>

lemma sample_threads: "client_sys_of (threads_start 1 sample_client) = sample_sys"
  by (rule client_sys_eqI)
    (simp_all add: client_sys_of_def threads_start_def stored_init sample_sys_def client_worker_of_def,
     simp_all add: init_pool_def sample_client_def client_worker_of_def in_hand_def)

lemma sample_threads_event:
  obtains t where
    "threads_exec (Some conf_table) 1 (T_event sample_answers EPOLLOUT 5) (threads_start 1 sample_client) = Returned t"
proof -
  obtain c where "client_event (Some conf_table) 1 sample_answers EPOLLOUT 5 sample_client = Returned c"
    using started_client by blast
  then have "client_exec (Some conf_table) 1 (C_event sample_answers EPOLLOUT 5) sample_sys
      = Returned (sample_sys\<lparr>sys_client := c\<rparr>)"
    by (simp add: sample_sys_def)
  moreover have "pool_pusher (th_pool (threads_start 1 sample_client)) = Push_ready"
    by (simp add: threads_start_def init_pool_def)
  from event_simulated [OF this, of "Some conf_table" 1 sample_answers EPOLLOUT 5]
  have "client_exec (Some conf_table) 1 (C_event sample_answers EPOLLOUT 5) sample_sys
      = run_bind (threads_exec (Some conf_table) 1 (T_event sample_answers EPOLLOUT 5) (threads_start 1 sample_client))
          (\<lambda>t. Returned (client_sys_of t))"
    unfolding sample_threads .
  ultimately have "run_bind (threads_exec (Some conf_table) 1 (T_event sample_answers EPOLLOUT 5)
      (threads_start 1 sample_client)) (\<lambda>t. Returned (client_sys_of t)) = Returned (sample_sys\<lparr>sys_client := c\<rparr>)"
    by simp
  then show thesis
    by (cases "threads_exec (Some conf_table) 1 (T_event sample_answers EPOLLOUT 5) (threads_start 1 sample_client)")
      (simp_all only: that run_bind.simps run.distinct)
qed

theorem client_threads_refine_witness:
  "\<exists>t. threads_exec (Some conf_table) 1 (T_event sample_answers EPOLLOUT 5) (threads_start 1 sample_client) = Returned t
     \<and> client_exec (Some conf_table) 1 (C_event sample_answers EPOLLOUT 5) sample_sys = Returned (client_sys_of t)"
proof -
  obtain t where t: "threads_exec (Some conf_table) 1 (T_event sample_answers EPOLLOUT 5)
      (threads_start 1 sample_client) = Returned t"
    using sample_threads_event .
  have "threads_reach any_order (Some conf_table) 1 1 sample_client (threads_start 1 sample_client)"
    by (rule threads_reach.start) (simp_all add: MAX_THREADS_def sample_client_facts)
  from client_threads_refine [OF this] t
  have "client_exec (Some conf_table) 1 (C_event sample_answers EPOLLOUT 5)
      (client_sys_of (threads_start 1 sample_client)) = Returned (client_sys_of t)"
    by (fastforce simp: client_label_of_def simp del: client_exec.simps threads_exec.simps)
  with t show ?thesis unfolding sample_threads by blast
qed


end
