(* ===== verification/FG_Pool_Live.thy ===== *)
theory FG_Pool_Live
  imports FG_Pool_Atomic
begin

text \<open>
  Progress of the slots with prompt signals (\<open>event_push\<close> and \<open>event_pop\<close> in \<open>common/thread_poll.c\<close>): a push goes
  on until it is done, the worker of a busy slot goes on until it has its event, and both in a bounded
  number of steps.  The liveness of both programs rests on these lemmas.
\<close>

section \<open>Steps inside a push or a pop\<close>

text \<open>
  How many steps can come before the next one that \<open>FG_Client_Steps\<close> sees: storing and signalling in a push,
  starting a wait, and the signal after a pop.
\<close>

fun pusher_effort :: "pusher \<Rightarrow> nat" where
  "pusher_effort (Push_chosen i e) = 2"
| "pusher_effort (Push_signal i) = 1"
| "pusher_effort _ = 0"

fun worker_effort :: "worker \<Rightarrow> nat" where
  "worker_effort Pop_start = 1"
| "worker_effort (Pop_unlocked e) = 1"
| "worker_effort _ = 0"

definition pool_effort :: "pool \<Rightarrow> nat" where
  "pool_effort p = pusher_effort (pool_pusher p) + sum_list (map worker_effort (pool_workers p))"

lemma workers_effort_update:
  assumes "i < length ws"
  shows "sum_list (map worker_effort (ws[i := w])) + worker_effort (ws ! i)
    = sum_list (map worker_effort ws) + worker_effort w"
proof -
  have "worker_effort (ws ! i) \<le> sum_list (map worker_effort ws)"
    using assms by (intro member_le_sum_list) auto
  then show ?thesis using assms by (simp add: map_update sum_list_update)
qed

lemma effort_init: "pool_effort (init_pool n) = n"
  by (simp add: pool_effort_def init_pool_def sum_list_replicate)

lemma effort_choose: "pool_exec (Choose e) p = Some q \<Longrightarrow> pool_effort q \<le> pool_effort p + 2"
  by (auto simp: pool_effort_def Let_def split: if_splits)

lemma effort_finish:
  assumes "pool_exec (Finish i) p = Some q"
  shows "pool_effort q \<le> pool_effort p + 1"
proof (rule Finish_effect [OF assms])
  fix e
  assume "i < length (pool_workers p)" "pool_workers p ! i = Working e"
    "q = p\<lparr>pool_workers := (pool_workers p)[i := Pop_start], pool_polls := release_slot (pool_polls p) i\<rparr>"
  with workers_effort_update [of i "pool_workers p" Pop_start] show ?thesis by (simp add: pool_effort_def)
qed

lemma effort_pops:
  assumes "pool_exec l p = Some q" "pops l p = Some i"
  shows "pool_effort q \<le> pool_effort p + 1"
proof -
  have "i < length (pool_workers p)" "q = do_pop i p"
    using assms by (auto simp: pops_def split: pool_label.splits if_splits)
  with workers_effort_update [of i "pool_workers p" "Pop_unlocked (poll_event (pool_polls p ! i))"] show ?thesis
    by (simp add: pool_effort_def do_pop_def Let_def)
qed

lemma effort_inner:
  assumes ok: "pool_ok n p" and ex: "pool_exec l p = Some q" and l: "pops l p = None" "prompt l p"
    "\<And>e. l \<noteq> Choose e" "\<And>i. l \<noteq> Finish i"
  shows "Suc (pool_effort q) = pool_effort p"
proof (cases l)
  case Store
  with ok ex show ?thesis
    by (auto simp: pool_ok_def pusher_ok_def pool_effort_def do_store_def split: pusher.splits)
next
  case Signal
  with ex obtain i where i: "pool_pusher p = Push_signal i"
    "q = p\<lparr>pool_pusher := Push_ready, pool_workers := (if worker_at p i = Some Pop_waiting
       then (pool_workers p)[i := Pop_woken] else pool_workers p)\<rparr>"
    by (auto split: pusher.splits)
  with workers_effort_update [of i "pool_workers p" Pop_woken] show ?thesis
    by (auto simp: pool_effort_def)
next
  case (Lock i)
  with ex l(1) have "i < length (pool_workers p)" "pool_workers p ! i = Pop_start"
    "q = p\<lparr>pool_workers := (pool_workers p)[i := Pop_waiting]\<rparr>"
    by (auto simp: pops_def split: if_splits)
  with workers_effort_update [of i "pool_workers p" Pop_waiting] show ?thesis by (simp add: pool_effort_def)
next
  case (Signal_idle i)
  with ex ok show ?thesis
  proof (rule_tac Signal_idle_effect)
    fix e
    assume "i < length (pool_workers p)" "pool_workers p ! i = Pop_unlocked e"
      "q = p\<lparr>pool_workers := (pool_workers p)[i := Working e]\<rparr>"
    with workers_effort_update [of i "pool_workers p" "Working e"] show ?thesis by (simp add: pool_effort_def)
  qed simp_all
next
  case (Spurious i)
  with l(2) show ?thesis by (simp add: prompt_def no_spurious_def)
qed (use l in \<open>simp_all add: pops_def\<close>)

lemma not_exited:
  assumes "pool_exec l p = Some q" "pool_pusher p \<noteq> Push_exited" "\<And>e. l \<noteq> Choose e"
  shows "pool_pusher q \<noteq> Push_exited"
  using assms
  by (cases l) (auto simp: do_store_def do_pop_def Let_def
      split: pusher.splits option.splits worker.splits if_splits)

section \<open>Going on\<close>

lemma push_can_go_on:
  assumes "pool_reach prompt n p" "n \<le> MAX_THREADS" "pool_pusher p \<noteq> Push_ready" "pool_pusher p \<noteq> Push_exited"
  shows "\<exists>l\<in>{Store, Signal}. \<exists>q. prompt l p \<and> pool_exec l p = Some q"
proof -
  consider (chosen) i e where "pool_pusher p = Push_chosen i e" | (signal) i where "pool_pusher p = Push_signal i"
    using prompt_facts(1) [OF assms(1,2)] assms(3,4)
    by (cases "pool_pusher p") (auto simp: pool_ok_def pusher_ok_def)
  then show ?thesis
  proof cases
    case chosen
    with chosen_idle(2) [OF assms(1,2) chosen] show ?thesis
      by (simp add: flag_defs prompt_def no_spurious_def)
  qed (simp add: prompt_def no_spurious_def)
qed

lemma busy_worker_can_go_on:
  assumes reach: "pool_reach prompt n p" "n \<le> MAX_THREADS" and ready: "pool_pusher p = Push_ready"
    and i: "i \<in> polls.busy n (pool_polls p)"
  shows "(\<exists>l\<in>{Lock i, Resume i, Signal_idle i}. \<exists>q. prompt l p \<and> pool_exec l p = Some q)
    \<or> (\<exists>e. worker_at p i = Some (Working e))"
proof -
  note facts = prompt_facts [OF reach]
  have n: "i < n" using i by (rule busy_less)
  have len: "i < length (pool_workers p)" using n facts(2) by simp
  have flag: "poll_flag (pool_polls p ! i) = THREAD_BUSY"
    using i facts(3) facts(5) [of i] n reach(2) by (auto simp: polls.busy_def idle_slots_def)
  have prompt: "prompt l p" if "\<And>j. l \<noteq> Spurious j" for l
    using that ready by (cases l) (auto simp: prompt_def no_spurious_def)
  have "pool_workers p ! i \<noteq> Pop_waiting"
    using facts(4) [OF n] flag ready by (auto simp: slot_ok_def)
  then consider "pool_workers p ! i = Pop_start" | "pool_workers p ! i = Pop_woken"
    | e where "pool_workers p ! i = Pop_unlocked e" | e where "pool_workers p ! i = Working e"
    by (cases "pool_workers p ! i") auto
  then show ?thesis
    by cases (use len flag prompt [of "Lock i"] prompt [of "Resume i"] prompt [of "Signal_idle i"] in
      \<open>auto simp: flag_defs worker_at_def\<close>)
qed

section \<open>The events in the slots\<close>

text \<open>An event stored has still to be taken and to be finished, an event taken only to be finished.\<close>

definition slots_work :: "nat \<Rightarrow> slots \<Rightarrow> nat" where
  "slots_work n s = (\<Sum>i\<in>polls.busy n (fst s). if snd s i = None then 2 else 1)"

lemma slots_work_bound: "slots_work n s \<le> 2 * n"
proof -
  have "slots_work n s \<le> (\<Sum>i\<in>polls.busy n (fst s). 2)"
    unfolding slots_work_def by (intro sum_mono) simp
  also have "\<dots> \<le> 2 * n"
    using card_mono [of "{..<n}" "polls.busy n (fst s)"] by (auto simp: polls.busy_def)
  finally show ?thesis .
qed

lemma slots_work_split:
  assumes "i \<in> polls.busy n ps"
  shows "slots_work n (ps, held) = (if held i = None then 2 else 1)
    + (\<Sum>j\<in>polls.busy n ps - {i}. if held j = None then 2 else 1)"
  unfolding slots_work_def fst_conv snd_conv by (rule sum.remove) (simp_all add: assms)

lemma other_slots:
  "(\<Sum>j\<in>A - {i}. if (held(i := x)) j = None then 2 else 1) = (\<Sum>j\<in>A - {i}. if held j = None then 2 else (1::nat))"
  by (intro sum.cong) auto

lemma slots_work_take:
  assumes "i \<in> polls.busy n ps" "held i = None"
  shows "Suc (slots_work n (ps, held(i \<mapsto> e))) = slots_work n (ps, held)"
  unfolding slots_work_split [OF assms(1)] other_slots by (simp add: assms(2))

lemma slots_work_release:
  assumes "wf_polls n ps" "i \<in> polls.busy n ps" "held i = Some e"
  shows "Suc (slots_work n (release_slot ps i, held(i := None))) = slots_work n (ps, held)"
  unfolding slots_work_split [OF assms(2)]
  by (simp add: slots_work_def polls.release_makes_idle(3) [OF assms(1,2)] other_slots assms(3) del: fun_upd_apply)

end
