(* ===== verification/FG_Client_Live.thy ===== *)
theory FG_Client_Live
  imports FG_Client_Progress FG_Client_Threads FG_Pool_Live
begin

text \<open>
  The threads of the client end their flows also at the grain of \<open>FG_Pool_Steps\<close>, with the mutexes, waits
  and signals of \<open>event_push\<close> and \<open>event_pop\<close>: there is no deadlock, no lost wake-up, and no run that goes on
  for ever, as long as signals are prompt and the system behaves as expected.
\<close>

section \<open>Runs of the threads\<close>

inductive thread_flow_runs ::
    "cdf_table option \<Rightarrow> u32 \<Rightarrow> nat \<Rightarrow> nat \<Rightarrow> client \<Rightarrow> nat \<Rightarrow> client_threads \<Rightarrow> bool"
  for cdf concurrent_flows n entries c where
  none: "thread_flow_runs cdf concurrent_flows n entries c 0 (threads_start n c)"
| more: "thread_flow_runs cdf concurrent_flows n entries c k s
    \<Longrightarrow> threads_ok (brings_forward cdf concurrent_flows n entries) l s
    \<Longrightarrow> threads_exec cdf concurrent_flows l s = Returned t
    \<Longrightarrow> thread_flow_runs cdf concurrent_flows n entries c (Suc k) t"

definition threads_work :: "nat \<Rightarrow> client_threads \<Rightarrow> nat" where
  "threads_work n s = 3 * client_work n (client_sys_of s) + pool_effort (th_pool s)"

definition live_ok :: "nat \<Rightarrow> u32 \<Rightarrow> u32 \<Rightarrow> nat \<Rightarrow> client_threads \<Rightarrow> bool" where
  "live_ok n concurrent_flows flows entries s \<longleftrightarrow>
     threads_wf n s \<and> pool_pusher (th_pool s) \<noteq> Push_exited
   \<and> progress_ok n concurrent_flows flows entries (client_sys_of s)"

lemma live_ok_pool:
  assumes "live_ok n concurrent_flows flows entries s"
  shows "pool_reach prompt n (th_pool s)" "n \<le> MAX_THREADS" "pool_ok n (th_pool s)"
  using assms prompt_facts(1) by (simp_all add: live_ok_def threads_wf_def)

text \<open>What a step does to the pool: an unseen step is one inside a push or a pop.\<close>

lemma threads_effort:
  assumes ok: "live_ok n concurrent_flows flows entries s"
    and l: "threads_ok ok l s" and ex: "threads_exec cdf concurrent_flows l s = Returned t"
  shows "pool_pusher (th_pool t) \<noteq> Push_exited"
    "client_label_of s l = None \<Longrightarrow> Suc (pool_effort (th_pool t)) = pool_effort (th_pool s)"
    "client_label_of s l \<noteq> None \<Longrightarrow> pool_effort (th_pool t) \<le> pool_effort (th_pool s) + 2"
proof -
  note pool = live_ok_pool [OF ok]
  have old: "pool_pusher (th_pool s) \<noteq> Push_exited" using ok by (simp add: live_ok_def)
  have "pool_pusher (th_pool t) \<noteq> Push_exited
    \<and> (if client_label_of s l = None then Suc (pool_effort (th_pool t)) = pool_effort (th_pool s)
       else pool_effort (th_pool t) \<le> pool_effort (th_pool s) + 2)"
  proof (cases l)
    case (T_event a events fd)
    with ex consider "th_pool t = th_pool s"
      | e where "pool_exec (Choose e) (th_pool s) = Some (th_pool t)" "pool_pusher (th_pool t) \<noteq> Push_exited"
      by (auto simp: run_bind_eq_Returned_iff split: if_splits option.splits simp del: pool_exec.simps)
    then show ?thesis
      by cases (use old effort_choose T_event in \<open>auto simp: client_label_of_def simp del: pool_exec.simps\<close>)
  next
    case (T_pool k)
    with ex obtain p where p: "pool_exec k (th_pool s) = Some p" "t = s\<lparr>th_pool := p\<rparr>"
      "\<And>e. k \<noteq> Choose e" "\<And>i. k \<noteq> Finish i"
      by (auto simp: run_bind_eq_Returned_iff split: pool_label.splits simp del: pool_exec.simps)
    have "prompt k (th_pool s)" using l T_pool by (simp add: threads_ok_def)
    with p effort_inner [OF pool(3) p(1)] effort_pops [OF p(1)] not_exited [OF p(1) old p(3)] T_pool
    show ?thesis by (cases "pops k (th_pool s)") (auto simp: client_label_of_def)
  next
    case (T_serve i stack reads ctl now)
    with ex have "th_pool t = th_pool s"
      by (auto simp: run_bind_eq_Returned_iff split: option.splits worker.splits if_splits)
    with T_serve old show ?thesis by (simp add: client_label_of_def)
  next
    case (T_release i)
    with ex have p: "pool_exec (Finish i) (th_pool s) = Some (th_pool t)"
      by (auto simp: run_bind_eq_Returned_iff split: if_splits simp del: pool_exec.simps)
    with T_release effort_finish [OF p] not_exited [OF p old] show ?thesis
      by (auto simp: client_label_of_def)
  qed
  then show "pool_pusher (th_pool t) \<noteq> Push_exited"
    "client_label_of s l = None \<Longrightarrow> Suc (pool_effort (th_pool t)) = pool_effort (th_pool s)"
    "client_label_of s l \<noteq> None \<Longrightarrow> pool_effort (th_pool t) \<le> pool_effort (th_pool s) + 2"
    by (auto split: if_splits)
qed

text \<open>Every step decreases the work left.\<close>

lemma threads_step_counts:
  assumes ok: "live_ok n concurrent_flows flows entries s" and enough: "unat concurrent_flows \<le> n"
    and l: "threads_ok (brings_forward cdf concurrent_flows n entries) l s"
    and ex: "threads_exec cdf concurrent_flows l s = Returned t"
  shows "live_ok n concurrent_flows flows entries t \<and> threads_work n t < threads_work n s"
proof -
  have wf: "threads_wf n s" and progress: "progress_ok n concurrent_flows flows entries (client_sys_of s)"
    using ok by (simp_all add: live_ok_def)
  note effort = threads_effort [OF ok l ex] and sim = threads_simulated [OF wf ex]
  have wf': "threads_wf n t" by (rule threads_wf_step [OF wf l ex])
  show ?thesis
  proof (cases "client_label_of s l")
    case None
    with sim effort(1,2) progress wf' show ?thesis by (simp add: live_ok_def threads_work_def)
  next
    case (Some k)
    then have "brings_forward cdf concurrent_flows n entries k (client_sys_of s)"
      "client_exec cdf concurrent_flows k (client_sys_of s) = Returned (client_sys_of t)"
      using l sim by (simp_all add: threads_ok_def)
    from forward_counts [OF progress enough this] effort(1,3) Some wf' show ?thesis
      by (auto simp: live_ok_def threads_work_def)
  qed
qed

lemma thread_flow_runs_count:
  assumes "thread_flow_runs cdf concurrent_flows n entries c k s"
    and "live_ok n concurrent_flows flows entries (threads_start n c)" "unat concurrent_flows \<le> n"
  shows "live_ok n concurrent_flows flows entries s \<and> threads_work n s + k \<le> threads_work n (threads_start n c)"
  using assms
proof (induction rule: thread_flow_runs.induct)
  case (more k s l t)
  with threads_step_counts [OF _ _ more.hyps(2,3)] show ?case by force
qed simp

section \<open>No deadlock\<close>

definition can_step :: "cdf_table option \<Rightarrow> u32 \<Rightarrow> nat \<Rightarrow> nat \<Rightarrow> client_threads \<Rightarrow> bool" where
  "can_step cdf concurrent_flows n entries s \<longleftrightarrow>
     (\<exists>l t. threads_ok (brings_forward cdf concurrent_flows n entries) l s
        \<and> threads_exec cdf concurrent_flows l s = Returned t)"

lemma can_step_pool:
  assumes "pool_exec k (th_pool s) = Some p" "prompt k (th_pool s)"
    and "\<And>e. k \<noteq> Choose e" "\<And>i. k \<noteq> Finish i"
  shows "can_step cdf concurrent_flows n entries s"
proof -
  have "threads_ok (brings_forward cdf concurrent_flows n entries) (T_pool k) s"
    using assms(2) by (auto simp: threads_ok_def client_label_of_def brings_forward_def starts_flow_def
        split: option.split)
  moreover have "threads_exec cdf concurrent_flows (T_pool k) s = Returned (s\<lparr>th_pool := p\<rparr>)"
    using assms by (cases k) (auto simp: of_step_def simp del: pool_exec.simps)
  ultimately show ?thesis unfolding can_step_def by blast
qed

text \<open>The epoll thread never gets stuck in a push.\<close>

lemma push_goes_on:
  assumes "live_ok n concurrent_flows flows entries s" "pool_pusher (th_pool s) \<noteq> Push_ready"
  shows "can_step cdf concurrent_flows n entries s"
proof -
  have "pool_pusher (th_pool s) \<noteq> Push_exited" using assms(1) by (simp add: live_ok_def)
  from push_can_go_on [OF live_ok_pool(1,2) [OF assms(1)] assms(2) this] show ?thesis
    by (auto intro: can_step_pool simp del: pool_exec.simps)
qed

text \<open>The worker of a busy slot goes on: it is not asleep, because the signal has been sent.\<close>

lemma busy_goes_on:
  assumes ok: "live_ok n concurrent_flows flows entries s" and ready: "pool_pusher (th_pool s) = Push_ready"
    and i: "i \<in> polls.busy n (pool_polls (th_pool s))"
  shows "can_step cdf concurrent_flows n entries s"
proof -
  let ?p = "th_pool s"
  consider k p where "k \<in> {Lock i, Resume i, Signal_idle i}" "prompt k ?p" "pool_exec k ?p = Some p"
    | e where "worker_at ?p i = Some (Working e)"
    using busy_worker_can_go_on [OF live_ok_pool(1,2) [OF ok] ready i] by blast
  then show ?thesis
  proof cases
    case (1 k p)
    then show ?thesis by (auto intro!: can_step_pool [of k s p] simp del: pool_exec.simps)
  next
    case (2 e)
    note at = this
    show ?thesis
    proof (cases "i \<in> th_counted s")
      case True
      have "threads_ok (brings_forward cdf concurrent_flows n entries) (T_release i) s"
        by (simp add: threads_ok_def client_label_of_def brings_forward_def starts_flow_def)
      moreover have "\<exists>t. threads_exec cdf concurrent_flows (T_release i) s = Returned t"
        using at True by (simp add: of_step_def worker_at_def)
      ultimately show ?thesis unfolding can_step_def by blast
    next
      case False
      let ?l = "T_serve i (replicate MAX_READ_BUFF 0) [Read_error (Other_errno 104)] 0 \<lparr>tv_sec = 0, tv_usec = 0\<rparr>"
      let ?k = "C_serve i (replicate MAX_READ_BUFF 0) [Read_error (Other_errno 104)] 0 \<lparr>tv_sec = 0, tv_usec = 0\<rparr>"
      have "sys_worker (client_sys_of s) i = Some (Serving e)"
        using at False working_in_hand [OF at] by (simp add: sys_worker_of client_worker_of_def)
      then have serving: "i < length (sys_workers (client_sys_of s))" "sys_workers (client_sys_of s) ! i = Serving e"
        by simp_all
      have "read_responce (replicate MAX_READ_BUFF 0) (sint (ev_flow_size e)) [Read_error (Other_errno 104)]
          = Returned (-1, [])" by (simp add: read_responce_def)
      then obtain u where "client_exec cdf concurrent_flows ?k (client_sys_of s) = Returned u"
        using serve_possible [of n concurrent_flows flows entries, OF _ serving] ok
        unfolding live_ok_def by blast
      then obtain t where "threads_exec cdf concurrent_flows ?l s = Returned t"
        using serve_simulated [OF at False, of cdf concurrent_flows]
        by (auto simp: run_bind_eq_Returned_iff simp del: threads_exec.simps client_exec.simps)
      moreover have "threads_ok (brings_forward cdf concurrent_flows n entries) ?l s"
        by (simp add: threads_ok_def client_label_of_def brings_forward_def starts_flow_def total_arrived_def INT_MAX_def)
      ultimately show ?thesis unfolding can_step_def by blast
    qed
  qed
qed

text \<open>When all slots are idle and flows are left, the epoll thread can start one.\<close>

lemma idle_goes_on:
  assumes ok: "live_ok n concurrent_flows flows entries s" and ready: "pool_pusher (th_pool s) = Push_ready"
    and idle: "polls.busy n (pool_polls (th_pool s)) = {}" and left: "cl_left_flows (th_client s) \<noteq> 0"
    and enough: "0 < concurrent_flows" "unat concurrent_flows \<le> n"
    and table: "unat flows < entries" "int entries \<le> MAX_FLOWS" and size: "get_flow_size cdf r = Returned k"
  shows "can_step cdf concurrent_flows n entries s"
proof -
  have progress: "progress_ok n concurrent_flows flows entries (client_sys_of s)" using ok by (simp add: live_ok_def)
  have "polls.busy n (cl_polls (sys_client (client_sys_of s))) = {}"
    "cl_left_flows (sys_client (client_sys_of s)) \<noteq> 0"
    using idle left by (simp_all add: client_sys_of_def stored_polls_ready [OF ready])
  then obtain a fd u where
    "brings_forward cdf concurrent_flows n entries (C_event a EPOLLOUT fd) (client_sys_of s)"
    and ex: "client_exec cdf concurrent_flows (C_event a EPOLLOUT fd) (client_sys_of s) = Returned u"
    using idle_can_go_on [OF progress _ _ enough table size] by blast
  then have "threads_ok (brings_forward cdf concurrent_flows n entries) (T_event a EPOLLOUT fd) s"
    by (simp add: threads_ok_def client_label_of_def)
  moreover have "\<exists>t. threads_exec cdf concurrent_flows (T_event a EPOLLOUT fd) s = Returned t"
    using ex unfolding event_simulated [OF ready] by (auto simp: run_bind_eq_Returned_iff simp del: threads_exec.simps)
  ultimately show ?thesis unfolding can_step_def by blast
qed

lemma live_ok_start:
  assumes "n \<le> MAX_THREADS" "cl_active_flows c = 0" "holds_rows (cl_time_table c) rows fcts"
    and "\<forall>x\<in>set rows. ft_fd x = 0"
  shows "live_ok n concurrent_flows (cl_left_flows c) (length rows) (threads_start n c)"
    "threads_work n (threads_start n c) = 12 * unat (cl_left_flows c) + n"
proof -
  have start: "client_sys_start n (cl_left_flows c) (client_sys_of (threads_start n c))"
    by (rule client_sys_of_start [OF assms(1,2)])
  have "holds_rows (cl_time_table (sys_client (client_sys_of (threads_start n c)))) rows fcts"
    using assms(3) by (simp add: client_sys_of_def threads_start_def)
  then have "progress_ok n concurrent_flows (cl_left_flows c) (length rows) (client_sys_of (threads_start n c))"
    by (rule progress_ok_start [OF start _ assms(4)])
  moreover have "threads_wf n (threads_start n c)"
    using assms(1) by (simp add: threads_wf_def threads_start_def pool_reach.init)
  ultimately show "live_ok n concurrent_flows (cl_left_flows c) (length rows) (threads_start n c)"
    by (simp add: live_ok_def) (simp add: threads_start_def init_pool_def)
  show "threads_work n (threads_start n c) = 12 * unat (cl_left_flows c) + n"
    using client_work_start [OF start] by (simp add: threads_work_def) (simp add: threads_start_def effort_init)
qed



end
