(* ===== verification/FG_Client_Counters.thy ===== *)
theory FG_Client_Counters
  imports FG_Thread_Poll
begin

text \<open>
  The counters \<open>active_flows\<close> and \<open>left_flows\<close> that the threads of the client share, at the grain of
  single loads and stores (\<open>epoll_client\<close> and \<open>request_thread\<close> in \<open>client/client.c\<close>).  Workers decrement
  both under the mutex \<open>lock\<close>; the epoll thread tests and increments \<open>active_flows\<close> without it.

  \<open>FG_Client_Steps\<close> takes an increment and the decrements to be one step each.  Here is shown when this is
  so, and what happens otherwise.
\<close>

section \<open>States and steps\<close>

text \<open>
  Where the epoll thread is: about to test \<open>active_flows\<close>, to load it for the increment, to store the
  sum, or to push the flow that has been counted.
\<close>

datatype counting_epoll =
    Testing
  | Loading
  | Storing u32
  | Pushing

text \<open>
  Where a worker is: without a flow, reading a response, with the lock, between the loads and the stores
  of the two decrements, before the unlock, and before it marks its slot idle.
\<close>

datatype counting_worker =
    Free
  | Reading
  | Locked
  | Loaded_active u32
  | Stored_active
  | Loaded_left u32
  | Stored_left
  | Unlocked

text \<open>\<open>co_finished\<close> is the number of flows whose worker has stored \<open>left_flows\<close>.\<close>

record counters =
  co_active :: u32
  co_left :: u32
  co_lock :: "nat option"
  co_epoll :: counting_epoll
  co_workers :: "counting_worker list"
  co_finished :: nat

text \<open>The epoll thread or a worker makes its next access; each has one way to go on.\<close>

datatype counter_label = K_epoll | K_worker nat

text \<open>\<open>event_push\<close> takes the first free slot, and ends the program when there is none.\<close>

definition first_free :: "counting_worker list \<Rightarrow> nat option" where
  "first_free ws = find (\<lambda>i. ws ! i = Free) [0..<length ws]"

definition epoll_step :: "u32 \<Rightarrow> counters \<Rightarrow> counters run" where
  "epoll_step concurrent_flows s =
     (case co_epoll s of
        Testing \<Rightarrow>
          Returned (if co_active s < concurrent_flows then s\<lparr>co_epoll := Loading\<rparr> else s)
      | Loading \<Rightarrow> Returned (s\<lparr>co_epoll := Storing (co_active s + 1)\<rparr>)
      | Storing v \<Rightarrow> Returned (s\<lparr>co_active := v, co_epoll := Pushing\<rparr>)
      | Pushing \<Rightarrow>
          (case first_free (co_workers s) of
             None \<Rightarrow> Exited EXIT_SUCCESS
           | Some i \<Rightarrow> Returned (s\<lparr>co_epoll := Testing, co_workers := (co_workers s)[i := Reading]\<rparr>)))"

text \<open>The next place of worker \<open>i\<close>, with the shared variables it leaves.\<close>

fun worker_step :: "nat \<Rightarrow> counting_worker \<Rightarrow> counters \<Rightarrow> (counting_worker \<times> counters) run" where
  "worker_step i Free s = Blocked"
| "worker_step i Reading s =
     (if co_lock s = None then Returned (Locked, s\<lparr>co_lock := Some i\<rparr>) else Blocked)"
| "worker_step i Locked s = Returned (Loaded_active (co_active s), s)"
| "worker_step i (Loaded_active v) s = Returned (Stored_active, s\<lparr>co_active := v - 1\<rparr>)"
| "worker_step i Stored_active s = Returned (Loaded_left (co_left s), s)"
| "worker_step i (Loaded_left v) s =
     Returned (Stored_left, s\<lparr>co_left := v - 1, co_finished := co_finished s + 1\<rparr>)"
| "worker_step i Stored_left s = Returned (Unlocked, s\<lparr>co_lock := None\<rparr>)"
| "worker_step i Unlocked s = Returned (Free, s)"

fun counters_exec :: "u32 \<Rightarrow> counter_label \<Rightarrow> counters \<Rightarrow> counters run" where
  "counters_exec concurrent_flows K_epoll s = epoll_step concurrent_flows s"
| "counters_exec concurrent_flows (K_worker i) s =
     (if i < length (co_workers s) then
        run_bind (worker_step i (co_workers s ! i) s) (\<lambda>(w, t).
          Returned (t\<lparr>co_workers := (co_workers s)[i := w]\<rparr>))
      else Blocked)"

definition counters_start :: "nat \<Rightarrow> u32 \<Rightarrow> counters" where
  "counters_start n flows =
     \<lparr>co_active = 0, co_left = flows, co_lock = None, co_epoll = Testing,
      co_workers = replicate n Free, co_finished = 0\<rparr>"

inductive counters_reach ::
    "(counter_label \<Rightarrow> counters \<Rightarrow> bool) \<Rightarrow> u32 \<Rightarrow> nat \<Rightarrow> u32 \<Rightarrow> counters \<Rightarrow> bool"
  for ok concurrent_flows n flows where
  start: "counters_reach ok concurrent_flows n flows (counters_start n flows)"
| step: "counters_reach ok concurrent_flows n flows s \<Longrightarrow> ok l s
    \<Longrightarrow> counters_exec concurrent_flows l s = Returned t
    \<Longrightarrow> counters_reach ok concurrent_flows n flows t"

definition any_access :: "counter_label \<Rightarrow> counters \<Rightarrow> bool" where
  "any_access l s = True"

text \<open>
  The accesses of \<open>active_flows\<close> exclude each other, as they would if the epoll thread took the lock for
  its increment: nobody else loads or stores the counter between a load and its store.
\<close>

definition exclusive :: "counter_label \<Rightarrow> counters \<Rightarrow> bool" where
  "exclusive l s = (case l of
      K_epoll \<Rightarrow> co_epoll s = Loading \<longrightarrow> (\<forall>v. Loaded_active v \<notin> set (co_workers s))
    | K_worker i \<Rightarrow> co_workers s ! i = Locked \<longrightarrow> (\<forall>v. co_epoll s \<noteq> Storing v))"

section \<open>Every schedule: the lock and \<open>left_flows\<close>\<close>

lemma first_free_Some:
  "first_free ws = Some i \<Longrightarrow> i < length ws \<and> ws ! i = Free"
  by (auto simp: first_free_def find_Some_iff)

fun holds_lock :: "counting_worker \<Rightarrow> bool" where
  "holds_lock Free = False"
| "holds_lock Reading = False"
| "holds_lock Unlocked = False"
| "holds_lock _ = True"

definition lock_ok :: "nat \<Rightarrow> u32 \<Rightarrow> counters \<Rightarrow> bool" where
  "lock_ok n flows s \<longleftrightarrow>
     length (co_workers s) = n
   \<and> (\<forall>i<n. holds_lock (co_workers s ! i) \<longleftrightarrow> co_lock s = Some i)
   \<and> co_left s = flows - of_nat (co_finished s)
   \<and> (\<forall>i<n. \<forall>v. co_workers s ! i = Loaded_left v \<longrightarrow> v = co_left s)"

lemma lock_ok_start: "lock_ok n flows (counters_start n flows)"
  by (simp add: lock_ok_def counters_start_def)

lemma lock_ok_epoll:
  assumes "lock_ok n flows s" "epoll_step concurrent_flows s = Returned t"
  shows "lock_ok n flows t"
proof (cases "co_epoll s = Pushing")
  case True
  with assms(2) obtain i where "i < length (co_workers s)" "co_workers s ! i = Free"
    "t = s\<lparr>co_epoll := Testing, co_workers := (co_workers s)[i := Reading]\<rparr>"
    by (auto simp: epoll_step_def split: option.splits dest!: first_free_Some)
  with assms(1) show ?thesis by (auto simp: lock_ok_def nth_list_update)
qed (use assms in \<open>auto simp: lock_ok_def epoll_step_def split: counting_epoll.splits if_splits\<close>)

text \<open>
  What a worker's step does to the lock and \<open>left_flows\<close>: it takes the lock when nobody has it, gives it
  up, or keeps it; and only the worker that has the lock changes \<open>left_flows\<close>.
\<close>

lemma worker_step_lock:
  assumes "worker_step i p s = Returned (w, t)" "holds_lock p \<longleftrightarrow> co_lock s = Some i"
  shows "holds_lock w \<longleftrightarrow> co_lock t = Some i"
    "\<And>j. j \<noteq> i \<Longrightarrow> co_lock t = Some j \<longleftrightarrow> co_lock s = Some j"
    "co_left t = co_left s \<and> co_finished t = co_finished s
     \<or> co_lock s = Some i \<and> (\<exists>v. p = Loaded_left v \<and> co_left t = v - 1) \<and> co_finished t = Suc (co_finished s)"
    "w = Loaded_left v \<Longrightarrow> v = co_left t"
  using assms by (cases p; auto split: if_splits)+

lemma lock_ok_worker:
  assumes ok: "lock_ok n flows s" and i: "i < length (co_workers s)"
    and step: "worker_step i (co_workers s ! i) s = Returned (w, t)"
  shows "lock_ok n flows (t\<lparr>co_workers := (co_workers s)[i := w]\<rparr>)"
proof -
  have at: "holds_lock (co_workers s ! i) \<longleftrightarrow> co_lock s = Some i"
    and held: "\<And>j. j < n \<Longrightarrow> holds_lock (co_workers s ! j) \<longleftrightarrow> co_lock s = Some j"
    using ok i by (simp_all add: lock_ok_def)
  note f = worker_step_lock [OF step at]
  have "v = co_left t" if "j < n" "j \<noteq> i" "co_workers s ! j = Loaded_left v" for j v
  proof -
    have "co_lock s = Some j" "v = co_left s" using held [OF that(1)] ok that by (auto simp: lock_ok_def)
    with f(3) that(2) show ?thesis by auto
  qed
  moreover have "co_left t = flows - of_nat (co_finished t)"
    using f(3) ok i by (auto simp: lock_ok_def)
  ultimately show ?thesis
    using ok i f(1,2,4) held by (simp add: lock_ok_def nth_list_update)
qed

lemma lock_ok_step:
  "lock_ok n flows s \<Longrightarrow> counters_exec concurrent_flows l s = Returned t \<Longrightarrow> lock_ok n flows t"
  by (cases l) (auto simp: run_bind_eq_Returned_iff lock_ok_epoll lock_ok_worker split: if_splits)

interpretation counting: step_system "\<lambda>s. s = counters_start n flows" ok
  "\<lambda>l s. returned (counters_exec concurrent_flows l s)" "counters_reach ok concurrent_flows n flows"
  by unfold_locales (auto intro: counters_reach.intros, erule counters_reach.induct, auto)

interpretation counting_lock: step_invariant "\<lambda>s. s = counters_start n flows" ok
  "\<lambda>l s. returned (counters_exec concurrent_flows l s)" "counters_reach ok concurrent_flows n flows"
  "lock_ok n flows"
  by unfold_locales (auto intro: lock_ok_start lock_ok_step simp del: counters_exec.simps)

lemmas lock_ok_reach = counting_lock.inv_reach

section \<open>Exclusive access: \<open>active_flows\<close>\<close>

text \<open>
  The workers whose flow is still counted in \<open>active_flows\<close>.  A flow the epoll thread has counted and
  is about to push belongs to no worker yet.
\<close>

fun counted_place :: "counting_worker \<Rightarrow> bool" where
  "counted_place Reading = True"
| "counted_place Locked = True"
| "counted_place (Loaded_active v) = True"
| "counted_place _ = False"

definition in_progress :: "counting_worker list \<Rightarrow> nat set" where
  "in_progress ws = {i. i < length ws \<and> counted_place (ws ! i)}"

fun about_to_push :: "counting_epoll \<Rightarrow> nat" where
  "about_to_push Pushing = 1"
| "about_to_push _ = 0"

definition active_ok :: "u32 \<Rightarrow> counters \<Rightarrow> bool" where
  "active_ok concurrent_flows s \<longleftrightarrow>
     unat (co_active s) = card (in_progress (co_workers s)) + about_to_push (co_epoll s)
   \<and> co_active s \<le> concurrent_flows
   \<and> (co_epoll s = Loading \<longrightarrow> co_active s < concurrent_flows)
   \<and> (\<forall>v. co_epoll s = Storing v \<longrightarrow> v = co_active s + 1 \<and> co_active s < concurrent_flows
        \<and> (\<forall>u. Loaded_active u \<notin> set (co_workers s)))
   \<and> (\<forall>v. Loaded_active v \<in> set (co_workers s) \<longrightarrow> v = co_active s)"

lemma finite_in_progress [simp]: "finite (in_progress ws)"
  by (simp add: in_progress_def)

lemma in_progress_update:
  assumes "i < length ws"
  shows "in_progress (ws[i := w]) = (if counted_place w then insert i (in_progress ws) else in_progress ws - {i})"
  using assms by (auto simp: in_progress_def nth_list_update)

lemma card_in_progress_update:
  assumes "i < length ws"
  shows "card (in_progress (ws[i := w])) + (if counted_place (ws ! i) then 1 else 0)
    = card (in_progress ws) + (if counted_place w then 1 else 0)"
proof (cases "counted_place (ws ! i)")
  case True
  with assms have "i \<in> in_progress ws" by (simp add: in_progress_def)
  then show ?thesis
    using card_Suc_Diff1 [OF finite_in_progress, of i ws] True
    by (simp add: in_progress_update [OF assms] insert_absorb)
next
  case False
  with assms have "i \<notin> in_progress ws" by (simp add: in_progress_def)
  with False show ?thesis by (simp add: in_progress_update [OF assms])
qed

lemma active_ok_start: "active_ok concurrent_flows (counters_start n flows)"
  by (simp add: active_ok_def counters_start_def in_progress_def)

lemma active_ok_epoll:
  assumes ok: "active_ok concurrent_flows s" and "exclusive K_epoll s"
    and "epoll_step concurrent_flows s = Returned t"
  shows "active_ok concurrent_flows t"
proof (cases "co_epoll s")
  case (Storing v)
  with ok have v: "v = co_active s + 1" "co_active s < concurrent_flows"
    "\<And>u. Loaded_active u \<notin> set (co_workers s)" by (simp_all add: active_ok_def)
  from v(2) have "unat v = Suc (unat (co_active s))" "v \<le> concurrent_flows"
    unfolding v(1) by (simp_all add: unat_increment increment_le)
  with ok Storing v(3) assms(3) show ?thesis by (auto simp: active_ok_def epoll_step_def)
next
  case Pushing
  with assms(3) obtain i where i: "i < length (co_workers s)" "co_workers s ! i = Free"
    "t = s\<lparr>co_epoll := Testing, co_workers := (co_workers s)[i := Reading]\<rparr>"
    by (auto simp: epoll_step_def split: option.splits dest!: first_free_Some)
  with ok Pushing card_in_progress_update [OF i(1), of Reading] show ?thesis
    by (auto simp: active_ok_def dest!: set_update_subset_insert [THEN subsetD])
qed (use assms in \<open>auto simp: active_ok_def epoll_step_def exclusive_def split: if_splits\<close>)

lemma active_ok_worker:
  assumes ok: "active_ok concurrent_flows s" and lock: "lock_ok n flows s"
    and ex: "exclusive (K_worker i) s" and i: "i < length (co_workers s)"
    and step: "worker_step i (co_workers s ! i) s = Returned (w, t)"
  shows "active_ok concurrent_flows (t\<lparr>co_workers := (co_workers s)[i := w]\<rparr>)"
proof (cases "\<exists>v. co_workers s ! i = Loaded_active v")
  case True
  then obtain v where v: "co_workers s ! i = Loaded_active v" by blast
  then have mem: "Loaded_active v \<in> set (co_workers s)" using i by (metis nth_mem)
  have idle: "\<And>u. co_epoll s \<noteq> Storing u" using ok mem by (auto simp: active_ok_def)
  have act: "v = co_active s" using ok mem by (simp add: active_ok_def)
  have "i \<in> in_progress (co_workers s)" using i v by (simp add: in_progress_def)
  then have "0 < card (in_progress (co_workers s))" by (auto simp: card_gt_0_iff)
  then have pos: "0 < unat (co_active s)" using ok by (auto simp: active_ok_def)
  then have less: "unat (co_active s - 1) = unat (co_active s) - 1" by (rule unat_decrement)
  have only: "Loaded_active u \<notin> set ((co_workers s)[i := Stored_active])" for u
  proof
    assume "Loaded_active u \<in> set ((co_workers s)[i := Stored_active])"
    then obtain j where j: "j < length (co_workers s)" "(co_workers s)[i := Stored_active] ! j = Loaded_active u"
      by (auto simp: in_set_conv_nth)
    then have "j \<noteq> i" "co_workers s ! j = Loaded_active u" using i by (auto simp: nth_list_update split: if_splits)
    moreover have "co_lock s = Some i" using lock i v by (auto simp: lock_ok_def)
    moreover have "co_lock s = Some j" using lock j(1) calculation(2) by (auto simp: lock_ok_def)
    ultimately show False by simp
  qed
  have t: "w = Stored_active" "t = s\<lparr>co_active := v - 1\<rparr>" using step v by simp_all
  have "co_active s - 1 < concurrent_flows" if "co_active s < concurrent_flows"
    using less that by (simp add: word_less_nat_alt)
  moreover have "co_active s - 1 \<le> concurrent_flows"
    using ok less by (auto simp: active_ok_def word_le_nat_alt)
  ultimately show ?thesis
    using ok idle only act less pos card_in_progress_update [OF i, of Stored_active] v
    by (auto simp: active_ok_def t)
next
  case False
  then have same: "co_active t = co_active s" "co_epoll t = co_epoll s" "counted_place w = counted_place (co_workers s ! i)"
    using step by (cases "co_workers s ! i"; auto split: if_splits)+
  have w: "w = Loaded_active v \<Longrightarrow> co_workers s ! i = Locked \<and> v = co_active s" for v
    using step False by (cases "co_workers s ! i"; auto split: if_splits)
  from same ok w ex show ?thesis
    using card_in_progress_update [OF i, of w]
    by (auto simp: active_ok_def exclusive_def dest!: set_update_subset_insert [THEN subsetD])
qed

lemma active_ok_step:
  assumes "active_ok concurrent_flows s" "lock_ok n flows s" "exclusive l s"
    and "counters_exec concurrent_flows l s = Returned t"
  shows "active_ok concurrent_flows t"
  using assms
  by (cases l) (auto simp: run_bind_eq_Returned_iff active_ok_epoll intro: active_ok_worker split: if_splits)

text \<open>With at most one concurrent flow nobody is in progress when the epoll thread increments.\<close>

lemma exclusive_one:
  assumes "active_ok concurrent_flows s" "concurrent_flows \<le> 1"
    and "counters_exec concurrent_flows l s = Returned t"
  shows "exclusive l s"
proof -
  have "False" if "co_active s < concurrent_flows" "i < length (co_workers s)" "counted_place (co_workers s ! i)" for i
  proof -
    have "i \<in> in_progress (co_workers s)" using that by (simp add: in_progress_def)
    then have "card (in_progress (co_workers s)) \<noteq> 0" by (auto simp: card_eq_0_iff)
    moreover have "unat (co_active s) = 0"
      using that(1) assms(2) by (simp add: word_less_nat_alt word_le_nat_alt)
    ultimately show False using assms(1) by (simp add: active_ok_def)
  qed
  then show ?thesis
    using assms(1,3) by (cases l) (force simp: exclusive_def active_ok_def in_set_conv_nth split: if_splits)+
qed

lemma active_ok_reach:
  assumes "counters_reach ok concurrent_flows n flows s"
    and "ok = exclusive \<or> concurrent_flows \<le> 1"
  shows "active_ok concurrent_flows s"
  using assms(1)
proof (induction rule: counters_reach.induct)
  case (step s l t)
  then have "exclusive l s" using assms(2) exclusive_one by blast
  with step lock_ok_reach [OF step.hyps(1)] show ?case by (blast intro: active_ok_step)
qed (rule active_ok_start)

text \<open>
  C20.  In every interleaving of the loads and stores of the epoll thread and the workers, \<open>left_flows\<close> is the
  number of connections minus the flows finished.  \<open>active_flows\<close> is exact, and at most the number
  asked for, when its accesses exclude each other or when at most one concurrent flow is asked for: it
  is the number of workers with a flow they have not yet counted down, and the flow about to be pushed.
\<close>

theorem counters_exact:
  assumes "counters_reach ok concurrent_flows n flows s"
  shows "co_left s = flows - of_nat (co_finished s)
    \<and> (ok = exclusive \<or> concurrent_flows \<le> 1 \<longrightarrow>
         unat (co_active s) = card (in_progress (co_workers s)) + about_to_push (co_epoll s)
         \<and> co_active s \<le> concurrent_flows)"
  using lock_ok_reach [OF assms] active_ok_reach [OF assms] by (simp add: lock_ok_def active_ok_def)

section \<open>Lost updates\<close>

abbreviation counters_run ::
    "(counter_label \<Rightarrow> counters \<Rightarrow> bool) \<Rightarrow> u32 \<Rightarrow> counter_label list \<Rightarrow> counters \<Rightarrow> counters option" where
  "counters_run ok concurrent_flows \<equiv> run_labels ok (\<lambda>l s. returned (counters_exec concurrent_flows l s))"

lemmas counters_run_reach = counting.run_reach [OF _ counters_reach.start]

text \<open>A worker's way from its flow back to its free slot.\<close>

definition finishes :: "nat \<Rightarrow> counter_label list" where
  "finishes i = replicate 7 (K_worker i)"

theorem counters_exact_witness:
  "\<exists>s. counters_reach exclusive 2 2 3 s \<and> co_finished s = 1 \<and> co_left s = 2 \<and> co_active s = 0"
proof -
  let ?s = "(counters_start 2 3)\<lparr>co_finished := 1, co_left := 2\<rparr>"
  have "counters_run exclusive 2 (replicate 4 K_epoll @ finishes 0) (counters_start 2 3) = Some ?s"
    by (simp add: finishes_def counters_start_def epoll_step_def exclusive_def
        first_free_def numeral_eq_Suc)
  then have reach: "counters_reach exclusive 2 2 3 ?s" by (rule counters_run_reach)
  have "co_left ?s = 2 \<and> unat (co_active ?s) = 0"
    using counters_exact [OF reach] by (simp add: counters_start_def in_progress_def)
  with reach show ?thesis by (intro exI [of _ ?s]) (simp add: unat_eq_zero)
qed

text \<open>
  C21.  The epoll thread increments \<open>active_flows\<close> without the lock, so an increment or a decrement can
  be lost.  When an increment is lost, the counter wraps below zero as soon as the flows are
  finished: it is then at least the number of concurrent flows, no further flow is started, and the client
  runs for ever with flows left.  When a decrement is lost, the counter stays too high with no flow active,
  and the client uses fewer concurrent flows than asked for.
\<close>

theorem increment_race_stalls_client:
  "(\<exists>s. counters_reach any_access 2 2 3 s \<and> co_left s = 1 \<and> co_active s = - 1
      \<and> in_progress (co_workers s) = {} \<and> co_epoll s = Testing
      \<and> (\<forall>l. counters_exec 2 l s \<in> {Blocked, Returned s}))
   \<and> (\<exists>s. counters_reach any_access 2 2 3 s \<and> co_active s = 1
      \<and> co_epoll s = Testing \<and> co_workers s = [Free, Free])"
proof
  let ?s = "(counters_start 2 3)\<lparr>co_finished := 2, co_left := 1, co_active := - 1\<rparr>"
  have "counters_run any_access 2 (replicate 4 K_epoll @ replicate 2 (K_worker 0) @ replicate 4 K_epoll
      @ replicate 5 (K_worker 0) @ finishes 1) (counters_start 2 3) = Some ?s"
    by (simp add: finishes_def counters_start_def epoll_step_def any_access_def
        first_free_def numeral_eq_Suc)
  then have "counters_reach any_access 2 2 3 ?s" by (rule counters_run_reach)
  moreover have "counters_exec 2 l ?s \<in> {Blocked, Returned ?s}" for l
    by (cases l) (auto simp: counters_start_def epoll_step_def nth_Cons' numeral_eq_Suc)
  ultimately show "\<exists>s. counters_reach any_access 2 2 3 s \<and> co_left s = 1 \<and> co_active s = - 1
      \<and> in_progress (co_workers s) = {} \<and> co_epoll s = Testing
      \<and> (\<forall>l. counters_exec 2 l s \<in> {Blocked, Returned s})"
    by (intro exI [of _ ?s]) (auto simp: counters_start_def in_progress_def nth_Cons' numeral_eq_Suc)
next
  let ?s = "(counters_start 2 3)\<lparr>co_finished := 2, co_left := 1, co_active := 1\<rparr>"
  have "counters_run any_access 2 (replicate 4 K_epoll @ replicate 2 K_epoll @ finishes 0 @ replicate 2 K_epoll
      @ finishes 0) (counters_start 2 3) = Some ?s"
    by (simp add: finishes_def counters_start_def epoll_step_def any_access_def
        first_free_def numeral_eq_Suc)
  then have "counters_reach any_access 2 2 3 ?s" by (rule counters_run_reach)
  then show "\<exists>s. counters_reach any_access 2 2 3 s \<and> co_active s = 1
      \<and> co_epoll s = Testing \<and> co_workers s = [Free, Free]"
    by (intro exI [of _ ?s]) (simp add: counters_start_def numeral_eq_Suc)
qed

end
