(* ===== verification/FG_Server.thy ===== *)
theory FG_Server
  imports FG_Epoll FG_Transfer FG_Thread_Poll
begin

text \<open>
  The server, from \<open>flow_generator/src/server/server.c\<close>, \<open>server.h\<close>, \<open>server_configs.c\<close> and
  \<open>server_configs.h\<close>: its configuration, its start, the handling of an epoll event by the epoll
  thread, and the sending of a response by a worker thread.
\<close>

section \<open>Configuration\<close>

definition SERVER_DEFAULT_PORT :: int where
  "SERVER_DEFAULT_PORT = 9001"

record server_configs =
  sc_port :: u32
  sc_daemon :: bool
  sc_verbose :: bool
  sc_threads :: u32

definition init_server_configs :: "server_configs" where
  "init_server_configs =
     \<lparr>sc_port = word_of_int SERVER_DEFAULT_PORT, sc_daemon = False, sc_verbose = False, sc_threads = 1\<rparr>"

fun read_server_args :: "(string \<Rightarrow> int) \<Rightarrow> (char \<times> string) list \<Rightarrow> server_configs \<Rightarrow> server_configs run" where
  "read_server_args atoi [] conf = Returned conf"
| "read_server_args atoi ((result, optarg) # rest) conf =
     (if result = CHR ''h'' then Exited 0
      else if result = CHR ''v'' then read_server_args atoi rest (conf\<lparr>sc_verbose := True\<rparr>)
      else if result = CHR ''d'' then read_server_args atoi rest (conf\<lparr>sc_daemon := True\<rparr>)
      else if result = CHR ''p'' then
        read_server_args atoi rest (conf\<lparr>sc_port := word_of_int (atoi optarg)\<rparr>)
      else if result = CHR ''t'' then
        read_server_args atoi rest (conf\<lparr>sc_threads := word_of_int (atoi optarg)\<rparr>)
      else read_server_args atoi rest conf)"

definition get_server_configs :: "(string \<Rightarrow> int) \<Rightarrow> (char \<times> string) list \<Rightarrow> server_configs run" where
  "get_server_configs atoi opts = read_server_args atoi opts init_server_configs"

definition print_server_configs :: "server_configs \<Rightarrow> string" where
  "print_server_configs conf =
     ''Server configuration: '' @ newline
     @ ''Port: '' @ show_int (sint (sc_port conf)) @ newline
     @ ''Verbose mode: '' @ (if sc_verbose conf = False then ''False'' else ''True'') @ newline
     @ ''Daemon mode: '' @ (if sc_daemon conf = False then ''False'' else ''True'') @ newline
     @ ''Threads: '' @ show_int (sint (sc_threads conf)) @ newline"

definition server_usage :: string where
  "server_usage =
     ''Usage: '' @ newline
     @ ''-p <port>   port number (default '' @ show_int SERVER_DEFAULT_PORT @ '')'' @ newline
     @ ''-v          give more detailed output (verbose)'' @ newline
     @ ''-d          run the server as a daemon'' @ newline
     @ ''-t          the number of threads'' @ newline
     @ ''-h          display help information'' @ newline"

section \<open>The start\<close>

record server =
  sv_sfd :: int
  sv_efd :: int
  sv_polls :: "events_poll list"
  sv_flows_size :: "int \<Rightarrow> u32"
  sv_effects :: "effect list"

text \<open>\<open>main\<close> up to the creation of the threads.\<close>

definition server_main :: "(string \<Rightarrow> int) \<Rightarrow> (char \<times> string) list \<Rightarrow> (server_configs \<times> server) run" where
  "server_main atoi opts =
     run_bind (get_server_configs atoi opts) (\<lambda>conf.
       let threads_num = sint (sc_threads conf) in
       if \<not> (threads_num > 0 \<and> threads_num < int MAX_THREADS) then Aborted
       else
         run_bind (of_access (init_events_polls (replicate MAX_THREADS (init_events_poll 0))
             (nat threads_num))) (\<lambda>polls.
           Returned (conf, \<lparr>sv_sfd = 0, sv_efd = 0, sv_polls = polls, sv_flows_size = (\<lambda>_. 0),
             sv_effects = []\<rparr>)))"

text \<open>
  \<open>epoll_server\<close> up to its loop; the arguments are the answers of the calls it makes.
\<close>

definition epoll_server_start ::
    "int \<Rightarrow> (int \<times> int) list \<Rightarrow> int \<times> int \<times> int \<times> int \<Rightarrow> int \<Rightarrow> int \<Rightarrow> int \<Rightarrow> server_configs \<Rightarrow> server
     \<Rightarrow> server run" where
  "epoll_server_start gai addrs opts_ans listen_ans create_ans ctl conf s =
     run_bind (create_and_bind gai addrs (sc_port conf)) (\<lambda>(sfd, closed).
       if sfd = -1 then Exited 1
       else
         let (keepalive, reuseaddr, getfl, setfl) = opts_ans;
             (r, calls) = set_socket sfd keepalive reuseaddr getfl setfl
         in if listen_ans = -1 then Exited 1
            else if create_ans = -1 then Exited 1
            else
              run_bind (add_epoll_event create_ans sfd EPOLLIN ctl) (\<lambda>(effects, r).
                Returned (s\<lparr>sv_sfd := sfd, sv_efd := create_ans,
                  sv_effects := sv_effects s @ map Net calls @ effects\<rparr>)))"

section \<open>The epoll thread\<close>

text \<open>The answers of the calls made while one event is handled, and what the stack holds.\<close>

record server_answers =
  sa_accepts :: "accept_result list"
  sa_read :: read_result
  sa_ctl :: int
  sa_stack :: "u8 list"
  sa_req :: request_format

definition server_event :: "server_answers \<Rightarrow> u32 \<Rightarrow> int \<Rightarrow> server \<Rightarrow> server run" where
  "server_event a events fd s =
     (if events AND EPOLLERR \<noteq> 0 \<or> events AND EPOLLHUP \<noteq> 0 then
        Returned (s\<lparr>sv_effects := sv_effects s @ fst (delete_epoll_event (sv_efd s) fd (sa_ctl a))\<rparr>)
      else if sv_sfd s = fd then
        run_bind (accept_epoll_events (sv_efd s) (sv_sfd s) (sa_accepts a)) (\<lambda>effects.
          Returned (s\<lparr>sv_effects := sv_effects s @ effects\<rparr>))
      else if events AND EPOLLIN \<noteq> 0 then
        run_bind (read_request (sa_stack a) (sa_req a) (sa_read a)) (\<lambda>flow_size.
        run_bind
          (if flow_size \<le> 0 then
             Returned (s\<lparr>sv_effects := sv_effects s
               @ fst (delete_epoll_event (sv_efd s) fd (sa_ctl a)) @ [Net (Close fd)]\<rparr>)
           else
             run_bind (of_access (write_flows_size (sv_flows_size s) fd (word_of_int flow_size)))
               (\<lambda>sizes. Returned (s\<lparr>sv_flows_size := sizes\<rparr>)))
          (\<lambda>s1.
        run_bind (modify_epoll_event (sv_efd s1) fd EPOLLOUT (sa_ctl a)) (\<lambda>(effects, _).
          Returned (s1\<lparr>sv_effects := sv_effects s1 @ effects\<rparr>))))
      else if events AND EPOLLOUT \<noteq> 0 then
        run_bind (of_access (read_flows_size (sv_flows_size s) fd)) (\<lambda>flow_size.
        run_bind (event_push (sv_polls s) (word_of_int fd) flow_size) (\<lambda>(polls, _).
        run_bind (modify_epoll_event (sv_efd s) fd EPOLLIN (sa_ctl a)) (\<lambda>(effects, _).
          Returned (s\<lparr>sv_polls := polls, sv_effects := sv_effects s @ effects\<rparr>))))
      else Returned s)"

text \<open>The events one \<open>epoll_wait\<close> returns, handled in order, each with the answers given to it.\<close>

fun server_batch :: "(server_answers \<times> u32 \<times> int) list \<Rightarrow> server \<Rightarrow> server run" where
  "server_batch [] s = Returned s"
| "server_batch ((a, events, fd) # rest) s = run_bind (server_event a events fd s) (server_batch rest)"

section \<open>The worker threads\<close>

text \<open>
  The body of the loop of \<open>responce_thread\<close> for the event of slot \<open>index\<close>; \<open>writes\<close> are the answers of
  \<open>write\<close>.
\<close>

definition send_responce ::
    "u8 list \<Rightarrow> nat \<Rightarrow> event_info \<Rightarrow> write_result list \<Rightarrow> int \<Rightarrow> server \<Rightarrow> server run" where
  "send_responce stack index event writes ctl s =
     (let fd = sint (ev_fd event); flow_size = sint (ev_flow_size event) in
      run_bind (write_responce stack flow_size writes) (\<lambda>(n, _).
        let e1 = (if n \<noteq> flow_size then [Net (Close fd)] else [])
        in Returned (s\<lparr>sv_effects := sv_effects s @ e1
               @ fst (delete_epoll_event (sv_efd s) fd ctl) @ [Net (Close fd)],
             sv_polls := release_slot (sv_polls s) index\<rparr>)))"

section \<open>A request and its response\<close>

lemma server_modify:
  assumes "events = EPOLLIN \<or> events = EPOLLOUT"
  shows "\<exists>r. modify_epoll_event efd fd events ans
    = Returned ([Epoll_ctl efd (EPOLL_CTL_MOD (events OR EPOLLET)) fd], r)"
  using assms by (simp add: modify_epoll_event_def)

lemma event_masks:
  "EPOLLIN AND EPOLLERR = 0" "EPOLLIN AND EPOLLHUP = 0" "EPOLLIN \<noteq> 0"
  "EPOLLOUT AND EPOLLERR = 0" "EPOLLOUT AND EPOLLHUP = 0" "EPOLLOUT \<noteq> 0" "EPOLLOUT AND EPOLLIN = 0"
  by (simp_all add: EPOLLIN_def EPOLLOUT_def EPOLLERR_def EPOLLHUP_def)

lemma server_reads_request:
  assumes "sv_sfd s \<noteq> fd" "0 \<le> fd" "fd < MAX_FLOWS" "length (sa_stack a) = PAYLOAD_SIZE"
    and "0 < n" "n < 2 ^ 31" "sa_read a = Read (be_bytes 4 (word_of_int n :: u32))"
  shows "server_event a EPOLLIN fd s = Returned (s\<lparr>sv_flows_size := (sv_flows_size s)(fd := word_of_int n),
    sv_effects := sv_effects s @ [Epoll_ctl (sv_efd s) (EPOLL_CTL_MOD (EPOLLOUT OR EPOLLET)) fd]\<rparr>)"
proof -
  have read: "read_request (sa_stack a) (sa_req a) (sa_read a) = Returned n"
    using assms(4-7) by (simp add: read_request_whole sint_word_of_int)
  obtain r where "modify_epoll_event (sv_efd s) fd EPOLLOUT (sa_ctl a)
      = Returned ([Epoll_ctl (sv_efd s) (EPOLL_CTL_MOD (EPOLLOUT OR EPOLLET)) fd], r)"
    using server_modify by blast
  with read assms(1-3,5) show ?thesis
    by (simp add: server_event_def event_masks write_flows_size_def)
qed

lemma server_pushes_flow:
  assumes "sv_sfd s \<noteq> fd" "0 \<le> fd" "fd < MAX_FLOWS" "idle_slots (sv_polls s) \<noteq> {}"
  shows "\<exists>i\<in>idle_slots (sv_polls s). server_event a EPOLLOUT fd s =
    Returned (s\<lparr>sv_polls := (sv_polls s)[i := store_event (word_of_int fd) (sv_flows_size s fd) (sv_polls s ! i)],
      sv_effects := sv_effects s @ [Epoll_ctl (sv_efd s) (EPOLL_CTL_MOD (EPOLLIN OR EPOLLET)) fd]\<rparr>)"
proof -
  obtain i where "i \<in> idle_slots (sv_polls s)"
    "event_push (sv_polls s) (word_of_int fd) (sv_flows_size s fd) =
      Returned ((sv_polls s)[i := store_event (word_of_int fd) (sv_flows_size s fd) (sv_polls s ! i)], i)"
    using event_push_idle [OF assms(4)] by blast
  moreover obtain r where "modify_epoll_event (sv_efd s) fd EPOLLIN (sa_ctl a)
      = Returned ([Epoll_ctl (sv_efd s) (EPOLL_CTL_MOD (EPOLLIN OR EPOLLET)) fd], r)"
    using server_modify by blast
  ultimately show ?thesis
    using assms(1-3) by (intro bexI [of _ i]) (simp_all add: server_event_def event_masks read_flows_size_def)
qed

lemma server_answers:
  assumes fd: "sv_sfd s \<noteq> fd" "0 \<le> fd" "fd < MAX_FLOWS" and idle: "idle_slots (sv_polls s) \<noteq> {}"
    and n: "0 < n" "n < 2 ^ 31"
    and client: "write_request cstack creq n (Wrote PAYLOAD_SIZE) = Returned (bytes, r)"
      "length cstack = PAYLOAD_SIZE"
    and a: "sa_read a = Read bytes" "length (sa_stack a) = PAYLOAD_SIZE"
    and ws: "list_all keeps_writing ws" "total_taken ws = n" "length stack = MAX_WRITE_BUFF"
  shows "\<exists>s1 s2 s3 i e. server_event a EPOLLIN fd s = Returned s1
    \<and> sv_effects s1 = sv_effects s @ [Epoll_ctl (sv_efd s) (EPOLL_CTL_MOD (EPOLLOUT OR EPOLLET)) fd]
    \<and> server_event b EPOLLOUT fd s1 = Returned s2
    \<and> i \<in> idle_slots (sv_polls s) \<and> i \<notin> idle_slots (sv_polls s2)
    \<and> event_pop (sv_polls s2 ! i) = Returned e \<and> sint (ev_fd e) = fd \<and> sint (ev_flow_size e) = n
    \<and> send_responce stack i e ws ctl s2 = Returned s3
    \<and> i \<in> idle_slots (sv_polls s3)
    \<and> sv_effects s3 = sv_effects s2 @ [Epoll_ctl (sv_efd s) EPOLL_CTL_DEL fd, Net (Close fd)]"
proof -
  have bytes: "sa_read a = Read (be_bytes 4 (word_of_int n :: u32))"
    using client a(1) write_request_sends [OF client(2), of creq n PAYLOAD_SIZE] by simp
  define s1 where "s1 = s\<lparr>sv_flows_size := (sv_flows_size s)(fd := word_of_int n),
    sv_effects := sv_effects s @ [Epoll_ctl (sv_efd s) (EPOLL_CTL_MOD (EPOLLOUT OR EPOLLET)) fd]\<rparr>"
  have s1: "server_event a EPOLLIN fd s = Returned s1"
    unfolding s1_def by (rule server_reads_request [OF fd a(2) n bytes])
  have "sv_sfd s1 \<noteq> fd" "idle_slots (sv_polls s1) \<noteq> {}" using fd(1) idle by (simp_all add: s1_def)
  then obtain i s2 where push: "i \<in> idle_slots (sv_polls s1)" "server_event b EPOLLOUT fd s1 = Returned s2"
    "s2 = s1\<lparr>sv_polls := (sv_polls s1)[i := store_event (word_of_int fd) (sv_flows_size s1 fd) (sv_polls s1 ! i)],
      sv_effects := sv_effects s1 @ [Epoll_ctl (sv_efd s1) (EPOLL_CTL_MOD (EPOLLIN OR EPOLLET)) fd]\<rparr>"
    using server_pushes_flow [of s1 fd b] fd(2,3) by blast
  then have i: "i \<in> idle_slots (sv_polls s)" "server_event b EPOLLOUT fd s1 = Returned s2"
    "sv_polls s2 = (sv_polls s)[i := store_event (word_of_int fd) (word_of_int n) (sv_polls s ! i)]"
    "sv_efd s2 = sv_efd s"
    by (simp_all add: s1_def)
  have len: "i < length (sv_polls s)" using i(1) by (simp add: idle_slots_def)
  define e where "e = \<lparr>ev_fd = word_of_int fd, ev_flow_size = word_of_int n\<rparr>"
  have pop: "event_pop (sv_polls s2 ! i) = Returned e" "i \<notin> idle_slots (sv_polls s2)"
    using len by (simp_all add: i(3) store_event_def event_pop_def flag_defs e_def idle_slots_def)
  have e: "sint (ev_fd e) = fd" "sint (ev_flow_size e) = n"
    using fd n by (simp_all add: e_def sint_word_of_int MAX_FLOWS_def)
  obtain asked where w: "write_responce stack n (ws @ []) = Returned (n, asked)"
  proof -
    have "n \<le> INT_MAX" using n(2) by (simp add: INT_MAX_def)
    from write_responce_returns [OF ws(1) this ws(3)] ws(2) that show ?thesis by blast
  qed
  define s3 where "s3 = s2\<lparr>sv_effects := sv_effects s2
    @ [Epoll_ctl (sv_efd s) EPOLL_CTL_DEL fd, Net (Close fd)], sv_polls := release_slot (sv_polls s2) i\<rparr>"
  have "send_responce stack i e ws ctl s2 = Returned s3"
    using w e i(4) by (simp add: send_responce_def Let_def delete_epoll_event_def s3_def)
  moreover have "i \<in> idle_slots (sv_polls s3)"
    using len by (simp add: s3_def i(3) release_slot_def)
  moreover have "sv_effects s3 = sv_effects s2 @ [Epoll_ctl (sv_efd s) EPOLL_CTL_DEL fd, Net (Close fd)]"
    by (simp add: s3_def)
  moreover have "sv_effects s1
      = sv_effects s @ [Epoll_ctl (sv_efd s) (EPOLL_CTL_MOD (EPOLLOUT OR EPOLLET)) fd]"
    by (simp add: s1_def)
  ultimately show ?thesis using s1 i(1,2) pop e by blast
qed

text \<open>
  From a request to its response: when the four bytes a client's \<open>write_request\<close> sends for
  the size \<open>n\<close> arrive, the server arms the socket for output; the next output event hands the socket
  and exactly \<open>n\<close> to an idle worker; and when \<open>write\<close> takes \<open>n\<close> bytes in all, in parts and with
  temporary errors between, the worker unregisters and closes the socket once and frees its slot.
\<close>

theorem server_answers_request:
  assumes fd: "sv_sfd s \<noteq> fd" "0 \<le> fd" "fd < MAX_FLOWS" and idle: "idle_slots (sv_polls s) \<noteq> {}"
    and n: "0 < n" "n < 2 ^ 31"
    and client: "write_request cstack creq n (Wrote PAYLOAD_SIZE) = Returned (bytes, r)"
      "length cstack = PAYLOAD_SIZE"
    and a: "sa_read a = Read bytes" "length (sa_stack a) = PAYLOAD_SIZE"
    and ws: "list_all keeps_writing ws" "total_taken ws = n" "length stack = MAX_WRITE_BUFF"
  shows "\<exists>s1 s2 s3 i e. server_event a EPOLLIN fd s = Returned s1
    \<and> sv_effects s1 = sv_effects s @ [Epoll_ctl (sv_efd s) (EPOLL_CTL_MOD (EPOLLOUT OR EPOLLET)) fd]
    \<and> server_event b EPOLLOUT fd s1 = Returned s2
    \<and> i \<in> idle_slots (sv_polls s) \<and> i \<notin> idle_slots (sv_polls s2)
    \<and> event_pop (sv_polls s2 ! i) = Returned e \<and> sint (ev_fd e) = fd \<and> sint (ev_flow_size e) = n
    \<and> send_responce stack i e ws ctl s2 = Returned s3
    \<and> i \<in> idle_slots (sv_polls s3)
    \<and> sv_effects s3 = sv_effects s2 @ [Epoll_ctl (sv_efd s) EPOLL_CTL_DEL fd, Net (Close fd)]"
  using assms by (rule server_answers)

definition sample_server :: server where
  "sample_server = \<lparr>sv_sfd = 3, sv_efd = 4,
     sv_polls = replicate 2 (init_events_poll THREAD_IDLE) @ replicate 62 (init_events_poll THREAD_INVALID),
     sv_flows_size = (\<lambda>_. 0), sv_effects = []\<rparr>"

definition sample_request :: server_answers where
  "sample_request = \<lparr>sa_accepts = [], sa_read = Read [0, 1, 0x11, 0x70], sa_ctl = 0, sa_stack = [9, 9, 9, 9],
     sa_req = \<lparr>req_flow_size = 0\<rparr>\<rparr>"

theorem server_answers_request_witness:
  "\<exists>s1 s2 s3 i e. server_event sample_request EPOLLIN 5 sample_server = Returned s1
    \<and> server_event sample_request EPOLLOUT 5 s1 = Returned s2
    \<and> event_pop (sv_polls s2 ! i) = Returned e \<and> sint (ev_flow_size e) = 70000
    \<and> send_responce (replicate MAX_WRITE_BUFF 0) i e [Wrote 65536, Write_error EAGAIN, Wrote 4464] 0 s2
        = Returned s3"
proof -
  have "idle_slots (sv_polls sample_server) \<noteq> {}"
    by (auto simp: idle_slots_def sample_server_def init_events_poll_def nth_append intro!: exI [of _ 0])
  moreover have "write_request [0, 0, 0, 0] \<lparr>req_flow_size = 0\<rparr> 70000 (Wrote PAYLOAD_SIZE)
      = Returned ([0, 1, 0x11, 0x70], 4)"
    by code_simp
  ultimately show ?thesis
    using server_answers_request [of sample_server 5 70000 "[0, 0, 0, 0]" "\<lparr>req_flow_size = 0\<rparr>"
        "[0, 1, 0x11, 0x70]" 4 sample_request "[Wrote 65536, Write_error EAGAIN, Wrote 4464]"
        "replicate MAX_WRITE_BUFF 0" sample_request 0]
    by (force simp: sample_server_def sample_request_def MAX_FLOWS_def PAYLOAD_SIZE_def MAX_WRITE_BUFF_def
        total_taken_def)
qed

section \<open>Closing twice\<close>

text \<open>
  After a failed response the worker closes its socket, unregisters it, and closes it again, so
  that it may close a connection accepted in between under the same number; and after a
  request that cannot be read, or asks for no bytes, the epoll thread closes the socket and then
  still modifies its registration.
\<close>

theorem sockets_used_after_close:
  assumes "list_all keeps_writing ws" "total_taken ws < n" "n = sint (ev_flow_size e)"
    and "length stack = MAX_WRITE_BUFF" "hard \<noteq> EAGAIN" "hard \<noteq> EINTR"
    and "sv_sfd s \<noteq> fd"
  shows "(\<exists>s'. send_responce stack i e (ws @ Write_error hard # rest) ctl s = Returned s'
      \<and> sv_effects s' = sv_effects s @ [Net (Close (sint (ev_fd e))),
          Epoll_ctl (sv_efd s) EPOLL_CTL_DEL (sint (ev_fd e)), Net (Close (sint (ev_fd e)))])
    \<and> (sa_read a = Read [] \<or> sa_read a = Read_error hard \<longrightarrow>
        (\<exists>s'. server_event a EPOLLIN fd s = Returned s'
          \<and> sv_effects s' = sv_effects s @ [Epoll_ctl (sv_efd s) EPOLL_CTL_DEL fd, Net (Close fd),
              Epoll_ctl (sv_efd s) (EPOLL_CTL_MOD (EPOLLOUT OR EPOLLET)) fd]))"
proof (intro conjI impI)
  have "n \<le> INT_MAX"
    using sint_lt [of "ev_flow_size e"] by (simp add: assms(3) INT_MAX_def)
  then obtain asked where "write_responce stack n (ws @ Write_error hard # rest) = Returned (-1, asked)"
    using write_responce_returns [OF assms(1) _ assms(4), of n rest hard] assms(2,5,6) by blast
  moreover have "n \<noteq> -1" using assms(2) total_taken_nonneg [of ws] by linarith
  ultimately show "\<exists>s'. send_responce stack i e (ws @ Write_error hard # rest) ctl s = Returned s'
      \<and> sv_effects s' = sv_effects s @ [Net (Close (sint (ev_fd e))),
          Epoll_ctl (sv_efd s) EPOLL_CTL_DEL (sint (ev_fd e)), Net (Close (sint (ev_fd e)))]"
    by (simp add: send_responce_def Let_def assms(3) [symmetric] delete_epoll_event_def)
next
  assume "sa_read a = Read [] \<or> sa_read a = Read_error hard"
  then obtain k where k: "read_request (sa_stack a) (sa_req a) (sa_read a) = Returned k" "k \<le> 0"
    using assms(5,6) by (auto simp: read_request_def)
  obtain r where "modify_epoll_event (sv_efd s) fd EPOLLOUT (sa_ctl a)
      = Returned ([Epoll_ctl (sv_efd s) (EPOLL_CTL_MOD (EPOLLOUT OR EPOLLET)) fd], r)"
    using server_modify by blast
  with k assms(7) show "\<exists>s'. server_event a EPOLLIN fd s = Returned s'
          \<and> sv_effects s' = sv_effects s @ [Epoll_ctl (sv_efd s) EPOLL_CTL_DEL fd, Net (Close fd),
              Epoll_ctl (sv_efd s) (EPOLL_CTL_MOD (EPOLLOUT OR EPOLLET)) fd]"
    by (simp add: server_event_def event_masks delete_epoll_event_def)
qed

theorem sockets_used_after_close_witness:
  "\<exists>s'. send_responce (replicate MAX_WRITE_BUFF 0) 0 \<lparr>ev_fd = 5, ev_flow_size = 100\<rparr>
       ([Wrote 40] @ Write_error (Other_errno 104) # []) 0 sample_server = Returned s'
     \<and> sv_effects s' = [Net (Close 5), Epoll_ctl 4 EPOLL_CTL_DEL 5, Net (Close 5)]"
proof -
  define e where "e = \<lparr>ev_fd = 5, ev_flow_size = 100\<rparr>"
  have "list_all keeps_writing [Wrote 40]" "total_taken [Wrote 40] < 100"
    "(100::int) = sint (ev_flow_size e)" "length (replicate MAX_WRITE_BUFF (0::u8)) = MAX_WRITE_BUFF"
    "Other_errno 104 \<noteq> EAGAIN" "Other_errno 104 \<noteq> EINTR" "sv_sfd sample_server \<noteq> 6"
    by (simp_all add: MAX_WRITE_BUFF_def e_def sample_server_def)
  note closed = sockets_used_after_close [OF this]
  have "sint (ev_fd e) = 5" "sv_efd sample_server = 4" "sv_effects sample_server = []"
    by (simp_all add: e_def sample_server_def)
  with closed show ?thesis unfolding e_def [symmetric] by fastforce
qed

end
