(* ===== verification/FG_Server_Steps.thy ===== *)
theory FG_Server_Steps
  imports FG_Server
begin

text \<open>
  The interleavings of the server's epoll thread with its worker threads (\<open>epoll_server\<close> and
  \<open>responce_thread\<close> in \<open>flow_generator/src/server/server.c\<close>).

  A step is the handling of one event, or one of the two parts of a worker's loop: taking the event
  of its slot, and sending the response up to the marking of the slot as idle.  A worker takes an
  event only from a busy slot and once; \<open>FG_Server_Threads\<close> shows that this is so for prompt signals.
\<close>

datatype server_worker = Waiting_sender | Sending event_info

record server_sys =
  srv_server :: server
  srv_workers :: "server_worker list"
  srv_done :: nat

datatype server_label =
    S_event server_answers u32 int
  | S_take nat
  | S_send nat "u8 list" "write_result list" int

definition srv_worker :: "server_sys \<Rightarrow> nat \<Rightarrow> server_worker option" where
  "srv_worker s i = (if i < length (srv_workers s) then Some (srv_workers s ! i) else None)"

fun server_exec :: "server_label \<Rightarrow> server_sys \<Rightarrow> server_sys run" where
  "server_exec (S_event a events fd) s =
     run_bind (server_event a events fd (srv_server s)) (\<lambda>c. Returned (s\<lparr>srv_server := c\<rparr>))"
| "server_exec (S_take i) s =
     (if srv_worker s i = Some Waiting_sender then
        run_bind (event_pop (sv_polls (srv_server s) ! i)) (\<lambda>e.
          Returned (s\<lparr>srv_workers := (srv_workers s)[i := Sending e]\<rparr>))
      else Blocked)"
| "server_exec (S_send i stack writes ctl) s =
     (case srv_worker s i of
        Some (Sending e) \<Rightarrow>
          run_bind (send_responce stack i e writes ctl (srv_server s)) (\<lambda>c.
            Returned (s\<lparr>srv_server := c, srv_workers := (srv_workers s)[i := Waiting_sender],
                        srv_done := srv_done s + 1\<rparr>))
      | _ \<Rightarrow> Blocked)"

text \<open>
  The responses started: each is pushed and then followed by a call that arms its socket for
  input again, the only such calls the server makes.
\<close>

fun starts_response :: "effect \<Rightarrow> bool" where
  "starts_response (Epoll_ctl efd (EPOLL_CTL_MOD events) fd) = (events = EPOLLIN OR EPOLLET)"
| "starts_response _ = False"

definition started :: "server_sys \<Rightarrow> nat" where
  "started s = length (filter starts_response (sv_effects (srv_server s)))"

text \<open>The start: \<open>n\<close> workers that wait, all \<open>n\<close> slots idle, and no response started.\<close>

definition server_sys_start :: "nat \<Rightarrow> server_sys \<Rightarrow> bool" where
  "server_sys_start n s \<longleftrightarrow>
     sv_polls (srv_server s) = replicate n (init_events_poll THREAD_IDLE)
        @ replicate (MAX_THREADS - n) (init_events_poll THREAD_INVALID)
   \<and> n \<le> MAX_THREADS \<and> srv_workers s = replicate n Waiting_sender \<and> srv_done s = 0
   \<and> started s = 0"

inductive server_reach :: "nat \<Rightarrow> server_sys \<Rightarrow> bool" for n where
  start: "server_sys_start n s \<Longrightarrow> server_reach n s"
| step: "server_reach n s \<Longrightarrow> server_exec l s = Returned t \<Longrightarrow> server_reach n t"

interpretation servers: step_system "server_sys_start n" "\<lambda>_ _. True" "\<lambda>l s. returned (server_exec l s)"
  "server_reach n"
  by unfold_locales (auto intro: server_reach.intros, erule server_reach.induct, auto)

text \<open>A batch of events is a sequence of steps, between which workers may run.\<close>

lemma server_batch_reach:
  "server_reach n s \<Longrightarrow> server_batch batch (srv_server s) = Returned c
    \<Longrightarrow> server_reach n (s\<lparr>srv_server := c\<rparr>)"
proof (induction batch arbitrary: s)
  case (Cons x rest)
  obtain a events fd where x: "x = (a, events, fd)" by (cases x)
  then obtain d where d: "server_event a events fd (srv_server s) = Returned d"
    "server_batch rest d = Returned c"
    using Cons.prems(2) by (auto simp: run_bind_eq_Returned_iff)
  have "server_reach n (s\<lparr>srv_server := d\<rparr>)"
    by (rule server_reach.step [where l = "S_event a events fd", OF Cons.prems(1)]) (simp add: d(1))
  with Cons.IH [of "s\<lparr>srv_server := d\<rparr>"] d(2) show ?case by simp
next
  case Nil
  then show ?case by (cases s) auto
qed

section \<open>What the handlers change\<close>

lemma mod_masks [simp]:
  "EPOLLOUT OR EPOLLET \<noteq> EPOLLIN OR EPOLLET"
  by (simp add: EPOLLOUT_def EPOLLIN_def EPOLLET_def)

lemma no_start_net [simp]: "filter starts_response (map Net calls) = []"
  by (induction calls) simp_all

lemma accept_no_start:
  "accept_epoll_events efd sfd as = Returned effects \<Longrightarrow> filter starts_response effects = []"
proof (induction efd sfd as arbitrary: effects rule: accept_epoll_events.induct)
  case (3 efd sfd a rest)
  then show ?case
    by (auto simp: Let_def add_epoll_event_def run_bind_eq_Returned_iff split: prod.splits if_splits)
qed simp_all

lemma no_exit_accept: "no_exit (accept_epoll_events efd sfd as)"
  by (induction efd sfd as rule: accept_epoll_events.induct)
    (auto simp: Let_def add_epoll_event_def intro!: no_exit_bind split: prod.splits)

lemma no_exit_read_request: "no_exit (read_request stack req r)"
  by (auto simp: read_request_def split: read_result.split intro!: no_exit_bind)

lemma no_exit_write_loop: "no_exit (write_responce_loop stack left_size amount asked ws)"
  by (induction stack left_size amount asked ws rule: write_responce_loop.induct)
    (auto simp: write_unit_responce_def set_buffer_data_def intro!: no_exit_bind
      simp del: of_access.simps split: write_result.split)

lemma no_exit_send: "no_exit (send_responce stack i e ws ctl s)"
  by (auto simp: send_responce_def write_responce_def no_exit_write_loop Let_def intro!: no_exit_bind)

lemma no_exit_pop: "no_exit (event_pop p)"
  by (simp add: event_pop_def)

text \<open>The events on which the epoll thread hands a response to a worker.\<close>

definition asks_response :: "server \<Rightarrow> u32 \<Rightarrow> int \<Rightarrow> bool" where
  "asks_response c events fd \<longleftrightarrow>
     events AND EPOLLERR = 0 \<and> events AND EPOLLHUP = 0 \<and> sv_sfd c \<noteq> fd \<and> events AND EPOLLIN = 0
   \<and> events AND EPOLLOUT \<noteq> 0 \<and> 0 \<le> fd \<and> fd < MAX_FLOWS"

lemma server_event_asked:
  assumes "asks_response c events fd"
  shows "server_event a events fd c =
    run_bind (event_push (sv_polls c) (word_of_int fd) (sv_flows_size c fd)) (\<lambda>(polls, _).
      Returned (c\<lparr>sv_polls := polls, sv_effects := sv_effects c
        @ [Epoll_ctl (sv_efd c) (EPOLL_CTL_MOD (EPOLLIN OR EPOLLET)) fd]\<rparr>))"
proof -
  obtain r where "modify_epoll_event (sv_efd c) fd EPOLLIN (sa_ctl a)
      = Returned ([Epoll_ctl (sv_efd c) (EPOLL_CTL_MOD (EPOLLIN OR EPOLLET)) fd], r)"
    using server_modify by blast
  with assms show ?thesis
    by (cases "event_push (sv_polls c) (word_of_int fd) (sv_flows_size c fd)")
      (auto simp: asks_response_def server_event_def read_flows_size_def)
qed

lemma server_event_not_asked:
  assumes "\<not> asks_response c events fd"
  shows "no_exit (server_event a events fd c)"
    and "server_event a events fd c = Returned c' \<Longrightarrow>
      sv_polls c' = sv_polls c \<and> sv_efd c' = sv_efd c \<and> sv_sfd c' = sv_sfd c
      \<and> filter starts_response (sv_effects c') = filter starts_response (sv_effects c)"
proof -
  show "no_exit (server_event a events fd c)"
    using assms
    by (auto simp: server_event_def asks_response_def no_exit_accept no_exit_read_request
        no_exit_modify read_flows_size_def intro!: no_exit_bind simp del: of_access.simps)
  assume "server_event a events fd c = Returned c'"
  with assms show "sv_polls c' = sv_polls c \<and> sv_efd c' = sv_efd c \<and> sv_sfd c' = sv_sfd c
      \<and> filter starts_response (sv_effects c') = filter starts_response (sv_effects c)"
    by (auto simp: server_event_def asks_response_def read_flows_size_def accept_no_start
        delete_epoll_event_def modify_epoll_event_def run_bind_eq_Returned_iff split: if_splits)
qed

section \<open>Accounting\<close>

text \<open>
  The slots are those of a pool of \<open>n\<close> threads, a worker that sends works on the event its busy slot
  holds, and the responses started are those done and those in a busy slot.
\<close>

definition srv_ok :: "nat \<Rightarrow> server_sys \<Rightarrow> bool" where
  "srv_ok n s \<longleftrightarrow>
     wf_polls n (sv_polls (srv_server s)) \<and> length (srv_workers s) = n
   \<and> (\<forall>i<n. \<forall>e. srv_workers s ! i = Sending e \<longrightarrow>
        i \<in> polls.busy n (sv_polls (srv_server s)) \<and> held_event (sv_polls (srv_server s)) i = e)
   \<and> started s = srv_done s + card (polls.busy n (sv_polls (srv_server s)))"

lemma srv_ok_start: "server_sys_start n s \<Longrightarrow> srv_ok n s"
  by (simp add: server_sys_start_def srv_ok_def wf_polls_init busy_init)

lemma srv_ok_asked:
  assumes ok: "srv_ok n s" and asked: "asks_response (srv_server s) events fd"
    and event: "server_event a events fd (srv_server s) = Returned c"
  shows "srv_ok n (s\<lparr>srv_server := c\<rparr>)"
proof -
  let ?p = "sv_polls (srv_server s)"
  let ?e = "\<lparr>ev_fd = word_of_int fd, ev_flow_size = sv_flows_size (srv_server s) fd\<rparr>"
  have wf: "wf_polls n ?p" using ok by (simp add: srv_ok_def)
  obtain q i where push: "push_event ?p ?e = Returned (q, i)"
    and c: "c = srv_server s\<lparr>sv_polls := q, sv_effects := sv_effects (srv_server s)
        @ [Epoll_ctl (sv_efd (srv_server s)) (EPOLL_CTL_MOD (EPOLLIN OR EPOLLET)) fd]\<rparr>"
    using event by (auto simp: server_event_asked [OF asked] push_event_def run_bind_eq_Returned_iff)
  note slots = polls.push_makes_busy [OF wf push]
  have "i \<notin> polls.busy n ?p" using slots(3) by (simp add: polls.busy_def)
  with ok slots show ?thesis
    by (auto simp: srv_ok_def c started_def)
qed

lemma srv_ok_event:
  assumes "srv_ok n s" "server_event a events fd (srv_server s) = Returned c"
  shows "srv_ok n (s\<lparr>srv_server := c\<rparr>)"
proof (cases "asks_response (srv_server s) events fd")
  case False
  with assms server_event_not_asked(2) [OF False assms(2)] show ?thesis
    by (simp add: srv_ok_def started_def)
next
  case True
  then show ?thesis by (rule srv_ok_asked [OF assms(1) _ assms(2)])
qed

lemma srv_ok_take:
  assumes ok: "srv_ok n s" and i: "i < length (srv_workers s)"
    and pop: "event_pop (sv_polls (srv_server s) ! i) = Returned e"
  shows "srv_ok n (s\<lparr>srv_workers := (srv_workers s)[i := Sending e]\<rparr>)"
proof -
  have len: "i < n" "n \<le> MAX_THREADS" using ok i by (auto simp: srv_ok_def wf_polls_def)
  have "poll_flag (sv_polls (srv_server s) ! i) \<noteq> THREAD_IDLE" "poll_event (sv_polls (srv_server s) ! i) = e"
    using pop by (auto simp: event_pop_def split: if_splits)
  then have "i \<in> polls.busy n (sv_polls (srv_server s))" "held_event (sv_polls (srv_server s)) i = e"
    using len by (auto simp: polls.busy_def idle_slots_def held_event_def)
  with ok i show ?thesis by (auto simp: srv_ok_def nth_list_update started_def)
qed

lemma send_responce_effect:
  assumes "send_responce stack i e ws ctl c = Returned c'"
  shows "sv_polls c' = release_slot (sv_polls c) i
    \<and> filter starts_response (sv_effects c') = filter starts_response (sv_effects c)"
  using assms
  by (auto simp: send_responce_def Let_def delete_epoll_event_def run_bind_eq_Returned_iff)

lemma srv_ok_send:
  assumes ok: "srv_ok n s" and i: "i < length (srv_workers s)" "srv_workers s ! i = Sending e"
    and send: "send_responce stack i e ws ctl (srv_server s) = Returned c"
  shows "srv_ok n (s\<lparr>srv_server := c, srv_workers := (srv_workers s)[i := Waiting_sender],
    srv_done := Suc (srv_done s)\<rparr>)"
proof -
  have wf: "wf_polls n (sv_polls (srv_server s))"
    and mem: "i \<in> polls.busy n (sv_polls (srv_server s))"
    using ok i by (simp_all add: srv_ok_def)
  note slots = polls.release_makes_idle [OF wf mem]
  have "polls.busy n (sv_polls c) = polls.busy n (sv_polls (srv_server s)) - {i}"
    "Suc (card (polls.busy n (sv_polls c))) = card (polls.busy n (sv_polls (srv_server s)))"
    "held_event (sv_polls c) = held_event (sv_polls (srv_server s))" "wf_polls n (sv_polls c)"
    "filter starts_response (sv_effects c) = filter starts_response (sv_effects (srv_server s))"
    using slots send_responce_effect [OF send] by simp_all
  with ok i show ?thesis
    by (auto simp: srv_ok_def nth_list_update started_def split: if_splits)
qed

lemma srv_worker_Some [simp]:
  "srv_worker s i = Some w \<longleftrightarrow> i < length (srv_workers s) \<and> srv_workers s ! i = w"
  by (simp add: srv_worker_def)

lemma srv_ok_step: "srv_ok n s \<Longrightarrow> server_exec l s = Returned t \<Longrightarrow> srv_ok n t"
  by (cases l)
    (auto simp: run_bind_eq_Returned_iff srv_ok_event srv_ok_take srv_ok_send
      split: if_splits option.splits server_worker.splits)

interpretation server_ok: step_invariant "server_sys_start n" "\<lambda>_ _. True" "\<lambda>l s. returned (server_exec l s)"
  "server_reach n" "srv_ok n"
  by unfold_locales (auto intro: srv_ok_start srv_ok_step simp del: server_exec.simps)

lemmas srv_ok_reach = server_ok.inv_reach

lemma server_exec_exits:
  "server_exec l s = Exited k \<longleftrightarrow> k = EXIT_SUCCESS \<and> idle_slots (sv_polls (srv_server s)) = {}
      \<and> (\<exists>a events fd. l = S_event a events fd \<and> asks_response (srv_server s) events fd)"
proof (cases l)
  case (S_event a events fd)
  show ?thesis
  proof (cases "asks_response (srv_server s) events fd")
    case True
    show ?thesis
    proof (cases "idle_slots (sv_polls (srv_server s)) = {}")
      case full: True
      with True S_event show ?thesis
        by (auto simp: server_event_asked event_push_full)
    next
      case False
      then obtain i q where "event_push (sv_polls (srv_server s)) (word_of_int fd) (sv_flows_size (srv_server s) fd) = Returned (q, i)"
        using event_push_idle [OF False] by blast
      with True False S_event show ?thesis by (simp add: server_event_asked)
    qed
  next
    case False
    then have "no_exit (server_exec l s)"
      using server_event_not_asked(1) S_event by (auto intro!: no_exit_bind)
    with False S_event show ?thesis by (auto simp: no_exit_def)
  qed
next
  case (S_take i)
  then have "no_exit (server_exec l s)" by (auto simp: no_exit_pop intro!: no_exit_bind)
  with S_take show ?thesis by (auto simp: no_exit_def)
next
  case (S_send i stack writes ctl)
  then have "no_exit (server_exec l s)"
    by (auto simp: no_exit_send intro!: no_exit_bind split: option.split server_worker.split)
  with S_send show ?thesis by (auto simp: no_exit_def)
qed

text \<open>
  In every interleaving, the responses the server has started are those it has finished and
  those in the busy slots, at most one for each of its \<open>n\<close> threads, and a worker sends what its slot
  holds.  The server ends, with status 0, exactly on an event that asks for a response while
  \<open>n\<close> responses are unfinished; no other event and no worker ends it.
\<close>

theorem server_ends_when_overloaded:
  assumes "server_reach n s"
  shows "srv_done s \<le> started s \<and> started s \<le> srv_done s + n
    \<and> (\<forall>i e. srv_worker s i = Some (Sending e) \<longrightarrow> held_event (sv_polls (srv_server s)) i = e)
    \<and> (server_exec l s = Exited k \<longleftrightarrow>
         k = EXIT_SUCCESS \<and> started s = srv_done s + n
         \<and> (\<exists>a events fd. l = S_event a events fd \<and> asks_response (srv_server s) events fd))"
proof -
  let ?p = "sv_polls (srv_server s)"
  have ok: "srv_ok n s" by (rule srv_ok_reach [OF assms])
  then have wf: "wf_polls n ?p" by (simp add: srv_ok_def)
  have cards: "card (polls.busy n ?p) + card (idle_slots ?p) = n"
    using polls.card_busy_idle [OF wf] by simp
  have full: "started s = srv_done s + n \<longleftrightarrow> idle_slots ?p = {}"
    using ok cards by (auto simp: srv_ok_def)
  with ok cards show ?thesis by (auto simp: srv_ok_def server_exec_exits)
qed

section \<open>The start and an overload\<close>

lemma get_server_threads:
  assumes "server_main atoi opts = Returned (conf, c)"
  shows "0 < sint (sc_threads conf)" "nat (sint (sc_threads conf)) < MAX_THREADS"
    "sv_polls c = replicate (nat (sint (sc_threads conf))) (init_events_poll THREAD_IDLE)
       @ replicate (MAX_THREADS - nat (sint (sc_threads conf))) (init_events_poll THREAD_INVALID)"
    "sv_effects c = []"
  using assms init_events_polls_spec [of "replicate MAX_THREADS (init_events_poll 0)"]
  by (auto simp: server_main_def run_bind_eq_Returned_iff Let_def split: if_splits)

text \<open>
  C39.  Whenever \<open>main\<close> and the start of the epoll thread succeed, the server is in a start state of
  the interleavings, with between 1 and 63 worker threads.
\<close>

theorem server_starts_well_formed:
  assumes "server_main atoi opts = Returned (conf, c)"
    and "epoll_server_start gai addrs opts_ans listen_ans create_ans ctl conf c = Returned c'"
  shows "let n = nat (sint (sc_threads conf)) in 0 < n \<and> n < MAX_THREADS
    \<and> server_sys_start n \<lparr>srv_server = c', srv_workers = replicate n Waiting_sender, srv_done = 0\<rparr>"
proof -
  note main = get_server_threads [OF assms(1)]
  have "sv_polls c' = sv_polls c \<and> filter starts_response (sv_effects c') = []"
    using assms(2) main(4)
    by (auto simp: epoll_server_start_def run_bind_eq_Returned_iff add_epoll_event_def Let_def
        split: prod.splits if_splits)
  with main show ?thesis
    by (simp add: server_sys_start_def started_def Let_def)
qed

theorem server_starts_well_formed_witness:
  "\<exists>c'. server_sys_start 2 \<lparr>srv_server = c', srv_workers = replicate 2 Waiting_sender, srv_done = 0\<rparr>"
proof -
  have "case server_main (\<lambda>_. 2) [(CHR ''t'', ''2'')] of Returned (conf, c) \<Rightarrow>
      sc_threads conf = 2 \<and> sc_port conf = 9001 | _ \<Rightarrow> False"
    by code_simp
  then obtain conf c where conf: "server_main (\<lambda>_. 2) [(CHR ''t'', ''2'')] = Returned (conf, c)"
    "sc_threads conf = 2" "sc_port conf = 9001"
    by (auto split: run.splits)
  have "create_and_bind 0 [(5, 0)] (sc_port conf) = Returned (5, [])"
    by (simp add: create_and_bind_outcome conf(3))
  then obtain c' where "epoll_server_start 0 [(5, 0)] (0, 0, 0, 0) 0 4 0 conf c = Returned c'"
    by (simp add: epoll_server_start_def set_socket_def make_socket_nonblocking_def add_epoll_event_def)
  with conf(1) have "let n = nat (sint (sc_threads conf)) in 0 < n \<and> n < MAX_THREADS
    \<and> server_sys_start n \<lparr>srv_server = c', srv_workers = replicate n Waiting_sender, srv_done = 0\<rparr>"
    by (rule server_starts_well_formed)
  moreover have "nat (sint (sc_threads conf)) = 2" by (simp add: conf(2))
  ultimately show ?thesis unfolding Let_def by metis
qed

definition small_server :: server_sys where
  "small_server = \<lparr>srv_server = sample_server\<lparr>sv_polls := replicate 1 (init_events_poll THREAD_IDLE)
     @ replicate (MAX_THREADS - 1) (init_events_poll THREAD_INVALID)\<rparr>,
     srv_workers = [Waiting_sender], srv_done = 0\<rparr>"

theorem server_ends_when_overloaded_witness:
  "\<exists>s. server_reach 1 s \<and> started s = 1
     \<and> server_exec (S_event sample_request EPOLLOUT 6) s = Exited EXIT_SUCCESS"
proof -
  let ?c = "srv_server small_server"
  have start: "server_reach 1 small_server"
    by (rule server_reach.start)
      (simp add: server_sys_start_def small_server_def sample_server_def started_def MAX_THREADS_def)
  have asks: "asks_response c EPOLLOUT fd" if "sv_sfd c = 3" "fd = 5 \<or> fd = 6" for c fd
    using that by (auto simp: asks_response_def event_masks MAX_FLOWS_def)
  have sfd: "sv_sfd ?c = 3" by (simp add: small_server_def sample_server_def)
  have "0 \<in> idle_slots (sv_polls ?c)"
    by (simp add: small_server_def idle_slots_def init_events_poll_def)
  then have "idle_slots (sv_polls ?c) \<noteq> {}" by auto
  then obtain i q where push: "event_push (sv_polls ?c) 5 (sv_flows_size ?c 5) = Returned (q, i)"
    using event_push_idle by blast
  have "asks_response ?c EPOLLOUT 5" using asks [OF sfd] by blast
  note event = server_event_asked [OF this, of sample_request]
  define s where "s = small_server\<lparr>srv_server := ?c\<lparr>sv_polls := q, sv_effects := sv_effects ?c
        @ [Epoll_ctl (sv_efd ?c) (EPOLL_CTL_MOD (EPOLLIN OR EPOLLET)) 5]\<rparr>\<rparr>"
  have step: "server_exec (S_event sample_request EPOLLOUT 5) small_server = Returned s"
    using event push by (simp add: s_def)
  have reach: "server_reach 1 s" by (rule server_reach.step [OF start step])
  have "started s = 1" "srv_done s = 0" "sv_sfd (srv_server s) = 3"
    using sfd by (simp_all add: s_def started_def) (simp_all add: small_server_def sample_server_def)
  with reach asks server_ends_when_overloaded [OF reach, of "S_event sample_request EPOLLOUT 6" EXIT_SUCCESS]
  show ?thesis by auto
qed

end
