(* ===== verification/FG_Server_Safe.thy ===== *)
theory FG_Server_Safe
  imports FG_Server_Steps
begin

text \<open>
  Safety of the server's threads (\<open>flow_generator/src/server/server.c\<close>): when the system behaves as
  expected and no more responses are due than there are threads, no step accesses memory out of
  bounds, fails an assertion, or ends the program.
\<close>

section \<open>Which calls return\<close>

text \<open>A call that returns, or waits for the system.\<close>

fun harmless :: "'a run \<Rightarrow> bool" where
  "harmless (Returned x) = True"
| "harmless Blocked = True"
| "harmless _ = False"

lemma harmless_iff: "harmless m \<longleftrightarrow> m = Blocked \<or> (\<exists>x. m = Returned x)"
  by (cases m) simp_all

lemma harmless_bind: "harmless m \<Longrightarrow> (\<And>x. m = Returned x \<Longrightarrow> harmless (f x)) \<Longrightarrow> harmless (run_bind m f)"
  by (cases m) simp_all

lemma harmless_accept: "harmless (accept_epoll_events efd sfd as)"
  by (induction efd sfd as rule: accept_epoll_events.induct)
    (auto simp: Let_def add_epoll_event_def intro!: harmless_bind split: prod.splits)

lemma harmless_modify:
  "events = EPOLLIN \<or> events = EPOLLOUT \<Longrightarrow> harmless (modify_epoll_event efd fd events ans)"
  using server_modify [of events efd fd ans] by auto

lemma deserialize_whole_block:
  "length payload = 4 \<Longrightarrow> \<exists>req'. deserialize_payload payload 0 req = Some req'"
  by (auto simp: deserialize_payload_def deserialize_u32_def upt_rec c_read_def)

lemma harmless_read_request:
  assumes "length stack = PAYLOAD_SIZE" "\<And>bs. r = Read bs \<Longrightarrow> length bs \<le> PAYLOAD_SIZE"
  shows "harmless (read_request stack req r)"
proof (cases r)
  case (Read bs)
  then have "c_blit stack bs = Some (bs @ drop (length bs) stack)"
    "length (bs @ drop (length bs) stack) = 4"
    using assms by (simp_all add: c_blit_def PAYLOAD_SIZE_def)
  moreover obtain req' where "deserialize_payload (bs @ drop (length bs) stack) 0 req = Some req'"
    using deserialize_whole_block calculation(2) by blast
  ultimately show ?thesis using Read by (simp add: read_request_def)
qed (simp add: read_request_def)

text \<open>A \<open>write\<close> takes no more than it is asked to, which is what is left, at most a buffer.\<close>

fun fits_writes :: "int \<Rightarrow> write_result list \<Rightarrow> bool" where
  "fits_writes left [] = True"
| "fits_writes left (w # ws) =
     (left \<le> 0 \<or>
      (case w of
         Wrote k \<Rightarrow> int k \<le> min left (int MAX_WRITE_BUFF) \<and> fits_writes (left - int k) ws
       | Write_error e \<Rightarrow> fits_writes left ws))"

lemma harmless_write_loop:
  assumes "fits_writes left ws" "amount + left \<le> INT_MAX" "length stack = MAX_WRITE_BUFF"
  shows "harmless (write_responce_loop stack left amount asked ws)"
  using assms
proof (induction ws arbitrary: left amount asked)
  case (Cons w ws)
  show ?case
  proof (cases "0 < left")
    case True
    note round = write_round [OF Cons.prems(3) True, of amount asked w ws]
    show ?thesis
    proof (cases w)
      case (Wrote k)
      with True Cons.prems(1) have "int k \<le> left" "fits_writes (left - int k) ws" by auto
      with Cons.IH [of "left - int k" "amount + int k"] Cons.prems(2,3) round Wrote show ?thesis
        by (simp add: Let_def)
    next
      case (Write_error e)
      with True Cons.prems Cons.IH [of left amount] round show ?thesis by (simp add: Let_def)
    qed
  qed simp
qed simp

lemma harmless_send:
  assumes "fits_writes (sint (ev_flow_size e)) ws" "length stack = MAX_WRITE_BUFF"
  shows "harmless (send_responce stack i e ws ctl s)"
proof -
  have "sint (ev_flow_size e) \<le> INT_MAX" using sint_lt [of "ev_flow_size e"] by (simp add: INT_MAX_def)
  then have "harmless (write_responce stack (sint (ev_flow_size e)) ws)"
    using harmless_write_loop [OF assms(1) _ assms(2), of 0 "[]"] by (simp add: write_responce_def)
  then show ?thesis by (auto simp: send_responce_def Let_def intro!: harmless_bind)
qed

section \<open>No step goes wrong\<close>

text \<open>
  Sockets are below 65536, \<open>read\<close> and \<open>write\<close> transfer no more than asked for, and a response is asked
  for only while one of the \<open>n\<close> threads is free.
\<close>

fun server_expected :: "nat \<Rightarrow> server_label \<Rightarrow> server_sys \<Rightarrow> bool" where
  "server_expected n (S_event a events fd) s =
     (0 \<le> fd \<and> fd < MAX_FLOWS \<and> length (sa_stack a) = PAYLOAD_SIZE
      \<and> (case sa_read a of Read bs \<Rightarrow> length bs \<le> PAYLOAD_SIZE | Read_error e \<Rightarrow> True)
      \<and> (asks_response (srv_server s) events fd \<longrightarrow> started s < srv_done s + n))"
| "server_expected n (S_send i stack writes ctl) s =
     (length stack = MAX_WRITE_BUFF
      \<and> (case srv_worker s i of Some (Sending e) \<Rightarrow> fits_writes (sint (ev_flow_size e)) writes | _ \<Rightarrow> True))"
| "server_expected n (S_take i) s = True"

lemma harmless_event:
  assumes "srv_ok n s" "server_expected n (S_event a events fd) s"
  shows "harmless (server_event a events fd (srv_server s))"
proof (cases "asks_response (srv_server s) events fd")
  case True
  let ?p = "sv_polls (srv_server s)"
  have "wf_polls n ?p" "started s = srv_done s + card (polls.busy n ?p)"
    using assms(1) by (simp_all add: srv_ok_def)
  then have "idle_slots ?p \<noteq> {}"
    using assms(2) True polls.card_busy_idle [of n ?p] by auto
  then obtain q i where "event_push ?p (word_of_int fd) (sv_flows_size (srv_server s) fd) = Returned (q, i)"
    using event_push_idle [of ?p] by blast
  then show ?thesis by (simp add: server_event_asked [OF True])
next
  case False
  have read: "harmless (read_request (sa_stack a) (sa_req a) (sa_read a))"
    using assms(2) by (intro harmless_read_request) auto
  have sizes: "write_flows_size sz fd v = Some (sz(fd := v))" for sz v
    using assms(2) by (simp add: write_flows_size_def)
  have store: "harmless (if x \<le> 0 then Returned c else run_bind (of_access (write_flows_size sz fd v))
      (\<lambda>sizes. Returned (f sizes)))" for x :: int and c sz v and f :: "(int \<Rightarrow> u32) \<Rightarrow> server"
    by (simp add: sizes)
  show ?thesis
    using assms(2) False
    by (auto simp: server_event_def asks_response_def harmless_accept read store
        simp del: of_access.simps intro!: harmless_bind harmless_modify)
qed

text \<open>
  In every reachable state of the server, as long as the system behaves as expected and a thread is
  free for each response asked for, a step returns or waits for the system: it makes no access out of
  bounds, fails no assertion, and does not end the program.
\<close>

theorem server_never_faults:
  assumes "server_reach n s" "server_expected n l s"
  shows "server_exec l s = Blocked \<or> (\<exists>t. server_exec l s = Returned t)"
proof -
  have ok: "srv_ok n s" by (rule srv_ok_reach [OF assms(1)])
  have "harmless (server_exec l s)"
  proof (cases l)
    case (S_event a events fd)
    with harmless_event [OF ok] assms(2) show ?thesis by (auto intro!: harmless_bind)
  next
    case (S_take i)
    then show ?thesis by (auto simp: event_pop_def intro!: harmless_bind)
  next
    case (S_send i stack writes ctl)
    show ?thesis
    proof (cases "srv_worker s i")
      case None
      with S_send show ?thesis by simp
    next
      case (Some w)
      then show ?thesis
      proof (cases w)
        case (Sending e)
        with S_send Some assms(2) have "harmless (send_responce stack i e writes ctl (srv_server s))"
          by (intro harmless_send) (simp_all add: srv_worker_def)
        with S_send Some Sending show ?thesis by (auto simp: srv_worker_def intro!: harmless_bind)
      next
        case Waiting_sender
        with S_send Some show ?thesis by (simp add: srv_worker_def)
      qed
    qed
  qed
  then show ?thesis by (simp add: harmless_iff)
qed

theorem server_never_faults_witness:
  "\<exists>t. server_exec (S_event sample_request EPOLLIN 5) small_server = Returned t"
proof -
  have start: "server_reach 1 small_server"
    by (rule server_reach.start)
      (simp add: server_sys_start_def small_server_def sample_server_def started_def MAX_THREADS_def)
  have "server_expected 1 (S_event sample_request EPOLLIN 5) small_server"
    by (simp add: MAX_FLOWS_def sample_request_def PAYLOAD_SIZE_def asks_response_def event_masks)
  from server_never_faults [OF start this]
  have "server_exec (S_event sample_request EPOLLIN 5) small_server = Blocked
    \<or> (\<exists>t. server_exec (S_event sample_request EPOLLIN 5) small_server = Returned t)" .
  moreover have "server_event sample_request EPOLLIN 5 (srv_server small_server) \<noteq> Blocked"
    by (auto simp: server_event_def small_server_def sample_server_def event_masks sample_request_def
        read_request_def modify_epoll_event_def c_blit_def write_flows_size_def MAX_FLOWS_def
        deserialize_payload_def deserialize_u32_def c_read_def upt_rec)
  ultimately show ?thesis
    by (cases "server_event sample_request EPOLLIN 5 (srv_server small_server)") auto
qed

end
