(* ===== verification/FG_Server_Threads.thy ===== *)
theory FG_Server_Threads
  imports FG_Server_Safe FG_Pool_Atomic
begin

text \<open>
  The threads of the server at the grain of \<open>FG_Pool_Steps\<close> (\<open>epoll_server\<close> and \<open>responce_thread\<close> in
  \<open>server/server.c\<close> on top of \<open>common/thread_poll.c\<close>).  The epoll thread chooses a slot, stores the event and
  signals, and only then arms the socket for input again; meanwhile the worker may already send
  the response, close the socket, and give its slot back in a step of its own.

  With prompt signals these threads do what \<open>FG_Server_Steps\<close> describes, up to the order in which the
  system calls of different threads are made.
\<close>

section \<open>The handlers cut where other threads can run\<close>

text \<open>The handling of an event up to \<open>event_push\<close>; the event to be pushed, if any, comes with the state.\<close>

definition server_event_upto ::
    "server_answers \<Rightarrow> u32 \<Rightarrow> int \<Rightarrow> server \<Rightarrow> (server \<times> event_info option) run" where
  "server_event_upto a events fd s =
     (if events AND EPOLLERR \<noteq> 0 \<or> events AND EPOLLHUP \<noteq> 0 then
        Returned (s\<lparr>sv_effects := sv_effects s @ fst (delete_epoll_event (sv_efd s) fd (sa_ctl a))\<rparr>, None)
      else if sv_sfd s = fd then
        run_bind (accept_epoll_events (sv_efd s) (sv_sfd s) (sa_accepts a)) (\<lambda>effects.
          Returned (s\<lparr>sv_effects := sv_effects s @ effects\<rparr>, None))
      else if events AND EPOLLIN \<noteq> 0 then
        run_bind (read_request (sa_stack a) (sa_req a) (sa_read a)) (\<lambda>flow_size.
        run_bind
          (if flow_size \<le> 0 then
             Returned (s\<lparr>sv_effects := sv_effects s
               @ fst (delete_epoll_event (sv_efd s) fd (sa_ctl a)) @ [Net (Close fd)]\<rparr>)
           else
             run_bind (of_access (write_flows_size (sv_flows_size s) fd (word_of_int flow_size)))
               (\<lambda>sizes. Returned (s\<lparr>sv_flows_size := sizes\<rparr>)))
          (\<lambda>s1.
        run_bind (modify_epoll_event (sv_efd s1) fd EPOLLOUT (sa_ctl a)) (\<lambda>(effects, _).
          Returned (s1\<lparr>sv_effects := sv_effects s1 @ effects\<rparr>, None))))
      else if events AND EPOLLOUT \<noteq> 0 then
        run_bind (of_access (read_flows_size (sv_flows_size s) fd)) (\<lambda>flow_size.
          Returned (s, Some \<lparr>ev_fd = word_of_int fd, ev_flow_size = flow_size\<rparr>))
      else Returned (s, None))"

text \<open>The body of a worker's loop up to the marking of its slot as idle.\<close>

definition send_upto ::
    "u8 list \<Rightarrow> event_info \<Rightarrow> write_result list \<Rightarrow> int \<Rightarrow> server \<Rightarrow> server run" where
  "send_upto stack event writes ctl s =
     (let fd = sint (ev_fd event); flow_size = sint (ev_flow_size event) in
      run_bind (write_responce stack flow_size writes) (\<lambda>(n, _).
        let e1 = (if n \<noteq> flow_size then [Net (Close fd)] else [])
        in Returned (s\<lparr>sv_effects := sv_effects s @ e1
               @ fst (delete_epoll_event (sv_efd s) fd ctl) @ [Net (Close fd)]\<rparr>)))"

text \<open>
  The handlers do not look at the slots before the push, and only append to the list of system
  calls made.
\<close>

abbreviation placed :: "effect list \<Rightarrow> events_poll list \<Rightarrow> server \<Rightarrow> server" where
  "placed es ps c \<equiv> c\<lparr>sv_effects := es, sv_polls := ps\<rparr>"

lemma server_event_at:
  "server_event a events fd (placed es ps c) =
     run_bind (server_event_upto a events fd c) (\<lambda>(c1, event).
       case event of
         None \<Rightarrow> Returned (placed (es @ drop (length (sv_effects c)) (sv_effects c1)) ps c1)
       | Some e \<Rightarrow> run_bind (push_event ps e) (\<lambda>(ps', _).
           Returned (placed (es @ [Epoll_ctl (sv_efd c) (EPOLL_CTL_MOD (EPOLLIN OR EPOLLET)) fd]) ps' c1)))"
proof -
  obtain r where arm: "modify_epoll_event (sv_efd c) fd EPOLLIN (sa_ctl a)
      = Returned ([Epoll_ctl (sv_efd c) (EPOLL_CTL_MOD (EPOLLIN OR EPOLLET)) fd], r)"
    using server_modify by blast
  obtain r' where out: "modify_epoll_event (sv_efd c) fd EPOLLOUT (sa_ctl a)
      = Returned ([Epoll_ctl (sv_efd c) (EPOLL_CTL_MOD (EPOLLOUT OR EPOLLET)) fd], r')"
    using server_modify by blast
  consider (failed) "events AND EPOLLERR \<noteq> 0 \<or> events AND EPOLLHUP \<noteq> 0"
    | (listening) "events AND EPOLLERR = 0" "events AND EPOLLHUP = 0" "sv_sfd c = fd"
    | (reading) "events AND EPOLLERR = 0" "events AND EPOLLHUP = 0" "sv_sfd c \<noteq> fd" "events AND EPOLLIN \<noteq> 0"
    | (writing) "events AND EPOLLERR = 0" "events AND EPOLLHUP = 0" "sv_sfd c \<noteq> fd"
        "events AND EPOLLIN = 0" "events AND EPOLLOUT \<noteq> 0"
    | (other) "events AND EPOLLERR = 0" "events AND EPOLLHUP = 0" "sv_sfd c \<noteq> fd"
        "events AND EPOLLIN = 0" "events AND EPOLLOUT = 0" by blast
  then show ?thesis
  proof cases
    case listening
    then show ?thesis
      by (cases "accept_epoll_events (sv_efd c) fd (sa_accepts a)")
        (simp_all add: server_event_def server_event_upto_def)
  next
    case reading
    show ?thesis
    proof (cases "read_request (sa_stack a) (sa_req a) (sa_read a)")
      case (Returned n)
      with reading out show ?thesis
        by (cases "write_flows_size (sv_flows_size c) fd (word_of_int n)"; cases c)
          (simp_all add: server_event_def server_event_upto_def)
    qed (use reading in \<open>simp_all add: server_event_def server_event_upto_def\<close>)
  next
    case writing
    show ?thesis
    proof (cases "read_flows_size (sv_flows_size c) fd")
      case (Some k)
      with writing show ?thesis
        by (cases "event_push ps (word_of_int fd) k")
          (simp_all add: server_event_def server_event_upto_def push_event_def arm case_prod_beta')
    qed (use writing in \<open>simp_all add: server_event_def server_event_upto_def\<close>)
  qed (simp_all add: server_event_def server_event_upto_def delete_epoll_event_def)
qed

lemma server_event_upto_effects:
  assumes "server_event_upto a events fd c = Returned (c1, event)"
  shows "sv_polls c1 = sv_polls c" "sv_efd c1 = sv_efd c"
    "\<exists>new. sv_effects c1 = sv_effects c @ new \<and> filter starts_response new = []"
    "event \<noteq> None \<Longrightarrow> c1 = c \<and> asks_response c events fd"
    "event = None \<Longrightarrow> \<not> asks_response c events fd"
  using assms
  by (auto simp: server_event_upto_def asks_response_def read_flows_size_def accept_no_start
      delete_epoll_event_def modify_epoll_event_def run_bind_eq_Returned_iff split: if_splits)

lemma send_upto_effects:
  assumes "send_upto stack e writes ctl c = Returned c'"
  shows "\<exists>new. c' = c\<lparr>sv_effects := sv_effects c @ new\<rparr> \<and> filter starts_response new = []"
    "\<exists>r. write_responce stack (sint (ev_flow_size e)) writes = Returned r"
  using assms
  by (auto simp: send_upto_def Let_def delete_epoll_event_def run_bind_eq_Returned_iff)

lemma send_responce_returns:
  assumes "write_responce stack (sint (ev_flow_size e)) writes = Returned r"
  shows "\<exists>new. send_responce stack i e writes 0 (placed es ps c) =
    Returned (placed (es @ new) (release_slot ps i) c)"
  using assms by (cases r; cases c) (auto simp: send_responce_def Let_def)

section \<open>States and steps\<close>

text \<open>
  The slots and the places of the threads in \<open>event_push\<close> and \<open>event_pop\<close> are a state of \<open>FG_Pool_Steps\<close>; the
  field \<open>sv_polls\<close> of the server is not used.  \<open>st_arming\<close> is the socket the epoll thread has still to
  arm after a push; a worker in \<open>st_sent\<close> has sent its response and has still to mark its slot idle.
\<close>

record server_running =
  st_server :: server
  st_pool :: pool
  st_arming :: "int option"
  st_sent :: "nat set"
  st_done :: nat

datatype server_thread_label =
    V_event server_answers u32 int
  | V_pool pool_label
  | V_arm int
  | V_send nat "u8 list" "write_result list" int
  | V_release nat

fun server_threads_exec :: "server_thread_label \<Rightarrow> server_running \<Rightarrow> server_running run" where
  "server_threads_exec (V_event a events fd) s =
     (if pool_pusher (st_pool s) \<noteq> Push_ready \<or> st_arming s \<noteq> None then Blocked
      else
        run_bind (server_event_upto a events fd (st_server s)) (\<lambda>(c, event).
          case event of
            None \<Rightarrow> Returned (s\<lparr>st_server := c\<rparr>)
          | Some e \<Rightarrow>
              run_bind (of_step (pool_exec (Choose e) (st_pool s))) (\<lambda>p.
                if pool_pusher p = Push_exited then Exited EXIT_SUCCESS
                else Returned (s\<lparr>st_server := c, st_pool := p, st_arming := Some fd\<rparr>))))"
| "server_threads_exec (V_pool l) s =
     (case l of
        Choose e \<Rightarrow> Blocked
      | Finish i \<Rightarrow> Blocked
      | _ \<Rightarrow> run_bind (of_step (pool_exec l (st_pool s))) (\<lambda>p. Returned (s\<lparr>st_pool := p\<rparr>)))"
| "server_threads_exec (V_arm ctl) s =
     (case st_arming s of
        Some fd \<Rightarrow>
          if pool_pusher (st_pool s) \<noteq> Push_ready then Blocked
          else
            run_bind (modify_epoll_event (sv_efd (st_server s)) fd EPOLLIN ctl) (\<lambda>(effects, _).
              Returned (s\<lparr>st_server := (st_server s)\<lparr>sv_effects := sv_effects (st_server s) @ effects\<rparr>,
                          st_arming := None\<rparr>))
      | None \<Rightarrow> Blocked)"
| "server_threads_exec (V_send i stack writes ctl) s =
     (case worker_at (st_pool s) i of
        Some (Working e) \<Rightarrow>
          if i \<in> st_sent s then Blocked
          else
            run_bind (send_upto stack e writes ctl (st_server s)) (\<lambda>c.
              Returned (s\<lparr>st_server := c, st_sent := insert i (st_sent s)\<rparr>))
      | _ \<Rightarrow> Blocked)"
| "server_threads_exec (V_release i) s =
     (if i \<in> st_sent s then
        run_bind (of_step (pool_exec (Finish i) (st_pool s))) (\<lambda>p.
          Returned (s\<lparr>st_pool := p, st_sent := st_sent s - {i}, st_done := st_done s + 1\<rparr>))
      else Blocked)"

definition server_threads_ok :: "server_thread_label \<Rightarrow> server_running \<Rightarrow> bool" where
  "server_threads_ok l s = (case l of V_pool k \<Rightarrow> prompt k (st_pool s) | _ \<Rightarrow> True)"

definition server_threads_start :: "nat \<Rightarrow> server \<Rightarrow> server_running" where
  "server_threads_start n c =
     \<lparr>st_server = c, st_pool = init_pool n, st_arming = None, st_sent = {}, st_done = 0\<rparr>"

inductive server_threads_reach :: "nat \<Rightarrow> server \<Rightarrow> server_running \<Rightarrow> bool" for n c where
  start: "n \<le> MAX_THREADS \<Longrightarrow> filter starts_response (sv_effects c) = []
    \<Longrightarrow> server_threads_reach n c (server_threads_start n c)"
| step: "server_threads_reach n c s \<Longrightarrow> server_threads_ok l s
    \<Longrightarrow> server_threads_exec l s = Returned t \<Longrightarrow> server_threads_reach n c t"

section \<open>Refinement\<close>

text \<open>The responses handed to a worker, with the one the epoll thread is about to store.\<close>

definition handed :: "pool \<Rightarrow> nat" where
  "handed p = length (pool_pushed p) + (case pool_pusher p of Push_chosen i e \<Rightarrow> 1 | _ \<Rightarrow> 0)"

fun sender_of :: "event_info option \<Rightarrow> server_worker" where
  "sender_of None = Waiting_sender"
| "sender_of (Some e) = Sending e"

text \<open>
  How a state of the threads is seen with atomic steps: everything agrees but the list of system
  calls, in which the calls of different threads may be in another order.
\<close>

definition server_view :: "server_running \<Rightarrow> server_sys \<Rightarrow> bool" where
  "server_view s a \<longleftrightarrow>
     (\<exists>es. srv_server a = placed es (stored_polls (st_pool s)) (st_server s))
   \<and> srv_workers a = map (\<lambda>i. sender_of (in_hand (st_pool s) i)) [0..<length (pool_workers (st_pool s))]
   \<and> srv_done a = st_done s \<and> started a = handed (st_pool s)"

definition can_send :: "event_info \<Rightarrow> bool" where
  "can_send e \<longleftrightarrow>
     (\<exists>stack writes r. write_responce stack (sint (ev_flow_size e)) writes = Returned r)"

definition server_threads_wf :: "nat \<Rightarrow> server_running \<Rightarrow> bool" where
  "server_threads_wf n s \<longleftrightarrow> n \<le> MAX_THREADS \<and> pool_reach prompt n (st_pool s)
     \<and> (\<forall>i\<in>st_sent s. \<exists>e. worker_at (st_pool s) i = Some (Working e) \<and> can_send e)"

lemma server_view_start:
  assumes "n \<le> MAX_THREADS" "filter starts_response (sv_effects c) = []"
  shows "\<exists>a. server_sys_start n a \<and> server_view (server_threads_start n c) a"
proof -
  define a where "a = \<lparr>srv_server = placed (sv_effects c) (pool_polls (init_pool n)) c,
    srv_workers = replicate n Waiting_sender, srv_done = 0\<rparr>"
  have "map (\<lambda>i. sender_of (in_hand (init_pool n) i)) [0..<n] = replicate n Waiting_sender"
    by (intro nth_equalityI) (simp_all add: in_hand_def init_pool_def)
  then have "server_view (server_threads_start n c) a"
    using assms unfolding server_view_def
    by (intro conjI exI [of _ "sv_effects c"])
      (simp_all add: server_threads_start_def a_def stored_init started_def handed_def,
       simp_all add: init_pool_def)
  moreover have "server_sys_start n a"
    using assms by (simp add: server_sys_start_def a_def started_def) (simp add: init_pool_def)
  ultimately show ?thesis by blast
qed

lemma server_wf_pool_step:
  assumes "server_threads_wf n s" "pool_exec l (st_pool s) = Some p" "prompt l (st_pool s)"
    and "\<And>i. l = Finish i \<Longrightarrow> i \<notin> sent" "sent \<subseteq> st_sent s"
  shows "server_threads_wf n (s\<lparr>st_pool := p, st_sent := sent\<rparr>)"
proof -
  have wf: "n \<le> MAX_THREADS" "pool_reach prompt n (st_pool s)"
    using assms(1) by (simp_all add: server_threads_wf_def)
  have "\<exists>e. worker_at p i = Some (Working e) \<and> can_send e" if "i \<in> sent" for i
  proof -
    have "i \<in> st_sent s" using that assms(5) by blast
    then obtain e where "worker_at (st_pool s) i = Some (Working e)" "can_send e"
      using assms(1) by (auto simp: server_threads_wf_def simp del: worker_at_Some)
    moreover from this(1) have "worker_at p i = Some (Working e)"
      using assms(4) that by (intro working_kept [OF assms(2)]) auto
    ultimately show ?thesis by blast
  qed
  moreover have "pool_reach prompt n p" using wf(2) assms(3,2) by (rule pool_reach.step)
  ultimately show ?thesis using wf(1) by (simp add: server_threads_wf_def del: worker_at_Some)
qed

lemma server_threads_wf_step:
  assumes wf: "server_threads_wf n s" and ok: "server_threads_ok l s"
    and ex: "server_threads_exec l s = Returned t"
  shows "server_threads_wf n t"
proof (cases l)
  case (V_event a events fd)
  with ex obtain c e where upto: "server_event_upto a events fd (st_server s) = Returned (c, e)"
    by (auto simp: run_bind_eq_Returned_iff split: if_splits)
  show ?thesis
  proof (cases e)
    case None
    with ex upto V_event wf show ?thesis by (auto simp: server_threads_wf_def split: if_splits)
  next
    case (Some ev)
    with ex upto V_event obtain p where p: "pool_exec (Choose ev) (st_pool s) = Some p"
      "t = s\<lparr>st_server := c, st_pool := p, st_arming := Some fd\<rparr>"
      by (auto simp: run_bind_eq_Returned_iff split: if_splits simp del: pool_exec.simps)
    have "server_threads_wf n (s\<lparr>st_pool := p, st_sent := st_sent s\<rparr>)"
      by (rule server_wf_pool_step [OF wf p(1) prompt_choose [OF p(1)]]) simp_all
    then show ?thesis by (simp add: p(2) server_threads_wf_def)
  qed
next
  case (V_pool k)
  with ex obtain p where p: "pool_exec k (st_pool s) = Some p" "t = s\<lparr>st_pool := p\<rparr>" "\<And>i. k \<noteq> Finish i"
    by (auto simp: run_bind_eq_Returned_iff split: pool_label.splits simp del: pool_exec.simps)
  have "prompt k (st_pool s)" using ok V_pool by (simp add: server_threads_ok_def)
  then have "server_threads_wf n (s\<lparr>st_pool := p, st_sent := st_sent s\<rparr>)"
    using p(3) by (intro server_wf_pool_step [OF wf p(1)]) blast+
  then show ?thesis by (simp add: p(2) server_threads_wf_def)
next
  case (V_arm ctl)
  with ex wf show ?thesis
    by (auto simp: server_threads_wf_def run_bind_eq_Returned_iff split: option.splits if_splits)
next
  case (V_send i stack writes ctl)
  with ex obtain e c where i: "worker_at (st_pool s) i = Some (Working e)" "i \<notin> st_sent s"
    "send_upto stack e writes ctl (st_server s) = Returned c"
    "t = s\<lparr>st_server := c, st_sent := insert i (st_sent s)\<rparr>"
    by (auto simp: run_bind_eq_Returned_iff split: option.splits worker.splits if_splits)
  moreover have "can_send e" using send_upto_effects(2) [OF i(3)] by (auto simp: can_send_def)
  ultimately show ?thesis using wf by (simp add: server_threads_wf_def)
next
  case (V_release i)
  with ex obtain p where p: "pool_exec (Finish i) (st_pool s) = Some p"
    "t = s\<lparr>st_pool := p, st_sent := st_sent s - {i}, st_done := st_done s + 1\<rparr>"
    by (auto simp: run_bind_eq_Returned_iff split: if_splits simp del: pool_exec.simps)
  have "server_threads_wf n (s\<lparr>st_pool := p, st_sent := st_sent s - {i}\<rparr>)"
    by (rule server_wf_pool_step [OF wf p(1) prompt_finish]) auto
  then show ?thesis by (simp add: p(2) server_threads_wf_def)
qed

interpretation server_running: step_system
  "\<lambda>s. n \<le> MAX_THREADS \<and> filter starts_response (sv_effects c) = [] \<and> s = server_threads_start n c"
  server_threads_ok "\<lambda>l s. returned (server_threads_exec l s)" "server_threads_reach n c"
  by unfold_locales
    (auto intro: server_threads_reach.intros simp del: server_threads_exec.simps, erule server_threads_reach.induct, auto)

interpretation server_running_wf: step_invariant
  "\<lambda>s. n \<le> MAX_THREADS \<and> filter starts_response (sv_effects c) = [] \<and> s = server_threads_start n c"
  server_threads_ok "\<lambda>l s. returned (server_threads_exec l s)" "server_threads_reach n c" "server_threads_wf n"
proof unfold_locales
  show "server_threads_wf n s"
    if "n \<le> MAX_THREADS \<and> filter starts_response (sv_effects c) = [] \<and> s = server_threads_start n c" for s
    using that by (simp add: server_threads_wf_def server_threads_start_def pool_reach.init)
qed (use server_threads_wf_step in auto)

lemmas server_threads_reach_wf = server_running_wf.inv_reach

text \<open>Only the choice of a slot hands a response over, and only it can meet no idle slot.\<close>

lemma handed_choose:
  assumes "pool_exec (Choose e) p = Some q" "pool_pusher q \<noteq> Push_exited"
  shows "handed q = Suc (handed p)"
  using assms by (auto simp: handed_def Let_def split: if_splits)

lemma handed_other:
  assumes "pool_ok n p" "pool_exec l p = Some q" "\<And>e. l \<noteq> Choose e"
  shows "handed q = handed p"
  using assms
  by (cases l) (auto simp: handed_def pool_ok_def pusher_ok_def do_store_def do_pop_def Let_def
      split: pusher.splits option.splits worker.splits if_splits)

lemma workers_length_step:
  "pool_exec l p = Some q \<Longrightarrow> length (pool_workers q) = length (pool_workers p)"
  by (cases l) (auto simp: do_store_def do_pop_def Let_def
      split: pusher.splits option.splits worker.splits if_splits)

text \<open>The view after a step of one worker, with its new event and new slots.\<close>

lemma server_view_update:
  assumes view: "server_view s a" and i: "i < length (pool_workers (st_pool s))"
    and p: "length (pool_workers p) = length (pool_workers (st_pool s))"
      "in_hand p = (in_hand (st_pool s))(i := e)" "handed p = handed (st_pool s)"
    and a': "srv_server a' = placed es (stored_polls p) (st_server s)"
      "srv_workers a' = (srv_workers a)[i := sender_of e]" "srv_done a' = st_done t" "started a' = started a"
    and t: "st_pool t = p" "st_server t = st_server s"
  shows "server_view t a'"
proof -
  have "srv_workers a' = map (\<lambda>j. sender_of (in_hand p j)) [0..<length (pool_workers p)]"
    using view i p unfolding a'(2) server_view_def
    by (intro nth_equalityI) (auto simp: nth_list_update)
  then show ?thesis
    using view p a' t unfolding server_view_def by auto
qed

lemma server_event_seen:
  assumes view: "server_view s a" and ready: "pool_pusher (st_pool s) = Push_ready"
    and ex: "server_threads_exec (V_event ans events fd) s = Returned t"
  shows "\<exists>a'. server_exec (S_event ans events fd) a = Returned a' \<and> server_view t a'"
proof -
  obtain es where c: "srv_server a = placed es (stored_polls (st_pool s)) (st_server s)"
    and rest: "srv_workers a = map (\<lambda>i. sender_of (in_hand (st_pool s) i)) [0..<length (pool_workers (st_pool s))]"
      "srv_done a = st_done s" "started a = handed (st_pool s)"
    using view by (auto simp: server_view_def)
  have count: "length (filter starts_response es) = handed (st_pool s)"
    using rest(3) by (simp add: started_def c)
  obtain c1 e where upto: "server_event_upto ans events fd (st_server s) = Returned (c1, e)"
    using ex by (auto simp: run_bind_eq_Returned_iff split: if_splits)
  note effects = server_event_upto_effects [OF upto]
  obtain new where new: "sv_effects c1 = sv_effects (st_server s) @ new" "filter starts_response new = []"
    using effects(3) by blast
  show ?thesis
  proof (cases e)
    case None
    have t: "t = s\<lparr>st_server := c1\<rparr>" using ex upto None by (simp split: if_splits)
    have "server_exec (S_event ans events fd) a
        = Returned (a\<lparr>srv_server := placed (es @ new) (stored_polls (st_pool s)) c1\<rparr>)"
      using upto None by (simp add: c server_event_at new(1))
    moreover have "server_view t (a\<lparr>srv_server := placed (es @ new) (stored_polls (st_pool s)) c1\<rparr>)"
      using rest count new(2) by (auto simp: server_view_def t started_def)
    ultimately show ?thesis by blast
  next
    case (Some ev)
    obtain p where p: "pool_exec (Choose ev) (st_pool s) = Some p" "pool_pusher p \<noteq> Push_exited"
      "t = s\<lparr>st_server := c1, st_pool := p, st_arming := Some fd\<rparr>"
      using ex upto Some by (auto simp: run_bind_eq_Returned_iff split: if_splits simp del: pool_exec.simps)
    note choose = choose_atomic [OF p(1)]
    obtain i where push: "push_event (stored_polls (st_pool s)) ev = Returned (stored_polls p, i)"
      using choose(3) p(2) by blast
    define es' where "es' = es @ [Epoll_ctl (sv_efd (st_server s)) (EPOLL_CTL_MOD (EPOLLIN OR EPOLLET)) fd]"
    have "server_exec (S_event ans events fd) a = Returned (a\<lparr>srv_server := placed es' (stored_polls p) c1\<rparr>)"
      using upto Some push by (simp add: c server_event_at es'_def)
    moreover have "server_view t (a\<lparr>srv_server := placed es' (stored_polls p) c1\<rparr>)"
      using rest count handed_choose [OF p(1,2)] workers_length_step [OF p(1)]
      by (auto simp: server_view_def p(3) started_def es'_def choose(1))
    ultimately show ?thesis by blast
  qed
qed

lemma server_take_seen:
  assumes wf: "server_threads_wf n s" and view: "server_view s a"
    and pops: "pops k (st_pool s) = Some i" and ex: "pool_exec k (st_pool s) = Some p"
  shows "\<exists>a'. server_exec (S_take i) a = Returned a' \<and> server_view (s\<lparr>st_pool := p\<rparr>) a'"
proof -
  have reach: "pool_reach prompt n (st_pool s)" "n \<le> MAX_THREADS"
    using wf by (simp_all add: server_threads_wf_def)
  note f = pop_atomic [OF reach ex pops]
  let ?e = "poll_event (pool_polls (st_pool s) ! i)"
  have len: "i < length (pool_workers (st_pool s))" using f(1) prompt_facts(2) [OF reach] by simp
  obtain es where c: "srv_server a = placed es (stored_polls (st_pool s)) (st_server s)"
    using view by (auto simp: server_view_def)
  let ?a = "a\<lparr>srv_workers := (srv_workers a)[i := Sending ?e]\<rparr>"
  have "srv_worker a i = Some Waiting_sender"
    using view len f(2) by (simp add: server_view_def srv_worker_def)
  then have "server_exec (S_take i) a = Returned ?a"
    using f(3) c by (simp del: srv_worker_Some)
  moreover have "server_view (s\<lparr>st_pool := p\<rparr>) ?a"
  proof (rule server_view_update [OF view len])
    show "length (pool_workers p) = length (pool_workers (st_pool s))" by (rule workers_length_step [OF ex])
    show "in_hand p = (in_hand (st_pool s))(i := Some ?e)" by (rule f(4))
    show "handed p = handed (st_pool s)"
      using pops by (intro handed_other [OF prompt_facts(1) [OF reach] ex]) (auto simp: pops_def)
  qed (use view in \<open>simp_all add: c f(5) started_def server_view_def\<close>)
  ultimately show ?thesis by blast
qed

lemma server_release_seen:
  assumes wf: "server_threads_wf n s" and view: "server_view s a" and i: "i \<in> st_sent s"
    and ex: "pool_exec (Finish i) (st_pool s) = Some p"
  shows "\<exists>stack writes a'. server_exec (S_send i stack writes 0) a = Returned a'
    \<and> server_view (s\<lparr>st_pool := p, st_sent := st_sent s - {i}, st_done := st_done s + 1\<rparr>) a'"
proof -
  have reach: "pool_reach prompt n (st_pool s)" "n \<le> MAX_THREADS"
    using wf by (simp_all add: server_threads_wf_def)
  note f = finish_atomic [OF reach ex]
  have len: "i < length (pool_workers (st_pool s))" using f(1) prompt_facts(2) [OF reach] by simp
  obtain e where e: "worker_at (st_pool s) i = Some (Working e)" "can_send e"
    using wf i by (auto simp: server_threads_wf_def simp del: worker_at_Some)
  obtain es where c: "srv_server a = placed es (stored_polls (st_pool s)) (st_server s)"
    using view by (auto simp: server_view_def)
  obtain stack writes new where send: "send_responce stack i e writes 0 (srv_server a) =
      Returned (placed (es @ new) (release_slot (stored_polls (st_pool s)) i) (st_server s))"
    using e(2) send_responce_returns unfolding can_send_def c by blast
  let ?a = "a\<lparr>srv_server := placed (es @ new) (release_slot (stored_polls (st_pool s)) i) (st_server s),
    srv_workers := (srv_workers a)[i := Waiting_sender], srv_done := srv_done a + 1\<rparr>"
  have "srv_worker a i = Some (Sending e)"
    using view len working_in_hand [OF e(1)] by (simp add: server_view_def srv_worker_def)
  then have "server_exec (S_send i stack writes 0) a = Returned ?a"
    using send by (simp del: srv_worker_Some)
  moreover have "server_view (s\<lparr>st_pool := p, st_sent := st_sent s - {i}, st_done := st_done s + 1\<rparr>) ?a"
  proof (rule server_view_update [OF view len])
    show "length (pool_workers p) = length (pool_workers (st_pool s))" by (rule workers_length_step [OF ex])
    show "in_hand p = (in_hand (st_pool s))(i := None)" by (rule f(3))
    show "handed p = handed (st_pool s)"
      by (intro handed_other [OF prompt_facts(1) [OF reach] ex]) simp
    show "started ?a = started a"
      using send_responce_effect [OF send] by (simp add: started_def)
  qed (use view in \<open>simp_all add: f(4) server_view_def\<close>)
  ultimately show ?thesis by blast
qed

lemma server_threads_simulated:
  assumes wf: "server_threads_wf n s" and view: "server_view s a"
    and ex: "server_threads_exec l s = Returned t"
  shows "server_view t a \<or> (\<exists>k a'. server_exec k a = Returned a' \<and> server_view t a')"
proof (cases l)
  case (V_event ans events fd)
  with ex have "pool_pusher (st_pool s) = Push_ready" by (simp split: if_splits)
  from server_event_seen [OF view this] ex V_event show ?thesis by blast
next
  case (V_pool k)
  with ex obtain p where p: "pool_exec k (st_pool s) = Some p" "t = s\<lparr>st_pool := p\<rparr>"
    "\<And>e. k \<noteq> Choose e" "\<And>i. k \<noteq> Finish i"
    by (auto simp: run_bind_eq_Returned_iff split: pool_label.splits simp del: pool_exec.simps)
  have reach: "pool_reach prompt n (st_pool s)" "n \<le> MAX_THREADS"
    using wf by (simp_all add: server_threads_wf_def)
  show ?thesis
  proof (cases "pops k (st_pool s)")
    case None
    have "slots_of p = slots_of (st_pool s)" by (rule inner_atomic [OF reach p(1) None p(3,4)])
    moreover have "handed p = handed (st_pool s)"
      using p(3) by (intro handed_other [OF prompt_facts(1) [OF reach] p(1)])
    ultimately show ?thesis
      using view workers_length_step [OF p(1)] by (simp add: server_view_def slots_of_def p(2))
  next
    case (Some i)
    from server_take_seen [OF wf view Some p(1)] p(2) show ?thesis by blast
  qed
next
  case (V_arm ctl)
  with ex view show ?thesis
    by (auto simp: server_view_def run_bind_eq_Returned_iff split: option.splits if_splits)
next
  case (V_send i stack writes ctl)
  with ex obtain e c where i: "send_upto stack e writes ctl (st_server s) = Returned c"
    "t = s\<lparr>st_server := c, st_sent := insert i (st_sent s)\<rparr>"
    by (auto simp: run_bind_eq_Returned_iff split: option.splits worker.splits if_splits)
  with send_upto_effects(1) [OF i(1)] view show ?thesis by (auto simp: server_view_def)
next
  case (V_release i)
  with ex obtain p where p: "i \<in> st_sent s" "pool_exec (Finish i) (st_pool s) = Some p"
    "t = s\<lparr>st_pool := p, st_sent := st_sent s - {i}, st_done := st_done s + 1\<rparr>"
    by (auto simp: run_bind_eq_Returned_iff split: if_splits simp del: pool_exec.simps)
  from server_release_seen [OF wf view p(1,2)] p(3) show ?thesis by blast
qed

interpretation server_sim: simulation "server_sys_start n" "\<lambda>_ _. True" "\<lambda>l s. returned (server_exec l s)"
  "server_reach n"
  "\<lambda>s. n \<le> MAX_THREADS \<and> filter starts_response (sv_effects c) = [] \<and> s = server_threads_start n c"
  server_threads_ok "\<lambda>l s. returned (server_threads_exec l s)" "server_threads_reach n c" server_view
proof unfold_locales
  show "server_view t a \<or> (\<exists>k a'. True \<and> returned (server_exec k a) = Some a' \<and> server_view t a')"
    if "server_threads_reach n c s" "server_view s a" "returned (server_threads_exec l s) = Some t" for s a l t
    using server_threads_simulated [OF server_threads_reach_wf [OF that(1)] that(2)] that(3)
    by (simp del: server_exec.simps)
qed (use server_view_start in blast)

lemma server_threads_seen:
  assumes "server_threads_reach n c s"
  obtains a where "server_reach n a" "server_view s a"
  using server_sim.seen [OF assms] by blast


section \<open>Accounting and overload\<close>

lemma no_exit_event_upto: "no_exit (server_event_upto a events fd c)"
  by (auto simp: server_event_upto_def no_exit_accept no_exit_read_request no_exit_modify
      read_flows_size_def intro!: no_exit_bind simp del: of_access.simps)

lemma no_exit_of_step [simp]: "no_exit (of_step m)"
  by (cases m) (simp_all add: of_step_def)

lemma no_exit_send_upto: "no_exit (send_upto stack e writes ctl c)"
  by (auto simp: send_upto_def write_responce_def no_exit_write_loop Let_def intro!: no_exit_bind)

lemma choose_exits:
  assumes "pool_exec (Choose e) p = Some q"
  shows "pool_pusher q = Push_exited \<longleftrightarrow> idle_slots (pool_polls p) = {}"
  using assms by (auto simp: Let_def get_valid_thread_spec split: if_splits)

lemma server_threads_exits:
  "server_threads_exec l s = Exited k \<longleftrightarrow> k = EXIT_SUCCESS \<and> idle_slots (pool_polls (st_pool s)) = {}
     \<and> pool_pusher (st_pool s) = Push_ready \<and> st_arming s = None
     \<and> (\<exists>a events fd. l = V_event a events fd \<and> asks_response (st_server s) events fd)"
proof (cases l)
  case (V_event a events fd)
  show ?thesis
  proof (cases "server_event_upto a events fd (st_server s)")
    case (Returned r)
    obtain c e where r: "r = (c, e)" by (cases r)
    note effects = server_event_upto_effects(4,5) [OF Returned [unfolded r]]
    show ?thesis
    proof (cases e)
      case None
      with Returned r V_event effects(2) show ?thesis by auto
    next
      case (Some ev)
      show ?thesis
      proof (cases "pool_pusher (st_pool s) = Push_ready")
        case True
        then obtain p where p: "pool_exec (Choose ev) (st_pool s) = Some p" by (simp add: Let_def)
        have "server_threads_exec l s = Exited k \<longleftrightarrow>
            st_arming s = None \<and> pool_pusher p = Push_exited \<and> k = EXIT_SUCCESS"
          using Returned r V_event Some True p by (auto simp: of_step_def simp del: pool_exec.simps)
        then show ?thesis
          using choose_exits [OF p] effects(1) Some True V_event by auto
      qed (simp add: V_event)
    qed
  next
    case (Exited m)
    then show ?thesis using no_exit_event_upto [of a events fd "st_server s"] by (simp add: no_exit_def)
  qed (use V_event in \<open>auto simp: asks_response_def server_event_upto_def read_flows_size_def\<close>)
next
  case (V_pool k')
  then have "no_exit (server_threads_exec l s)"
    by (auto intro!: no_exit_bind split: pool_label.split simp del: pool_exec.simps)
  with V_pool show ?thesis by (auto simp: no_exit_def)
next
  case (V_arm ctl)
  then have "no_exit (server_threads_exec l s)"
    by (auto simp: no_exit_modify intro!: no_exit_bind split: option.split)
  with V_arm show ?thesis by (auto simp: no_exit_def)
next
  case (V_send i stack writes ctl)
  then have "no_exit (server_threads_exec l s)"
    by (auto simp: no_exit_send_upto intro!: no_exit_bind split: option.split worker.split)
  with V_send show ?thesis by (auto simp: no_exit_def)
next
  case (V_release i)
  then have "no_exit (server_threads_exec l s)"
    by (auto intro!: no_exit_bind simp del: pool_exec.simps)
  with V_release show ?thesis by (auto simp: no_exit_def)
qed

lemma server_threads_count:
  assumes "server_threads_reach n c s"
  shows "handed (st_pool s) = st_done s + card (polls.busy n (stored_polls (st_pool s)))"
    "card (polls.busy n (stored_polls (st_pool s))) + card (idle_slots (stored_polls (st_pool s))) = n"
proof -
  obtain a where a: "server_reach n a" "server_view s a"
    using server_threads_seen [OF assms] .
  then have ok: "srv_ok n a" by (intro srv_ok_reach)
  moreover obtain es where "srv_server a = placed es (stored_polls (st_pool s)) (st_server s)"
    using a(2) by (auto simp: server_view_def)
  ultimately show "handed (st_pool s) = st_done s + card (polls.busy n (stored_polls (st_pool s)))"
    "card (polls.busy n (stored_polls (st_pool s))) + card (idle_slots (stored_polls (st_pool s))) = n"
    using a(2) polls.card_busy_idle [of n "stored_polls (st_pool s)"]
    by (simp_all add: srv_ok_def server_view_def)
qed

text \<open>
  C10.  In every interleaving of the server's threads with prompt signals, the responses handed to
  workers are those finished and those in the busy slots, at most one for each of its \<open>n\<close> threads.
  The server ends, with status 0, exactly when the epoll thread handles an event that asks for a
  response while \<open>n\<close> responses are unfinished; no other step of a thread ends it.
\<close>

theorem server_threads_overload:
  assumes "server_threads_reach n c s"
  shows "handed (st_pool s) = st_done s + card (polls.busy n (stored_polls (st_pool s)))
    \<and> handed (st_pool s) \<le> st_done s + n
    \<and> (server_threads_exec l s = Exited k \<longleftrightarrow>
         k = EXIT_SUCCESS \<and> handed (st_pool s) = st_done s + n
         \<and> pool_pusher (st_pool s) = Push_ready \<and> st_arming s = None
         \<and> (\<exists>a events fd. l = V_event a events fd \<and> asks_response (st_server s) events fd))"
proof -
  note count = server_threads_count [OF assms]
  have "idle_slots (pool_polls (st_pool s)) = {} \<longleftrightarrow> handed (st_pool s) = st_done s + n"
    if "pool_pusher (st_pool s) = Push_ready"
    using count stored_polls_ready [OF that] by (auto simp: card_eq_0_iff)
  with count show ?thesis by (auto simp: server_threads_exits)
qed

section \<open>Safety of the threads\<close>

text \<open>The expectations of \<open>FG_Server_Safe\<close>, on the steps of the threads.\<close>

fun threads_expected :: "nat \<Rightarrow> server_thread_label \<Rightarrow> server_running \<Rightarrow> bool" where
  "threads_expected n (V_event a events fd) s =
     (0 \<le> fd \<and> fd < MAX_FLOWS \<and> length (sa_stack a) = PAYLOAD_SIZE
      \<and> (case sa_read a of Read bs \<Rightarrow> length bs \<le> PAYLOAD_SIZE | Read_error e \<Rightarrow> True)
      \<and> (asks_response (st_server s) events fd \<longrightarrow> handed (st_pool s) < st_done s + n))"
| "threads_expected n (V_send i stack writes ctl) s =
     (length stack = MAX_WRITE_BUFF
      \<and> (case worker_at (st_pool s) i of Some (Working e) \<Rightarrow> fits_writes (sint (ev_flow_size e)) writes | _ \<Rightarrow> True))"
| "threads_expected n l s = True"

lemma harmless_of_step [simp]: "harmless (of_step m)"
  by (cases m) (simp_all add: of_step_def)

lemma harmless_send_upto:
  assumes "fits_writes (sint (ev_flow_size e)) ws" "length stack = MAX_WRITE_BUFF"
  shows "harmless (send_upto stack e ws ctl s)"
proof -
  have "harmless (write_responce stack (sint (ev_flow_size e)) ws)"
    using harmless_send [OF assms, of 0 ctl s]
    by (cases "write_responce stack (sint (ev_flow_size e)) ws") (simp_all add: send_responce_def Let_def)
  then show ?thesis by (auto simp: send_upto_def Let_def intro!: harmless_bind)
qed

lemma harmless_threads_event:
  assumes "harmless (server_event_upto a events fd (st_server s))"
    and "\<And>k. server_threads_exec (V_event a events fd) s \<noteq> Exited k"
  shows "harmless (server_threads_exec (V_event a events fd) s)"
proof (cases "server_event_upto a events fd (st_server s)")
  case (Returned r)
  obtain c e where r: "r = (c, e)" by (cases r)
  show ?thesis
  proof (cases e)
    case (Some ev)
    with assms(2) [of EXIT_SUCCESS] Returned r show ?thesis
      by (cases "pool_exec (Choose ev) (st_pool s)"; cases "st_arming s")
        (auto simp: of_step_def simp del: pool_exec.simps split: if_splits)
  qed (simp add: Returned r)
qed (use assms(1) in auto)

text \<open>
  C12.  In every interleaving of the server's threads with prompt signals, as long as the system
  behaves as expected and a thread is free for each response asked for, no step of a thread makes an
  access out of bounds, fails an assertion, or ends the program: it returns, or waits.
\<close>

theorem server_threads_safe:
  assumes "server_threads_reach n c s" "threads_expected n l s"
  shows "server_threads_exec l s = Blocked \<or> (\<exists>t. server_threads_exec l s = Returned t)"
proof -
  obtain a where a: "server_reach n a" "server_view s a"
    using server_threads_seen [OF assms(1)] .
  then obtain es where c: "srv_server a = placed es (stored_polls (st_pool s)) (st_server s)"
    by (auto simp: server_view_def)
  have "harmless (server_threads_exec l s)"
  proof (cases l)
    case (V_event ans events fd)
    have "server_expected n (S_event ans events fd) a"
      using assms(2) a(2) by (simp add: V_event c asks_response_def server_view_def)
    then have "server_exec (S_event ans events fd) a = Blocked \<or> (\<exists>t. server_exec (S_event ans events fd) a = Returned t)"
      by (rule server_never_faults [OF a(1)])
    then have "harmless (server_event_upto ans events fd (st_server s))"
      by (cases "server_event_upto ans events fd (st_server s)") (auto simp: c server_event_at)
    moreover have "server_threads_exec (V_event ans events fd) s \<noteq> Exited k" for k
      using assms(2) server_threads_count [OF assms(1)] stored_polls_ready [of "st_pool s"]
      unfolding server_threads_exits by (auto simp: V_event)
    ultimately show ?thesis unfolding V_event by (rule harmless_threads_event)
  qed (use assms(2) in \<open>auto intro!: harmless_bind harmless_modify harmless_send_upto
        split: option.splits worker.splits pool_label.split simp del: pool_exec.simps worker_at_Some\<close>)
  then show ?thesis by (simp add: harmless_iff)
qed

section \<open>A server with one thread\<close>

abbreviation small_threads :: server_running where
  "small_threads \<equiv> server_threads_start (Suc 0) sample_server"

lemma small_threads_reach: "server_threads_reach (Suc 0) sample_server small_threads"
  by (rule server_threads_reach.start) (simp_all add: MAX_THREADS_def sample_server_def)

lemma small_threads_asks:
  "fd = 5 \<or> fd = 6 \<Longrightarrow> asks_response (st_server small_threads) EPOLLOUT fd"
  by (auto simp: server_threads_start_def sample_server_def asks_response_def event_masks MAX_FLOWS_def)

lemma small_threads_idle: "idle_slots (pool_polls (st_pool small_threads)) = {0}"
  by (auto simp: server_threads_start_def init_pool_def idle_slots_def init_events_poll_def less_Suc_eq_0_disj
      THREAD_IDLE_def THREAD_INVALID_def)

lemma small_threads_in:
  obtains t where "server_threads_exec (V_event sample_request EPOLLIN 5) small_threads = Returned t"
  by (auto simp: server_threads_start_def init_pool_def server_event_upto_def sample_server_def event_masks
      sample_request_def read_request_def modify_epoll_event_def c_blit_def write_flows_size_def
      MAX_FLOWS_def deserialize_payload_def deserialize_u32_def c_read_def upt_rec)


text \<open>The event that asks for a second response, while the first is unfinished, ends the server.\<close>

lemma small_threads_busy:
  obtains t where "server_threads_reach (Suc 0) sample_server t"
    "handed (st_pool t) = 1" "st_done t = 0" "pool_pusher (st_pool t) = Push_ready" "st_arming t = None"
    "asks_response (st_server t) EPOLLOUT 6"
proof -
  let ?e = "\<lparr>ev_fd = 5, ev_flow_size = 0\<rparr>"
  have "get_valid_thread (pool_polls (st_pool small_threads)) = 0"
    using small_threads_idle by (auto simp: get_valid_thread_spec)
  then obtain s1 where s1: "server_threads_exec (V_event sample_request EPOLLOUT 5) small_threads = Returned s1"
    "st_server s1 = sample_server" "st_pool s1 = (st_pool small_threads)\<lparr>pool_pusher := Push_chosen 0 ?e\<rparr>"
    "st_arming s1 = Some 5" "st_done s1 = 0"
    by (auto simp: server_threads_start_def init_pool_def server_event_upto_def sample_server_def
        event_masks read_flows_size_def MAX_FLOWS_def of_step_def Let_def)
  let ?p = "do_store 0 ?e (st_pool s1)"
  have "poll_flag (pool_polls (st_pool s1) ! 0) \<noteq> THREAD_BUSY"
    by (simp add: s1(3) server_threads_start_def init_pool_def init_events_poll_def
        THREAD_BUSY_def THREAD_IDLE_def)
  then have s2: "server_threads_exec (V_pool Store) s1 = Returned (s1\<lparr>st_pool := ?p\<rparr>)"
    by (simp add: s1(3) of_step_def)
  let ?q = "?p\<lparr>pool_pusher := Push_ready\<rparr>"
  have s3: "server_threads_exec (V_pool Signal) (s1\<lparr>st_pool := ?p\<rparr>) = Returned (s1\<lparr>st_pool := ?q\<rparr>)"
    by (simp add: s1(3) of_step_def do_store_def server_threads_start_def init_pool_def worker_at_def)
  have "\<exists>c. server_threads_exec (V_arm 0) (s1\<lparr>st_pool := ?q\<rparr>) =
      Returned (s1\<lparr>st_pool := ?q, st_server := c, st_arming := None\<rparr>) \<and> sv_sfd c = 3"
    by (auto simp: s1(2,4) sample_server_def modify_epoll_event_def)
  then obtain c where s4: "server_threads_exec (V_arm 0) (s1\<lparr>st_pool := ?q\<rparr>) =
      Returned (s1\<lparr>st_pool := ?q, st_server := c, st_arming := None\<rparr>)" "sv_sfd c = 3" by blast
  let ?t = "s1\<lparr>st_pool := ?q, st_server := c, st_arming := None\<rparr>"
  have ok: "server_threads_ok (V_event sample_request EPOLLOUT 5) small_threads"
    "server_threads_ok (V_pool Store) s1" "server_threads_ok (V_pool Signal) (s1\<lparr>st_pool := ?p\<rparr>)"
    "server_threads_ok (V_arm 0) (s1\<lparr>st_pool := ?q\<rparr>)"
    by (auto simp: server_threads_ok_def prompt_def no_spurious_def split: pusher.split)
  have "server_threads_reach (Suc 0) sample_server ?t"
    by (rule server_threads_reach.step [OF server_threads_reach.step [OF server_threads_reach.step
      [OF server_threads_reach.step [OF small_threads_reach ok(1) s1(1)] ok(2) s2] ok(3) s3] ok(4) s4(1)])
  moreover have "handed (st_pool ?t) = 1"
    by (simp add: handed_def do_store_def s1(3) server_threads_start_def init_pool_def)
  moreover have "asks_response (st_server ?t) EPOLLOUT 6"
    using s4(2) by (simp add: asks_response_def event_masks MAX_FLOWS_def)
  ultimately show thesis using that [of ?t] s1(5) by simp
qed

theorem server_threads_overload_witness:
  "\<exists>t. handed (st_pool t) = 1 \<and> st_done t = 0
     \<and> server_threads_exec (V_event sample_request EPOLLOUT 6) t = Exited EXIT_SUCCESS"
proof -
  obtain t where t: "server_threads_reach (Suc 0) sample_server t"
    "handed (st_pool t) = 1" "st_done t = 0" "pool_pusher (st_pool t) = Push_ready" "st_arming t = None"
    "asks_response (st_server t) EPOLLOUT 6" by (rule small_threads_busy)
  with server_threads_overload [OF t(1), of "V_event sample_request EPOLLOUT 6" EXIT_SUCCESS]
  show ?thesis by (intro exI [of _ t]) auto
qed

theorem server_threads_safe_witness:
  "\<exists>t. server_threads_exec (V_event sample_request EPOLLIN 5) small_threads = Returned t"
proof -
  have "threads_expected (Suc 0) (V_event sample_request EPOLLIN 5) small_threads"
    by (simp add: MAX_FLOWS_def sample_request_def PAYLOAD_SIZE_def asks_response_def event_masks)
  from server_threads_safe [OF small_threads_reach this]
  show ?thesis using small_threads_in by fastforce
qed

section \<open>A socket armed after its close\<close>

text \<open>
  Since the epoll thread arms the socket only after the push, the worker can have sent the response,
  unregistered the socket and closed it before: the epoll thread then modifies a closed descriptor.
\<close>

abbreviation server_threads_run :: "server_thread_label list \<Rightarrow> server_running \<Rightarrow> server_running option" where
  "server_threads_run \<equiv> run_labels server_threads_ok (\<lambda>l s. returned (server_threads_exec l s))"

lemmas server_threads_run_reach = server_running.run_reach

abbreviation asked_server :: server where
  "asked_server \<equiv> sample_server\<lparr>sv_flows_size := (\<lambda>_. 3)\<rparr>"

lemma taken_before_armed:
  "\<exists>s. server_threads_reach (Suc 0) asked_server s \<and> st_server s = asked_server
     \<and> st_arming s = Some 5 \<and> st_sent s = {} \<and> pool_pusher (st_pool s) = Push_signal 0
     \<and> pool_workers (st_pool s) = [Working \<lparr>ev_fd = 5, ev_flow_size = 3\<rparr>]"
proof -
  have start: "server_threads_reach (Suc 0) asked_server (server_threads_start (Suc 0) asked_server)"
    by (rule server_threads_reach.start) (simp_all add: MAX_THREADS_def sample_server_def)
  have "get_valid_thread (pool_polls (init_pool (Suc 0))) = 0"
    using small_threads_idle by (auto simp: get_valid_thread_spec server_threads_start_def)
  then have "\<exists>s. server_threads_run [V_event sample_request EPOLLOUT 5, V_pool Store,
        V_pool (Lock 0), V_pool (Signal_idle 0)] (server_threads_start (Suc 0) asked_server) = Some s
     \<and> st_server s = asked_server
     \<and> st_arming s = Some 5 \<and> st_sent s = {} \<and> pool_pusher (st_pool s) = Push_signal 0
     \<and> pool_workers (st_pool s) = [Working \<lparr>ev_fd = 5, ev_flow_size = 3\<rparr>]"
    by (simp add: server_threads_ok_def prompt_def no_spurious_def
        server_event_upto_def server_threads_start_def sample_server_def event_masks read_flows_size_def
        MAX_FLOWS_def of_step_def init_pool_def init_events_poll_def do_store_def do_pop_def store_event_def
        worker_at_def THREAD_BUSY_def THREAD_IDLE_def THREAD_INVALID_def Let_def)
  with server_threads_run_reach [OF _ start] show ?thesis by blast
qed

theorem armed_after_close:
  "\<exists>s. server_threads_reach 1 asked_server s
     \<and> sv_effects (st_server s) =
         [Epoll_ctl 4 EPOLL_CTL_DEL 5, Net (Close 5), Epoll_ctl 4 (EPOLL_CTL_MOD (EPOLLIN OR EPOLLET)) 5]"
proof -
  let ?stack = "replicate MAX_WRITE_BUFF 0" and ?e = "\<lparr>ev_fd = 5, ev_flow_size = 3\<rparr>"
  obtain s where s: "server_threads_reach (Suc 0) asked_server s" "st_server s = asked_server"
      "st_arming s = Some 5" "st_sent s = {}" "pool_pusher (st_pool s) = Push_signal 0"
      "pool_workers (st_pool s) = [Working ?e]"
    using taken_before_armed by blast
  have "list_all keeps_writing [Wrote 3]" "total_taken [Wrote 3] = 3" "length ?stack = MAX_WRITE_BUFF"
    by (simp_all add: total_taken_def MAX_WRITE_BUFF_def)
  then obtain asked where "write_responce ?stack 3 [Wrote 3] = Returned (3, asked)"
    using write_responce_returns [of "[Wrote 3]" 3 ?stack "[]"] by (auto simp: INT_MAX_def)
  then have "\<exists>t. server_threads_run [V_send 0 ?stack [Wrote 3] 0, V_pool Signal, V_arm 0] s = Some t
     \<and> sv_effects (st_server t) = [Epoll_ctl 4 EPOLL_CTL_DEL 5, Net (Close 5),
         Epoll_ctl 4 (EPOLL_CTL_MOD (EPOLLIN OR EPOLLET)) 5]"
    by (simp add: s(2-6) server_threads_ok_def prompt_def no_spurious_def
        worker_at_def send_upto_def of_step_def delete_epoll_event_def modify_epoll_event_def sample_server_def)
  with server_threads_run_reach [OF _ s(1)] show ?thesis unfolding One_nat_def by blast
qed

end
