(* ===== verification/FG_Server_Live.thy ===== *)
theory FG_Server_Live
  imports FG_Server_Threads FG_Pool_Live
begin

text \<open>
  The threads of the server finish every response they have been handed (\<open>epoll_server\<close> and
  \<open>responce_thread\<close> in \<open>server/server.c\<close>), with the mutexes, waits and signals of \<open>event_push\<close> and \<open>event_pop\<close>.
\<close>

section \<open>Runs without new events\<close>

fun new_event :: "server_thread_label \<Rightarrow> bool" where
  "new_event (V_event a events fd) = True"
| "new_event _ = False"

inductive server_drains :: "server_running \<Rightarrow> nat \<Rightarrow> server_running \<Rightarrow> bool" for s0 where
  none: "server_drains s0 0 s0"
| more: "server_drains s0 k s \<Longrightarrow> \<not> new_event l \<Longrightarrow> server_threads_ok l s
    \<Longrightarrow> server_threads_exec l s = Returned t \<Longrightarrow> server_drains s0 (Suc k) t"

lemma server_drains_reach: "server_drains s0 k s \<Longrightarrow> server_threads_reach n c s0 \<Longrightarrow> server_threads_reach n c s"
  by (induction rule: server_drains.induct) (auto intro: server_threads_reach.step)

definition drain_work :: "nat \<Rightarrow> server_running \<Rightarrow> nat" where
  "drain_work n s =
     3 * slots_work n (slots_of (st_pool s)) + pool_effort (st_pool s)
   + (if st_arming s = None then 0 else 1) + (n - card (st_sent s))"

lemma sent_small:
  assumes "server_threads_wf n s"
  shows "st_sent s \<subseteq> {..<n}" "finite (st_sent s)" "card (st_sent s) \<le> n"
proof -
  have "length (pool_workers (st_pool s)) = n"
    using assms prompt_facts(2) by (simp add: server_threads_wf_def)
  then show sub: "st_sent s \<subseteq> {..<n}" using assms by (fastforce simp: server_threads_wf_def)
  then show "finite (st_sent s)" by (rule finite_subset) simp
  show "card (st_sent s) \<le> n" using card_mono [OF _ sub] by simp
qed

lemma pool_effort_bound: "pool_effort p \<le> length (pool_workers p) + 2"
proof -
  have one: "worker_effort w \<le> 1" for w by (cases w) simp_all
  have "sum_list (map worker_effort ws) \<le> length ws" for ws
  proof (induction ws)
    case (Cons w ws)
    then show ?case using one [of w] by simp
  qed simp
  from this [of "pool_workers p"] have "sum_list (map worker_effort (pool_workers p)) \<le> length (pool_workers p)" .
  moreover have "pusher_effort (pool_pusher p) \<le> 2" by (cases "pool_pusher p") simp_all
  ultimately show ?thesis unfolding pool_effort_def by linarith
qed

lemma drain_work_bound:
  assumes "server_threads_wf n s"
  shows "drain_work n s \<le> 8 * n + 3"
proof -
  have "length (pool_workers (st_pool s)) = n"
    using assms prompt_facts(2) by (simp add: server_threads_wf_def)
  moreover have "(if st_arming s = None then 0 else 1) \<le> (1 :: nat)" by simp
  ultimately show ?thesis
    using slots_work_bound [of n "slots_of (st_pool s)"] pool_effort_bound [of "st_pool s"]
      diff_le_self [of n "card (st_sent s)"]
    unfolding drain_work_def by linarith
qed

text \<open>Each step of a run decreases the work, and hands nothing over.\<close>

lemma drain_step:
  assumes wf: "server_threads_wf n s" and l: "\<not> new_event l" "server_threads_ok l s"
    and ex: "server_threads_exec l s = Returned t"
  shows "drain_work n t < drain_work n s \<and> handed (st_pool t) = handed (st_pool s)"
proof (cases l)
  case (V_event a events fd)
  with l(1) show ?thesis by simp
next
  case (V_pool k)
  with ex obtain p where p: "pool_exec k (st_pool s) = Some p" "t = s\<lparr>st_pool := p\<rparr>"
    "\<And>e. k \<noteq> Choose e" "\<And>i. k \<noteq> Finish i"
    by (auto simp: run_bind_eq_Returned_iff split: pool_label.splits simp del: pool_exec.simps)
  have reach: "pool_reach prompt n (st_pool s)" "n \<le> MAX_THREADS"
    using wf by (simp_all add: server_threads_wf_def)
  have same: "handed p = handed (st_pool s)"
    using p(3) by (intro handed_other [OF prompt_facts(1) [OF reach] p(1)])
  show ?thesis
  proof (cases "pops k (st_pool s)")
    case None
    have "slots_of p = slots_of (st_pool s)" by (rule inner_atomic [OF reach p(1) None p(3,4)])
    moreover have "prompt k (st_pool s)" using l(2) V_pool by (simp add: server_threads_ok_def)
    ultimately show ?thesis
      using effort_inner [OF prompt_facts(1) [OF reach] p(1) None _ p(3,4)] same
      by (simp add: drain_work_def p(2))
  next
    case (Some i)
    note f = pop_atomic [OF reach p(1) Some]
    have "i \<in> polls.busy n (stored_polls (st_pool s))"
      using f(1,3) by (auto simp: polls.busy_def idle_slots_def event_pop_def split: if_splits)
    from slots_work_take [of i n "stored_polls (st_pool s)" "in_hand (st_pool s)", OF this f(2)]
    have "Suc (slots_work n (slots_of p)) = slots_work n (slots_of (st_pool s))"
      unfolding slots_of_def f(4,5) by (simp del: fun_upd_apply)
    then show ?thesis using effort_pops [OF p(1) Some] same by (simp add: drain_work_def p(2))
  qed
next
  case (V_arm ctl)
  with ex show ?thesis
    by (auto simp: drain_work_def run_bind_eq_Returned_iff split: option.splits if_splits)
next
  case (V_send i stack writes ctl)
  with ex obtain e c where i: "worker_at (st_pool s) i = Some (Working e)" "i \<notin> st_sent s"
    "t = s\<lparr>st_server := c, st_sent := insert i (st_sent s)\<rparr>"
    by (auto simp: run_bind_eq_Returned_iff split: option.splits worker.splits if_splits simp del: worker_at_Some)
  have "length (pool_workers (st_pool s)) = n"
    using wf prompt_facts(2) by (simp add: server_threads_wf_def)
  then have "insert i (st_sent s) \<subseteq> {..<n}" using sent_small(1) [OF wf] i(1) by auto
  from card_mono [OF _ this] have "Suc (card (st_sent s)) \<le> n"
    using i(2) sent_small(2) [OF wf] by simp
  then show ?thesis using i(2,3) sent_small(2) [OF wf] by (simp add: drain_work_def)
next
  case (V_release i)
  with ex obtain p where p: "i \<in> st_sent s" "pool_exec (Finish i) (st_pool s) = Some p"
    "t = s\<lparr>st_pool := p, st_sent := st_sent s - {i}, st_done := st_done s + 1\<rparr>"
    by (auto simp: run_bind_eq_Returned_iff split: if_splits simp del: pool_exec.simps)
  have reach: "pool_reach prompt n (st_pool s)" "n \<le> MAX_THREADS"
    using wf by (simp_all add: server_threads_wf_def)
  note f = finish_atomic [OF reach p(2)]
  obtain e where e: "in_hand (st_pool s) i = Some e" using f(2) by blast
  note busy = in_hand_busy [OF reach e]
  have chosen: "j \<noteq> i" if "pool_pusher (st_pool s) = Push_chosen j e'" for j e'
    using chosen_idle [OF reach that] busy(2) by (auto simp: flag_defs)
  then have "poll_flag (stored_polls (st_pool s) ! i) = THREAD_BUSY"
    using busy(2) by (auto simp: stored_polls_def split: pusher.split)
  then have mem: "i \<in> polls.busy n (stored_polls (st_pool s))"
    using busy(1) by (simp add: polls.busy_def idle_slots_def flag_defs)
  have "wf_polls n (pool_polls (st_pool s))" using prompt_facts(1) [OF reach] by (simp add: pool_ok_def)
  then have "wf_polls n (stored_polls (st_pool s))"
    using chosen_idle(1) [OF reach] by (auto simp: stored_polls_def wf_polls_store split: pusher.split)
  from slots_work_release [of n _ i "in_hand (st_pool s)", OF this mem e]
  have "Suc (slots_work n (slots_of p)) = slots_work n (slots_of (st_pool s))"
    unfolding slots_of_def f(3,4) .
  moreover have "handed p = handed (st_pool s)"
    by (intro handed_other [OF prompt_facts(1) [OF reach] p(2)]) simp
  moreover have "n - card (st_sent s - {i}) \<le> Suc (n - card (st_sent s))"
    using p(1) sent_small(2) [OF wf] by (simp add: card_Diff_singleton)
  ultimately show ?thesis using effort_finish [OF p(2)] by (simp add: drain_work_def p(3))
qed

lemma server_drains_count:
  assumes "server_drains s0 k s" "server_threads_reach n c s0"
  shows "drain_work n s + k \<le> drain_work n s0 \<and> handed (st_pool s) = handed (st_pool s0)"
  using assms
proof (induction rule: server_drains.induct)
  case (more k s l t)
  then have "server_threads_wf n s" by (blast intro: server_threads_reach_wf server_drains_reach)
  from drain_step [OF this more.hyps(2-4)] more show ?case by auto
qed simp

section \<open>No deadlock\<close>

lemma running_not_exited:
  assumes "server_threads_reach n c s"
  shows "pool_pusher (st_pool s) \<noteq> Push_exited"
  using assms
proof (induction rule: server_threads_reach.induct)
  case start
  show ?case by (simp add: server_threads_start_def init_pool_def)
next
  case (step s l t)
  show ?case
  proof (cases l)
    case (V_pool k)
    with step.hyps(3) obtain p where "pool_exec k (st_pool s) = Some p" "t = s\<lparr>st_pool := p\<rparr>" "\<And>e. k \<noteq> Choose e"
      by (auto simp: run_bind_eq_Returned_iff split: pool_label.splits simp del: pool_exec.simps)
    then show ?thesis using not_exited [OF _ step.IH] by simp
  next
    case (V_release i)
    with step.hyps(3) have "pool_exec (Finish i) (st_pool s) = Some (st_pool t)"
      by (auto simp: run_bind_eq_Returned_iff split: if_splits simp del: pool_exec.simps)
    then show ?thesis by (rule not_exited [OF _ step.IH]) simp
  qed (use step in \<open>auto simp: run_bind_eq_Returned_iff split: if_splits option.splits worker.splits
        simp del: pool_exec.simps\<close>)
qed

definition drain_possible :: "server_running \<Rightarrow> bool" where
  "drain_possible s \<longleftrightarrow>
     (\<exists>l t. \<not> new_event l \<and> server_threads_ok l s \<and> server_threads_exec l s = Returned t)"

lemma drain_possible_pool:
  assumes "pool_exec k (st_pool s) = Some p" "prompt k (st_pool s)"
    and "\<And>e. k \<noteq> Choose e" "\<And>i. k \<noteq> Finish i"
  shows "drain_possible s"
proof -
  have "server_threads_exec (V_pool k) s = Returned (s\<lparr>st_pool := p\<rparr>)"
    using assms by (cases k) (auto simp: of_step_def simp del: pool_exec.simps)
  then show ?thesis
    unfolding drain_possible_def using assms(2)
    by (intro exI [of _ "V_pool k"] exI [of _ "s\<lparr>st_pool := p\<rparr>"]) (simp add: server_threads_ok_def)
qed

text \<open>A worker with a response to send can do so, whatever its size.\<close>

lemma write_can_return:
  "\<exists>writes r. write_responce (replicate MAX_WRITE_BUFF 0) (sint (ev_flow_size e)) writes = Returned r"
proof (cases "0 < sint (ev_flow_size e)")
  case True
  have "sint (ev_flow_size e) < 2 ^ 31" using sint_less [of "ev_flow_size e"] by simp
  then have "sint (ev_flow_size e) \<le> INT_MAX" by (simp add: INT_MAX_def)
  from write_responce_returns [of "[]", OF _ this, of "replicate MAX_WRITE_BUFF 0" "[]" "Other_errno 104"] True
  show ?thesis by (force simp: total_taken_def)
next
  case False
  then have "write_responce (replicate MAX_WRITE_BUFF 0) (sint (ev_flow_size e)) [] = Returned (0, [])"
    by (simp add: write_responce_def)
  then show ?thesis by blast
qed

lemma send_possible:
  assumes "worker_at (st_pool s) i = Some (Working e)" "i \<notin> st_sent s"
    and "write_responce stack (sint (ev_flow_size e)) writes = Returned r"
  shows "\<exists>t. server_threads_exec (V_send i stack writes ctl) s = Returned t"
  using assms by (cases r) (auto simp: send_upto_def Let_def worker_at_def)

lemma busy_can_drain:
  assumes reach: "server_threads_reach n c s" and ready: "pool_pusher (st_pool s) = Push_ready"
    and i: "i \<in> polls.busy n (pool_polls (st_pool s))"
  shows "drain_possible s"
proof -
  have pool: "pool_reach prompt n (st_pool s)" "n \<le> MAX_THREADS"
    using server_threads_reach_wf [OF reach] by (simp_all add: server_threads_wf_def)
  consider k p where "k \<in> {Lock i, Resume i, Signal_idle i}" "prompt k (st_pool s)" "pool_exec k (st_pool s) = Some p"
    | (sent) e where "worker_at (st_pool s) i = Some (Working e)" "i \<in> st_sent s"
    | (working) e where "worker_at (st_pool s) i = Some (Working e)" "i \<notin> st_sent s"
    using busy_worker_can_go_on [OF pool ready i] by blast
  then show ?thesis
  proof cases
    case (1 k p)
    then show ?thesis by (auto intro!: drain_possible_pool [of k s p] simp del: pool_exec.simps)
  next
    case sent
    then have "\<exists>t. server_threads_exec (V_release i) s = Returned t"
      by (simp add: of_step_def worker_at_def)
    then show ?thesis
      unfolding drain_possible_def by (intro exI [of _ "V_release i"]) (simp add: server_threads_ok_def del: server_threads_exec.simps)
  next
    case working
    obtain writes r where "write_responce (replicate MAX_WRITE_BUFF 0) (sint (ev_flow_size e)) writes = Returned r"
      using write_can_return by blast
    from send_possible [OF working this, of 0] show ?thesis
      unfolding drain_possible_def
      by (intro exI [of _ "V_send i (replicate MAX_WRITE_BUFF 0) writes 0"]) (simp add: server_threads_ok_def del: server_threads_exec.simps)
  qed
qed

text \<open>
  C9.  In every interleaving of the server's threads with prompt signals, the threads finish the
  responses they have been handed: from any state, and without further events, they make at most
  eight steps for each thread and three more; a worker whose writes end, in whatever way, can
  go on; and when no step can be made, every response handed over has been finished, all slots are idle,
  and the socket of the last push has been armed.  So no wake-up is lost and no thread waits for ever.
\<close>

theorem server_threads_drain:
  assumes "server_threads_reach n c s0" "server_drains s0 k s"
  shows "k \<le> 8 * n + 3 \<and> handed (st_pool s) = handed (st_pool s0)
    \<and> (\<forall>i e stack writes ctl r. worker_at (st_pool s) i = Some (Working e) \<and> i \<notin> st_sent s
         \<and> write_responce stack (sint (ev_flow_size e)) writes = Returned r
         \<longrightarrow> (\<exists>t. server_threads_exec (V_send i stack writes ctl) s = Returned t))
    \<and> ((\<nexists>l t. \<not> new_event l \<and> server_threads_ok l s \<and> server_threads_exec l s = Returned t)
       \<longrightarrow> st_done s = handed (st_pool s0) \<and> card (idle_slots (pool_polls (st_pool s))) = n
         \<and> st_arming s = None)"
proof (intro conjI allI impI)
  note count = server_drains_count [OF assms(2,1)] and reach = server_drains_reach [OF assms(2,1)]
  show "k \<le> 8 * n + 3"
    using count drain_work_bound [OF server_threads_reach_wf [OF assms(1)]] by linarith
  show handed: "handed (st_pool s) = handed (st_pool s0)" using count by blast
  show "\<exists>t. server_threads_exec (V_send i stack writes ctl) s = Returned t"
    if "worker_at (st_pool s) i = Some (Working e) \<and> i \<notin> st_sent s
      \<and> write_responce stack (sint (ev_flow_size e)) writes = Returned r" for i e stack writes ctl r
    using that send_possible by blast
  assume "\<nexists>l t. \<not> new_event l \<and> server_threads_ok l s \<and> server_threads_exec l s = Returned t"
  then have none: "\<not> drain_possible s" unfolding drain_possible_def .
  have pool: "pool_reach prompt n (st_pool s)" "n \<le> MAX_THREADS"
    using server_threads_reach_wf [OF reach] by (simp_all add: server_threads_wf_def)
  have ready: "pool_pusher (st_pool s) = Push_ready"
    using push_can_go_on [OF pool _ running_not_exited [OF reach]] none drain_possible_pool by fastforce
  then have idle: "polls.busy n (stored_polls (st_pool s)) = {}"
    using none busy_can_drain [OF reach ready] by (auto simp: stored_polls_ready)
  with server_threads_count [OF reach] handed ready
  show "st_done s = handed (st_pool s0)" "card (idle_slots (pool_polls (st_pool s))) = n"
    by (simp_all add: stored_polls_ready)
  show "st_arming s = None"
  proof (rule ccontr)
    assume "st_arming s \<noteq> None"
    then obtain fd where "st_arming s = Some fd" by blast
    then have "\<exists>t. server_threads_exec (V_arm 0) s = Returned t"
      using ready by (simp add: modify_epoll_event_def)
    moreover have "\<not> new_event (V_arm 0)" "server_threads_ok (V_arm 0) s"
      by (simp_all add: server_threads_ok_def)
    ultimately show False using none unfolding drain_possible_def by blast
  qed
qed

theorem server_threads_drain_witness:
  "\<exists>t l u. server_threads_reach 1 sample_server t \<and> handed (st_pool t) = 1 \<and> st_done t = 0
     \<and> \<not> new_event l \<and> server_threads_exec l t = Returned u"
proof -
  obtain t where t: "server_threads_reach (Suc 0) sample_server t" "handed (st_pool t) = 1" "st_done t = 0"
    by (rule small_threads_busy)
  have "\<exists>l u. \<not> new_event l \<and> server_threads_ok l t \<and> server_threads_exec l t = Returned u"
  proof (rule ccontr)
    assume "\<nexists>l u. \<not> new_event l \<and> server_threads_ok l t \<and> server_threads_exec l t = Returned u"
    with server_threads_drain [OF t(1) server_drains.none] have "st_done t = handed (st_pool t)" by blast
    with t(2,3) show False by simp
  qed
  with t show ?thesis unfolding One_nat_def by blast
qed

end
