(* ===== verification/FG_End_To_End.thy ===== *)
theory FG_End_To_End
  imports FG_Server_Steps FG_Client_Steps
begin

text \<open>
  One flow from the client to the server and back: the client's epoll thread writes a request,
  the server's epoll thread reads it and hands it to a worker, the worker writes the response, and a
  worker of the client reads it and records the flow completion time
  (\<open>flow_generator/src/client/client.c\<close> and \<open>flow_generator/src/server/server.c\<close>).

  The network is what connects the answers of the two programs' system calls: the server reads the
  bytes the client wrote, and as many bytes arrive at the client as the server wrote, however they
  are cut into pieces.
\<close>

lemma store_pops:
  assumes "i \<in> idle_slots ps"
  shows "event_pop (ps[i := store_event fd k (ps ! i)] ! i) = Returned \<lparr>ev_fd = fd, ev_flow_size = k\<rparr>"
  using assms by (simp add: idle_slots_def store_event_def event_pop_def flag_defs)

lemma get_flow_size_range:
  "get_flow_size cdf r = Returned n \<Longrightarrow> - (2 ^ 31) \<le> n \<and> n < 2 ^ 31"
  by (auto simp: get_flow_size_def run_bind_eq_Returned_iff Let_def split: if_splits)

lemma serve_flow_complete:
  assumes "sint (ev_fd e) = fd" "sint (ev_flow_size e) = n" "length rstack = MAX_READ_BUFF"
    and "list_all keeps_reading (rs @ [Read bs])" "total_arrived rs < n" "total_arrived (rs @ [Read bs]) = n"
    and "holds_rows (cl_time_table c) rows fcts" "0 \<le> fd" "fd < int (length rows)" "ft_fd (rows ! nat fd) \<noteq> 0"
  shows "\<exists>c'. serve_flow rstack e (rs @ [Read bs]) ctl now c = Returned (c', [])
    \<and> cl_active_flows c' = cl_active_flows c - 1 \<and> cl_left_flows c' = cl_left_flows c - 1
    \<and> holds_rows (cl_time_table c') (rows[nat fd := (rows ! nat fd)\<lparr>ft_resp_time := now,
         ft_fct := get_time_diff (ft_req_time (rows ! nat fd)) now\<rparr>]) fcts
    \<and> stat_errors (cl_time_table c') = stat_errors (cl_time_table c)
    \<and> cl_effects c' = cl_effects c @ [Epoll_ctl (cl_efd c) EPOLL_CTL_DEL fd, Net (Close fd)]"
proof -
  have n: "n \<le> INT_MAX" using sint_lt [of "ev_flow_size e"] by (simp add: assms(2) INT_MAX_def)
  have "read_responce rstack (sint (ev_flow_size e)) (rs @ [Read bs]) = Returned (n, [])"
    using read_responce_returns [of rs n rstack "[]" _ bs] assms(2-6) n by simp
  moreover have "n \<noteq> -1" using assms(5) total_arrived_nonneg [of rs] by linarith
  ultimately show ?thesis
    using serve_flow_returns [of rstack e "rs @ [Read bs]" n "[]" c rows fcts fd ctl now] assms(1,2,7-10)
    by (auto split: if_splits)
qed

text \<open>
  C1.  A flow of \<open>n\<close> bytes completes: when a socket of the client becomes writable, fewer flows than
  allowed are active and both programs have an idle worker, the client hands the socket and \<open>n\<close> to a
  worker; the server, reading the bytes the client wrote, hands its socket and the same \<open>n\<close> to
  a worker, which sends \<open>n\<close> bytes and closes the socket; and the client's worker, when these have
  arrived, records the socket, the size, both times and their difference, takes the flow off both
  counters, counts no error, and closes its socket.
\<close>

theorem flow_completes:
  assumes size: "get_flow_size cdf (ea_rand a) = Returned n" "0 < n"
    and stacks: "length (ea_stack a) = PAYLOAD_SIZE" "length (sa_stack sa) = PAYLOAD_SIZE"
      "length wstack = MAX_WRITE_BUFF" "length rstack = MAX_READ_BUFF"
    and table: "holds_rows (cl_time_table c) rows fcts"
    and fd: "0 < fd" "fd < int (length rows)" "fd < MAX_FLOWS" "ft_fd (rows ! nat fd) = 0"
    and pools: "idle_slots (cl_polls c) \<noteq> {}" "idle_slots (sv_polls s) \<noteq> {}"
    and events: "events AND EPOLLERR = 0" "events AND EPOLLHUP = 0" "events AND EPOLLOUT \<noteq> 0"
    and active: "cl_active_flows c < concurrent_flows"
    and sfd: "sv_sfd s \<noteq> sfd" "0 \<le> sfd" "sfd < MAX_FLOWS"
    and request: "write_request (ea_stack a) (ea_req a) n (Wrote PAYLOAD_SIZE) = Returned (bytes, r)"
      "ea_write a = Wrote PAYLOAD_SIZE" "sa_read sa = Read bytes"
    and written: "list_all keeps_writing ws" "total_taken ws = n"
    and arriving: "list_all keeps_reading (rs @ [Read bs])" "total_arrived rs < n"
      "total_arrived (rs @ [Read bs]) = total_taken ws"
  shows "\<exists>c1 i e s1 s2 j e' s3 c2.
      client_event cdf concurrent_flows a events fd c = Returned c1
    \<and> i \<in> idle_slots (cl_polls c) \<and> event_pop (cl_polls c1 ! i) = Returned e
    \<and> server_event sa EPOLLIN sfd s = Returned s1 \<and> server_event sb EPOLLOUT sfd s1 = Returned s2
    \<and> j \<in> idle_slots (sv_polls s) \<and> event_pop (sv_polls s2 ! j) = Returned e'
    \<and> send_responce wstack j e' ws sctl s2 = Returned s3
    \<and> sv_effects s3 = sv_effects s2 @ [Epoll_ctl (sv_efd s) EPOLL_CTL_DEL sfd, Net (Close sfd)]
    \<and> serve_flow rstack e (rs @ [Read bs]) ctl now c1 = Returned (c2, [])
    \<and> holds_rows (cl_time_table c2) (rows[nat fd := \<lparr>ft_fd = fd, ft_req_time = ea_now a,
        ft_resp_time = now, ft_flow_size = n, ft_fct = get_time_diff (ea_now a) now\<rparr>]) fcts
    \<and> cl_active_flows c2 = cl_active_flows c \<and> cl_left_flows c2 = cl_left_flows c - 1
    \<and> stat_errors (cl_time_table c2) = stat_errors (cl_time_table c)
    \<and> cl_effects c2 = cl_effects c1 @ [Epoll_ctl (cl_efd c) EPOLL_CTL_DEL fd, Net (Close fd)]"
proof -
  have n: "n < 2 ^ 31" using get_flow_size_range [OF size(1)] by simp
  let ?x = "(rows ! nat fd)\<lparr>ft_fd := fd, ft_flow_size := n, ft_req_time := ea_now a\<rparr>"
  obtain c1 i where c1: "client_event cdf concurrent_flows a events fd c = Returned c1"
    "i \<in> idle_slots (cl_polls c)"
    "cl_polls c1 = (cl_polls c)[i := store_event (word_of_int fd) (word_of_int n) (cl_polls c ! i)]"
    "cl_active_flows c1 = cl_active_flows c + 1" "cl_left_flows c1 = cl_left_flows c"
    "holds_rows (cl_time_table c1) (rows[nat fd := ?x]) fcts"
    "stat_errors (cl_time_table c1) = stat_errors (cl_time_table c)" "cl_efd c1 = cl_efd c"
    using start_flow_returns [OF size(1) stacks(1) table fd pools(1) events active] by blast
  define e where "e = \<lparr>ev_fd = word_of_int fd :: u32, ev_flow_size = word_of_int n :: u32\<rparr>"
  have pop: "event_pop (cl_polls c1 ! i) = Returned e"
    unfolding c1(3) e_def by (rule store_pops [OF c1(2)])
  have e: "sint (ev_fd e) = fd" "sint (ev_flow_size e) = n"
    using fd n size(2) by (simp_all add: e_def sint_word_of_int MAX_FLOWS_def)
  obtain s1 s2 s3 j e' where server: "server_event sa EPOLLIN sfd s = Returned s1"
    "server_event sb EPOLLOUT sfd s1 = Returned s2" "j \<in> idle_slots (sv_polls s)"
    "event_pop (sv_polls s2 ! j) = Returned e'" "send_responce wstack j e' ws sctl s2 = Returned s3"
    "sv_effects s3 = sv_effects s2 @ [Epoll_ctl (sv_efd s) EPOLL_CTL_DEL sfd, Net (Close sfd)]"
    using server_answers [OF sfd pools(2) size(2) n request(1) stacks(1) request(3) stacks(2)
        written stacks(3), of sb sctl] by blast
  let ?rows = "rows[nat fd := ?x]"
  have row: "?rows ! nat fd = ?x" "fd < int (length ?rows)" "ft_fd (?rows ! nat fd) \<noteq> 0"
    using fd by simp_all
  obtain c2 where c2: "serve_flow rstack e (rs @ [Read bs]) ctl now c1 = Returned (c2, [])"
    "cl_active_flows c2 = cl_active_flows c1 - 1" "cl_left_flows c2 = cl_left_flows c1 - 1"
    "holds_rows (cl_time_table c2) (?rows[nat fd := (?rows ! nat fd)\<lparr>ft_resp_time := now,
           ft_fct := get_time_diff (ft_req_time (?rows ! nat fd)) now\<rparr>]) fcts"
    "stat_errors (cl_time_table c2) = stat_errors (cl_time_table c1)"
    "cl_effects c2 = cl_effects c1 @ [Epoll_ctl (cl_efd c1) EPOLL_CTL_DEL fd, Net (Close fd)]"
    using serve_flow_complete [OF e stacks(4) arriving(1,2) _ c1(6) _ row(2,3), of ctl now]
      arriving(3) written(2) fd(1) by auto
  have "(?rows ! nat fd)\<lparr>ft_resp_time := now, ft_fct := get_time_diff (ft_req_time (?rows ! nat fd)) now\<rparr>
      = \<lparr>ft_fd = fd, ft_req_time = ea_now a, ft_resp_time = now, ft_flow_size = n,
         ft_fct = get_time_diff (ea_now a) now\<rparr>"
    unfolding row(1) by (cases "rows ! nat fd") simp
  with c2(4) have "holds_rows (cl_time_table c2) (rows[nat fd := \<lparr>ft_fd = fd, ft_req_time = ea_now a,
        ft_resp_time = now, ft_flow_size = n, ft_fct = get_time_diff (ea_now a) now\<rparr>]) fcts"
    by simp
  moreover have "cl_active_flows c2 = cl_active_flows c" "cl_left_flows c2 = cl_left_flows c - 1"
    "stat_errors (cl_time_table c2) = stat_errors (cl_time_table c)"
    "cl_effects c2 = cl_effects c1 @ [Epoll_ctl (cl_efd c) EPOLL_CTL_DEL fd, Net (Close fd)]"
    using c1(4,5,7,8) c2(2,3,5,6) by simp_all
  ultimately show ?thesis using c1(1,2) pop server c2(1) by blast
qed

text \<open>The request for the size that \<open>sample_answers\<close> draws, and the server's answer to it.\<close>

definition small_request :: server_answers where
  "small_request = sample_request\<lparr>sa_read := Read [0, 0, 0, 50]\<rparr>"

theorem flow_completes_witness:
  "\<exists>c1 e c2. client_event (Some conf_table) 1 sample_answers EPOLLOUT 5 sample_client = Returned c1
     \<and> serve_flow (replicate MAX_READ_BUFF 0) e ([Read (replicate 20 0)] @ [Read (replicate 30 0)]) 0
         \<lparr>tv_sec = 2, tv_usec = 0\<rparr> c1 = Returned (c2, [])
     \<and> cl_left_flows c2 = 1 \<and> cl_active_flows c2 = 0"
proof -
  have size: "(0::int) < 50" "length (sa_stack small_request) = PAYLOAD_SIZE"
    "length (replicate MAX_WRITE_BUFF (0::u8)) = MAX_WRITE_BUFF"
    "length (replicate MAX_READ_BUFF (0::u8)) = MAX_READ_BUFF"
    by (simp_all add: small_request_def sample_request_def PAYLOAD_SIZE_def)
  have fd: "(0::int) < 5" "(5::int) < MAX_FLOWS" "cl_active_flows sample_client < 1"
    by (simp_all add: MAX_FLOWS_def sample_client_facts)
  have idle: "idle_slots (sv_polls sample_server) \<noteq> {}"
    by (auto simp: idle_slots_def sample_server_def init_events_poll_def nth_append intro!: exI [of _ 0])
  have server: "sv_sfd sample_server \<noteq> 7" "(0::int) \<le> 7" "(7::int) < MAX_FLOWS"
    by (simp_all add: sample_server_def MAX_FLOWS_def)
  have request: "write_request (ea_stack sample_answers) (ea_req sample_answers) 50 (Wrote PAYLOAD_SIZE)
      = Returned ([0, 0, 0, 50], 4)"
    by code_simp
  have read: "ea_write sample_answers = Wrote PAYLOAD_SIZE" "sa_read small_request = Read [0, 0, 0, 50]"
    by (simp_all add: sample_answers_def PAYLOAD_SIZE_def small_request_def)
  have transfers: "list_all keeps_writing [Wrote 50]" "total_taken [Wrote 50] = 50"
    "list_all keeps_reading ([Read (replicate 20 0)] @ [Read (replicate 30 0)])"
    "total_arrived [Read (replicate 20 0)] < 50"
    "total_arrived ([Read (replicate 20 0)] @ [Read (replicate 30 0)]) = total_taken [Wrote 50]"
    by (simp_all add: total_taken_def total_arrived_def MAX_READ_BUFF_def MAX_WRITE_BUFF_def)
  show ?thesis
    using flow_completes [OF sample_client_facts(1) size(1) sample_client_facts(2) size(2,3,4)
        sample_client_facts(3) fd(1) sample_client_facts(5) fd(2) sample_client_facts(4)
        sample_client_idle idle event_bits(1-3) fd(3) server request read transfers,
        of sample_request 0 0 "\<lparr>tv_sec = 2, tv_usec = 0\<rparr>"]
      sample_client_facts(6,7)
    by fastforce
qed

text \<open>
  C32.  A response that fails is counted once as a size error: when a \<open>write\<close> of the server fails for
  good before \<open>n\<close> bytes are taken, its worker closes the socket and becomes idle; when the
  client's worker has read what arrived and then the end of the connection, it counts a size error,
  deletes the flow's record, takes the flow off both counters, and closes its socket.
\<close>

theorem failed_response_counted:
  assumes written: "list_all keeps_writing ws" "total_taken ws < n" "hard \<noteq> EAGAIN" "hard \<noteq> EINTR"
    and stacks: "length wstack = MAX_WRITE_BUFF" "length rstack = MAX_READ_BUFF"
    and sent: "sint (ev_flow_size e') = n" "j < length (sv_polls s)"
    and arrived: "list_all keeps_reading rs" "total_arrived rs \<le> total_taken ws"
    and flow: "sint (ev_flow_size e) = n" "sint (ev_fd e) = fd" "0 \<le> fd" "fd < int (length rows)"
      "holds_rows (cl_time_table c) rows fcts" "ft_fd (rows ! nat fd) \<noteq> 0"
  shows "\<exists>s' c'. send_responce wstack j e' (ws @ Write_error hard # wrest) sctl s = Returned s'
    \<and> Net (Close (sint (ev_fd e'))) \<in> set (sv_effects s') \<and> j \<in> idle_slots (sv_polls s')
    \<and> serve_flow rstack e (rs @ [Read []]) ctl now c = Returned (c', [])
    \<and> size_error (stat_errors (cl_time_table c')) = size_error (stat_errors (cl_time_table c)) + 1
    \<and> holds_rows (cl_time_table c') (rows[nat fd := (rows ! nat fd)\<lparr>ft_fd := 0\<rparr>]) fcts
    \<and> cl_active_flows c' = cl_active_flows c - 1 \<and> cl_left_flows c' = cl_left_flows c - 1
    \<and> cl_effects c' = cl_effects c @ [Epoll_ctl (cl_efd c) EPOLL_CTL_DEL fd, Net (Close fd)]"
proof -
  have n: "n \<le> INT_MAX" using sint_lt [of "ev_flow_size e"] by (simp add: flow(1) [symmetric] INT_MAX_def)
  have less: "total_arrived rs < n" and pos: "0 < n"
    using arrived(2) written(2) total_taken_nonneg [of ws] by linarith+
  obtain asked where "write_responce wstack n (ws @ Write_error hard # wrest) = Returned (-1, asked)"
    using write_responce_returns [OF written(1) n stacks(1), of wrest hard] written(2-4) by blast
  then have "\<exists>s'. send_responce wstack j e' (ws @ Write_error hard # wrest) sctl s = Returned s'
      \<and> Net (Close (sint (ev_fd e'))) \<in> set (sv_effects s') \<and> j \<in> idle_slots (sv_polls s')"
    using sent by (simp add: send_responce_def Let_def release_slot_def)
  moreover have read: "read_responce rstack (sint (ev_flow_size e)) (rs @ [Read []]) = Returned (0, [])"
    using read_responce_returns [OF arrived(1) less n stacks(2), of "[]"] flow(1) by simp
  have "\<exists>c'. serve_flow rstack e (rs @ [Read []]) ctl now c = Returned (c', [])
    \<and> size_error (stat_errors (cl_time_table c')) = size_error (stat_errors (cl_time_table c)) + 1
    \<and> holds_rows (cl_time_table c') (rows[nat fd := (rows ! nat fd)\<lparr>ft_fd := 0\<rparr>]) fcts
    \<and> cl_active_flows c' = cl_active_flows c - 1 \<and> cl_left_flows c' = cl_left_flows c - 1
    \<and> cl_effects c' = cl_effects c @ [Epoll_ctl (cl_efd c) EPOLL_CTL_DEL fd, Net (Close fd)]"
    using serve_flow_returns [OF read flow(5) flow(2) [symmetric] flow(3,4,6), of ctl now] flow(1) pos
    by (auto split: if_splits)
  ultimately show ?thesis by blast
qed

theorem failed_response_counted_witness:
  "\<exists>c'. serve_flow (replicate MAX_READ_BUFF 0) \<lparr>ev_fd = 5, ev_flow_size = 3\<rparr> ([Read [0]] @ [Read []]) 0
       \<lparr>tv_sec = 2, tv_usec = 0\<rparr> (sample_client\<lparr>cl_time_table := busy_times\<rparr>) = Returned (c', [])
     \<and> size_error (stat_errors (cl_time_table c')) = 1"
proof -
  have rows: "holds_rows busy_times (sample_rows[5 := zero_time\<lparr>ft_fd := 5, ft_flow_size := 3\<rparr>])
      (replicate THRES_NUM (replicate 6 0))"
    using sample_times_holds by (simp add: holds_rows_def busy_times_def sample_rows_def)
  have zero: "size_error (stat_errors busy_times) = 0"
    by (simp add: busy_times_def sample_times_def)
  show ?thesis
    using failed_response_counted [of "[Wrote 2]" 3 "Other_errno 104" "replicate MAX_WRITE_BUFF 0"
        "replicate MAX_READ_BUFF 0" "\<lparr>ev_fd = 9, ev_flow_size = 3\<rparr>" 0 sample_server "[Read [0]]"
        "\<lparr>ev_fd = 5, ev_flow_size = 3\<rparr>" 5
        "sample_rows[5 := zero_time\<lparr>ft_fd := 5, ft_flow_size := 3\<rparr>]"
        "sample_client\<lparr>cl_time_table := busy_times\<rparr>" "replicate THRES_NUM (replicate 6 0)" "[]" 0 0
        "\<lparr>tv_sec = 2, tv_usec = 0\<rparr>"] rows zero
    by (fastforce simp: sample_rows_def sample_server_def total_taken_def total_arrived_def
        MAX_READ_BUFF_def MAX_WRITE_BUFF_def zero_time_def)
qed

end
