(* ===== verification/FG_Threads.thy ===== *)
theory FG_Threads
  imports FG_Common
begin

text \<open>
  The creation of the threads in the two \<open>main\<close> functions
  (\<open>flow_generator/src/client/client.c\<close> and \<open>flow_generator/src/server/server.c\<close>) and the processors
  they are bound to.

  The answers of \<open>pthread_create\<close> are arguments; a call that fails ends the program with -1.
  The result is the threads created, with the processor of each.
\<close>

definition MAX_CPU_INDEX :: nat where
  "MAX_CPU_INDEX = 23"

definition MIN_CPU_INDEX :: nat where
  "MIN_CPU_INDEX = 1"

datatype routine = Worker nat | Epoll_routine | Shell_routine

definition create_thread :: "int \<Rightarrow> routine \<Rightarrow> nat \<Rightarrow> (routine \<times> nat) list run" where
  "create_thread rc routine cpu = (if rc \<noteq> 0 then Exited (-1) else Returned [(routine, cpu)])"

text \<open>The loop over the workers, from index \<open>i\<close> on, with \<open>k\<close> workers left.\<close>

fun create_workers :: "(nat \<Rightarrow> int) \<Rightarrow> nat \<Rightarrow> nat \<Rightarrow> (routine \<times> nat) list run" where
  "create_workers rc i 0 = Returned []"
| "create_workers rc i (Suc k) =
     run_bind (create_thread (rc i) (Worker i) ((i + MIN_CPU_INDEX) mod MAX_CPU_INDEX + MIN_CPU_INDEX))
       (\<lambda>t. run_bind (create_workers rc (i + 1) k) (\<lambda>ts. Returned (t @ ts)))"

definition client_threads :: "(nat \<Rightarrow> int) \<Rightarrow> int \<Rightarrow> int \<Rightarrow> nat \<Rightarrow> (routine \<times> nat) list run" where
  "client_threads rc rc_epoll rc_shell threads_num =
     run_bind (create_workers rc 0 threads_num) (\<lambda>workers.
     run_bind (create_thread rc_epoll Epoll_routine 0) (\<lambda>epoll.
     run_bind (create_thread rc_shell Shell_routine 23) (\<lambda>shell.
       Returned (workers @ epoll @ shell))))"

definition server_threads :: "(nat \<Rightarrow> int) \<Rightarrow> int \<Rightarrow> nat \<Rightarrow> (routine \<times> nat) list run" where
  "server_threads rc rc_epoll threads_num =
     run_bind (create_workers rc 0 threads_num) (\<lambda>workers.
     run_bind (create_thread rc_epoll Epoll_routine 0) (\<lambda>epoll.
       Returned (workers @ epoll)))"

section \<open>Where the threads run\<close>

definition worker_cpu :: "nat \<Rightarrow> nat" where
  "worker_cpu i = Suc i mod 23 + 1"

lemma create_workers_spec:
  "create_workers rc i k =
     (if list_all (\<lambda>j. rc j = 0) [i..<i + k]
      then Returned (map (\<lambda>j. (Worker j, worker_cpu j)) [i..<i + k]) else Exited (-1))"
proof (induction k arbitrary: i)
  case (Suc k)
  have "[i..<i + Suc k] = i # [Suc i..<Suc i + k]" by (simp add: upt_conv_Cons)
  with Suc [of "Suc i"] show ?case
    by (simp add: create_thread_def worker_cpu_def MAX_CPU_INDEX_def MIN_CPU_INDEX_def)
qed simp

text \<open>
  The client and the server create a thread for each worker, in order, then the epoll thread on
  processor 0, and the client its shell thread on processor 23; if a creation fails the program ends
  with -1.  Workers run on the processors 1 to 23, never on that of the epoll thread; two of them
  share one exactly if their numbers differ by a multiple of 23, and worker 21 shares that of the
  shell thread.
\<close>

theorem threads_placed:
  "client_threads rc rc_epoll rc_shell n =
     (if list_all (\<lambda>i. rc i = 0) [0..<n] \<and> rc_epoll = 0 \<and> rc_shell = 0
      then Returned (map (\<lambda>i. (Worker i, worker_cpu i)) [0..<n] @ [(Epoll_routine, 0), (Shell_routine, 23)])
      else Exited (-1))
   \<and> server_threads rc rc_epoll n =
     (if list_all (\<lambda>i. rc i = 0) [0..<n] \<and> rc_epoll = 0
      then Returned (map (\<lambda>i. (Worker i, worker_cpu i)) [0..<n] @ [(Epoll_routine, 0)])
      else Exited (-1))
   \<and> 1 \<le> worker_cpu i \<and> worker_cpu i \<le> 23
   \<and> (worker_cpu i = worker_cpu j) = (i mod 23 = j mod 23) \<and> (worker_cpu i = 23) = (i mod 23 = 21)"
proof -
  have "i mod 23 < 23" "j mod 23 < 23" by simp_all
  then have "(worker_cpu i = worker_cpu j) = (i mod 23 = j mod 23)"
    "(worker_cpu i = 23) = (i mod 23 = 21)" "worker_cpu i \<le> 23"
    by (auto simp: worker_cpu_def mod_Suc)
  then show ?thesis
    by (simp add: client_threads_def server_threads_def create_workers_spec create_thread_def)
      (simp add: worker_cpu_def)
qed

end
