(* ===== verification/FG_Programs.thy ===== *)
theory FG_Programs
  imports FG_Client_Steps FG_Server FG_Threads
begin

text \<open>
  The two programs as a whole: \<open>main\<close> with its output and its threads, and the end of the client
  (\<open>flow_generator/src/client/client.c\<close> and \<open>flow_generator/src/server/server.c\<close>).
\<close>

section \<open>The main functions\<close>

text \<open>
  \<open>main\<close> of the client: the configuration, the distribution, the tables, what it prints, and the
  threads.  It ends by \<open>pthread_exit\<close>, so the call of \<open>cleanup\<close> behind it is never made.
\<close>

definition client_program ::
    "(string \<Rightarrow> int) \<Rightarrow> ifaddr list option \<Rightarrow> (char \<times> string) list
     \<Rightarrow> (nat \<Rightarrow> cdf_entry list option) \<Rightarrow> (string \<Rightarrow> rat option \<times> rat option) \<Rightarrow> string list option
     \<Rightarrow> (nat \<Rightarrow> bool) \<Rightarrow> (rat \<Rightarrow> string) \<Rightarrow> (nat \<Rightarrow> int) \<Rightarrow> int \<Rightarrow> int
     \<Rightarrow> (flow_configs \<times> connection_four_tuples \<times> cdf_table option \<times> client \<times> string
         \<times> (routine \<times> nat) list) run" where
  "client_program atoi ifaddrs opts malloc scan cdf_file alloc show_double rc rc_epoll rc_shell =
     run_bind (client_main atoi ifaddrs opts malloc scan cdf_file alloc)
       (\<lambda>(flow_conf, socket_conf, conn, req_size_dist, c).
     run_bind (of_access (print_cdf show_double req_size_dist)) (\<lambda>cdf_text.
     run_bind (of_access (print_socket_configs socket_conf)) (\<lambda>socket_text.
     run_bind (client_threads rc rc_epoll rc_shell (nat (sint (fc_threads flow_conf)))) (\<lambda>threads.
       Returned (flow_conf, conn, req_size_dist, c,
         cdf_text @ print_flow_configs flow_conf @ socket_text, threads)))))"

definition server_program ::
    "(string \<Rightarrow> int) \<Rightarrow> (char \<times> string) list \<Rightarrow> (nat \<Rightarrow> int) \<Rightarrow> int
     \<Rightarrow> (server_configs \<times> server \<times> (routine \<times> nat) list) run" where
  "server_program atoi opts rc rc_epoll =
     run_bind (server_main atoi opts) (\<lambda>(conf, s).
     run_bind (server_threads rc rc_epoll (nat (sint (sc_threads conf)))) (\<lambda>threads.
       Returned (conf, s, threads)))"

section \<open>The client starts\<close>

lemma print_cdf_returns:
  assumes "wf_cdf t rows"
  shows "\<exists>out. print_cdf show_double (Some t) = Some out"
proof -
  define step where "step = (\<lambda>i out. do { x \<leftarrow> read_entry t i;
      Some (out @ show_double (entry_value x) @ '' '' @ show_double (entry_cdf x) @ newline) })"
  have "\<exists>out'. fold_option step [0..<k] out = Some out'" if "k \<le> length rows" for k out
    using that
  proof (induction k)
    case (Suc k)
    then obtain out' where "fold_option step [0..<k] out = Some out'" by auto
    moreover have "read_entry t k = Some (rows ! k)"
      using read_entry_rows [OF assms, of k] Suc.prems by simp
    ultimately show ?case by (simp add: fold_option_snoc step_def)
  qed simp
  then show ?thesis
    using wf_cdf_length [OF assms] by (simp add: print_cdf_def step_def)
qed

lemma print_socket_configs_returns:
  assumes "get_client_configs atoi ifaddrs opts = Returned (conf, sc, conn)"
  shows "\<exists>out. print_socket_configs sc = Some out"
proof -
  have "dst_num sc = 1 \<and> 0 < length (dst_hosts sc)"
    using assms
    by (auto simp: get_client_configs_def get_socket_configs_def read_socket_configs_def get_dst_info_def
        init_socket_configs_def run_bind_eq_Returned_iff c_write_def MAX_SERVER_IPS_def MAX_IPS_def
        split: if_splits bind_splits)
  then show ?thesis by (simp add: print_socket_configs_def c_read_def)
qed

lemma client_main_returns:
  assumes accepted: "get_flow_configs atoi opts = Returned conf" "fc_dev conf \<noteq> ''''"
      "length (fc_dev conf) < 15"
    and addrs: "list_all (\<lambda>ifa. is_selected (fc_dev conf) ifa \<longrightarrow> has_host ifa) addrs"
      "length (filter (is_selected (fc_dev conf)) addrs) \<le> MAX_IPS"
      "filter (is_selected (fc_dev conf)) addrs \<noteq> []"
    and distribution: "malloc_ok malloc" "scans scan lines rows" "list_all (\<lambda>r. entry_cdf r \<le> MAX_CDF) rows"
    and threads: "0 < sint (fc_threads conf)" "sint (fc_threads conf) < int MAX_THREADS"
    and memory: "\<forall>k. alloc k" "0 \<le> sint (fc_flows_num conf + BACKUP)"
  shows "\<exists>sc conn t c. client_main atoi (Some addrs) opts malloc scan (Some lines) alloc
      = Returned (conf, sc, conn, Some t, c)
    \<and> get_client_configs atoi (Some addrs) opts = Returned (conf, sc, conn)
    \<and> wf_cdf t rows \<and> sport conn = 0 \<and> daddr conn = fc_server conf \<and> dport conn = fc_port conf
    \<and> results (cl_time_table c) = map init_result standard_thresholds"
proof -
  obtain sc conn where configs: "get_client_configs atoi (Some addrs) opts = Returned (conf, sc, conn)"
    "sport conn = 0" "daddr conn = fc_server conf" "dport conn = fc_port conf"
    using client_configs_accepted [OF accepted addrs(1,2)] addrs(3)
    by (auto split: list.splits)
  obtain t where cdf: "get_cdf malloc scan
      (Some \<lparr>cdf_entries = None, num_entry = 0, max_entry = 0, min_cdf = 0, max_cdf = 0\<rparr>) (Some lines)
      = Returned (Some t)" "wf_cdf t rows"
    using get_cdf_returns [OF distribution(1,2)] distribution(3) by blast
  obtain times where times: "init_flow_time_table alloc zero_table (sint (fc_flows_num conf + BACKUP))
      = Returned (times, SUCCESS)" "results times = map init_result standard_thresholds"
    using init_table_ok [OF memory(1), of zero_table "nat (sint (fc_flows_num conf + BACKUP))"] memory(2)
    by auto
  obtain polls where "init_events_polls zero_polls (nat (sint (fc_threads conf))) = Some polls"
    using init_events_polls_spec [of zero_polls "nat (sint (fc_threads conf))"] threads
    by (simp add: zero_polls_def)
  with configs cdf times threads show ?thesis
    by (simp add: client_main_def Let_def)
qed

lemma epoll_client_start_returns:
  assumes "create_ans \<noteq> -1" "sport conn = 0"
  shows "\<exists>c'. epoll_client_start inet_addr create_ans ans ctl conn num c = Returned c'
    \<and> cl_left_flows c' = of_nat (length (filter (\<lambda>i. connects (ans i)) [0..<nat num]))"
  using assms create_N_loop_spec [of inet_addr conn create_ans ans ctl 0 "nat num" 0]
  by (auto simp: epoll_client_start_def create_epoll_def create_N_epoll_events_def Let_def)

text \<open>
  C30.  The client starts: with an accepted command line, at most 63 threads, up to 16 addresses of
  the device, a file of probabilities up to 1, and memory and threads available, \<open>main\<close> returns
  without a fault; the distribution holds the lines of the file; the start of the epoll thread counts
  the connections made to the server as \<open>left_flows\<close>; and this is a start state of the interleavings
  with a worker thread for each idle slot and an unused entry for each flow and 64 more.
\<close>

theorem client_starts_up:
  assumes accepted: "get_flow_configs atoi opts = Returned conf" "fc_dev conf \<noteq> ''''"
      "length (fc_dev conf) < 15"
    and addrs: "list_all (\<lambda>ifa. is_selected (fc_dev conf) ifa \<longrightarrow> has_host ifa) addrs"
      "length (filter (is_selected (fc_dev conf)) addrs) \<le> MAX_IPS"
      "filter (is_selected (fc_dev conf)) addrs \<noteq> []"
    and distribution: "malloc_ok malloc" "scans scan lines rows" "list_all (\<lambda>r. entry_cdf r \<le> MAX_CDF) rows"
    and threads: "n = nat (sint (fc_threads conf))" "0 < n" "n < MAX_THREADS"
      "list_all (\<lambda>i. rc i = 0) [0..<n]"
    and memory: "\<forall>k. alloc k" "unat (fc_flows_num conf) < 2 ^ 31 - 64"
    and epoll: "create_ans \<noteq> -1"
  shows "\<exists>conn t c out c'. client_program atoi (Some addrs) opts malloc scan (Some lines) alloc show_double rc 0 0
      = Returned (conf, conn, Some t, c, out,
          map (\<lambda>i. (Worker i, worker_cpu i)) [0..<n] @ [(Epoll_routine, 0), (Shell_routine, 23)])
    \<and> wf_cdf t rows \<and> daddr conn = fc_server conf \<and> dport conn = fc_port conf
    \<and> epoll_client_start inet_addr create_ans ans ctl conn flows c = Returned c'
    \<and> cl_left_flows c' = of_nat (length (filter (\<lambda>i. connects (ans i)) [0..<nat flows]))
    \<and> client_sys_start n (cl_left_flows c')
        \<lparr>sys_client = c', sys_workers = replicate n Waiting_worker, sys_done = 0\<rparr>
    \<and> holds_rows (cl_time_table c') (replicate (unat (fc_flows_num conf) + 64) zero_time)
        (replicate THRES_NUM (replicate (unat (fc_flows_num conf) + 64) 0))"
proof -
  have "fc_flows_num conf + BACKUP = word_of_int (int (unat (fc_flows_num conf) + 64))"
    by (simp add: BACKUP_def)
  moreover have "int (unat (fc_flows_num conf)) < int (2 ^ 31 - 64)"
    using memory(2) by (rule of_nat_less_iff [THEN iffD2])
  ultimately have entries: "0 \<le> sint (fc_flows_num conf + BACKUP)"
    using sint_word_of_int [of "int (unat (fc_flows_num conf) + 64)"] by simp
  have n: "0 < sint (fc_threads conf)" "sint (fc_threads conf) < int MAX_THREADS"
    "unat (fc_threads conf) = n"
    using threads(1-3) nat_sint [of "fc_threads conf"] by auto
  obtain sc conn t c where main: "client_main atoi (Some addrs) opts malloc scan (Some lines) alloc
      = Returned (conf, sc, conn, Some t, c)" "get_client_configs atoi (Some addrs) opts = Returned (conf, sc, conn)"
    "wf_cdf t rows" "sport conn = 0" "daddr conn = fc_server conf" "dport conn = fc_port conf"
    using client_main_returns [OF accepted addrs distribution n(1,2) memory(1) entries] by blast
  obtain c' where start: "epoll_client_start inet_addr create_ans ans ctl conn flows c = Returned c'"
    "cl_left_flows c' = of_nat (length (filter (\<lambda>i. connects (ans i)) [0..<nat flows]))"
    using epoll_client_start_returns [OF epoll main(4)] by blast
  obtain cdf_text where "print_cdf show_double (Some t) = Some cdf_text"
    using print_cdf_returns [OF main(3)] by blast
  moreover obtain socket_text where "print_socket_configs sc = Some socket_text"
    using print_socket_configs_returns [OF main(2)] by blast
  moreover have "client_threads rc 0 0 n = Returned (map (\<lambda>i. (Worker i, worker_cpu i)) [0..<n]
      @ [(Epoll_routine, 0), (Shell_routine, 23)])"
    using threads(4) by (simp add: client_threads_def create_workers_spec create_thread_def)
  ultimately have "client_program atoi (Some addrs) opts malloc scan (Some lines) alloc show_double rc 0 0
      = Returned (conf, conn, Some t, c, cdf_text @ print_flow_configs conf @ socket_text,
          map (\<lambda>i. (Worker i, worker_cpu i)) [0..<n] @ [(Epoll_routine, 0), (Shell_routine, 23)])"
    using main(1) threads(1) by (simp add: client_program_def)
  moreover have "client_sys_start n (cl_left_flows c')
        \<lparr>sys_client = c', sys_workers = replicate n Waiting_worker, sys_done = 0\<rparr>"
    "holds_rows (cl_time_table c') (replicate (unat (fc_flows_num conf) + 64) zero_time)
        (replicate THRES_NUM (replicate (unat (fc_flows_num conf) + 64) 0))"
    using client_starts_well_formed [OF main(1) start(1)] n(3) memory by (simp_all add: Let_def)
  ultimately show ?thesis using main(3,5,6) start by blast
qed

theorem client_starts_up_witness:
  "\<exists>conn t c out. client_program sample_atoi (Some [eth0_addr]) sample_opts zero_malloc conf_scan (Some conf_cdf)
      (\<lambda>_. True) (\<lambda>_. []) (\<lambda>_. 0) 0 0
      = Returned (sample_conf, conn, Some t, c, out,
          map (\<lambda>i. (Worker i, worker_cpu i)) [0..<12] @ [(Epoll_routine, 0), (Shell_routine, 23)])
    \<and> daddr conn = ''10.0.0.9''"
proof -
  have conf: "get_flow_configs sample_atoi sample_opts = Returned sample_conf"
    by code_simp
  have dev: "fc_dev sample_conf = ''eth0''" "fc_server sample_conf = ''10.0.0.9''"
    "fc_threads sample_conf = 12" "fc_flows_num sample_conf = 0"
    by (simp_all add: sample_conf_def init_flow_configs_def)
  have "is_selected ''eth0'' eth0_addr" "has_host eth0_addr"
    by (simp_all add: is_selected_def has_host_def eth0_addr_def NI_MAXHOST_def)
  moreover have "list_all (\<lambda>r. entry_cdf r \<le> MAX_CDF) conf_rows"
    by (simp add: conf_rows_def MAX_CDF_def)
  moreover have "list_all (\<lambda>i. (\<lambda>_. 0) i = (0::int)) [0..<12]"
    by (simp add: list_all_iff)
  ultimately show ?thesis
    using client_starts_up [OF conf, of "[eth0_addr]" zero_malloc conf_scan conf_cdf conf_rows 12 "\<lambda>_. 0"
        "\<lambda>_. True" 3 "\<lambda>_. []"] zero_malloc_ok conf_scans
    by (fastforce simp: dev MAX_IPS_def MAX_THREADS_def)
qed

section \<open>The client ends\<close>

lemma result_names:
  "string_joint FILENAME_SIZE ''result/flowsize_fct_'' name =
     (if length name < 108 then Some (''result/flowsize_fct_'' @ name) else None)"
  "string_joint FILENAME_SIZE ''stats/FCT_'' name =
     (if length name < 118 then Some (''stats/FCT_'' @ name) else None)"
  by (simp_all add: string_joint_eq FILENAME_SIZE_def)

text \<open>
  C31.  The epoll thread leaves its loop exactly when no flow is left, and asks for the background
  traffic exactly when less than eight tenths of the flows are left.  If the files can be opened and
  the argument of \<open>-f\<close> has less than 108 characters, it then writes the statistics of all recorded
  flows and sets \<open>kill\<close>; with 108 characters or more, which the command line allows up to 127, it
  writes behind the buffer of the file's name.
\<close>

theorem client_ends:
  assumes "holds_rows (cl_time_table c) rows fcts" "rows \<noteq> []"
    and "results (cl_time_table c) = map init_result standard_thresholds"
    and "\<forall>x\<in>set rows. is_int (ft_flow_size x) \<and> is_int (ft_fct x)"
    and "\<forall>xs. mset (qsort cmp xs) = mset xs" "\<forall>name. can_open name"
    and "0 \<le> flows_num" "flows_num < 2 ^ 31"
  shows "client_loop_head flows_num c =
      (if cl_left_flows c = 0 then None
       else Some (c\<lparr>cl_memaslap := cl_memaslap c \<or> 10 * uint (cl_left_flows c) < 8 * flows_num\<rparr>))
    \<and> (if length (fc_result_file conf) < 108 then
         \<exists>c' out results_text stats_text. epoll_client_end qsort can_open conf c
             = Returned (c', out, results_text, stats_text)
           \<and> cl_kill c' \<and> (\<Sum>g<THRES_NUM. sr_counter (results (cl_time_table c') ! g))
               = int (length (filter (\<lambda>x. ft_fd x \<noteq> 0) rows))
       else epoll_client_end qsort can_open conf c = Faulted)"
proof (intro conjI)
  show "client_loop_head flows_num c =
      (if cl_left_flows c = 0 then None
       else Some (c\<lparr>cl_memaslap := cl_memaslap c \<or> 10 * uint (cl_left_flows c) < 8 * flows_num\<rparr>))"
    unfolding client_loop_head_def memaslap_threshold [OF assms(7,8)] by (simp add: word_gt_0)
  obtain t out rt st where "print_statistics qsort can_open (cl_time_table c)
      (''result/flowsize_fct_'' @ fc_result_file conf) (''stats/FCT_'' @ fc_result_file conf)
      = Returned (t, out, rt, st)"
    "(\<Sum>g<THRES_NUM. sr_counter (results t ! g)) = int (length (filter (\<lambda>x. ft_fd x \<noteq> 0) rows))"
    using print_statistics_returns [where qsort = qsort and can_open = can_open, OF assms(1-6)] by blast
  then show "if length (fc_result_file conf) < 108 then
         \<exists>c' out results_text stats_text. epoll_client_end qsort can_open conf c
             = Returned (c', out, results_text, stats_text)
           \<and> cl_kill c' \<and> (\<Sum>g<THRES_NUM. sr_counter (results (cl_time_table c') ! g))
               = int (length (filter (\<lambda>x. ft_fd x \<noteq> 0) rows))
       else epoll_client_end qsort can_open conf c = Faulted"
    by (simp add: epoll_client_end_def result_names)
qed

theorem client_ends_witness:
  "\<exists>c' out results_text stats_text.
     epoll_client_end (\<lambda>_ xs. sort xs) (\<lambda>_. True) sample_conf (sample_client\<lparr>cl_time_table := recorded_times\<rparr>)
       = Returned (c', out, results_text, stats_text) \<and> cl_kill c'"
proof -
  define c where "c = sample_client\<lparr>cl_time_table := recorded_times\<rparr>"
  have facts: "holds_rows (cl_time_table c) recorded_rows (replicate THRES_NUM (replicate 4 0))"
    "results (cl_time_table c) = map init_result standard_thresholds"
    using recorded_facts by (simp_all add: c_def)
  have "length (fc_result_file sample_conf) < 108"
    by (simp add: sample_conf_def init_flow_configs_def)
  with client_ends [where qsort = "\<lambda>_ xs. sort xs" and can_open = "\<lambda>_. True" and conf = sample_conf,
      OF facts(1) recorded_facts(2) facts(2) recorded_facts(4), of 10]
  show ?thesis unfolding c_def [symmetric] by auto
qed

end
