(* ===== verification/Spec2Isabelle.thy ===== *)
theory Spec2Isabelle
  imports PIAS_Callers_Hooks FG_Client_Live FG_Client_Counters FG_Server_Live FG_End_To_End FG_Programs
begin

text \<open>
  Panda consists of two C programs, which this library models and verifies.

  \<^bold>\<open>PIAS\<close> (\<open>PIAS/\<close>) is a Linux kernel module.  It counts the bytes each TCP flow has sent and marks
  outgoing packets with the DSCP of a priority that falls as the count passes thresholds.
  Netfilter hooks see every packet, a probe on \<open>tcp_sendmsg\<close> sees what applications write, a module
  parameter prints or clears the flow table, and sysctl entries export the tunables.

  \<^bold>\<open>The flow generator\<close> (\<open>flow_generator/src/\<close>) is a client and a server.  The client connects many
  times to the server, asks on each connection for a flow of a size drawn from a distribution, with
  a fixed number of flows active, and records flow completion times.  In both programs an
  epoll thread hands events to worker threads through slots.


  \<^bold>\<open>How C is modelled.\<close>  A structure is a record, a 32-bit counter a \<open>u32\<close> (a word, which wraps), an
  \<open>int\<close> an integer whose bounds are tested where it can overflow, an array a list whose accesses
  out of bounds are \<open>None\<close> (PIAS) or \<open>Faulted\<close> (generator), a pointer to an optional object an
  \<open>option\<close>.  In the generator a function returns a value of type \<open>run\<close>: \<open>Returned\<close>, \<open>Exited\<close> for a call
  of \<open>exit\<close>, \<open>Aborted\<close> for a failing \<open>assert\<close>, \<open>Blocked\<close> for a wait or a loop whose answers are used
  up, and \<open>Faulted\<close> for undefined behaviour.  What the system decides is an argument: the answers of
  system calls, the results of allocations, the time, random numbers, and the content of
  uninitialised memory.  System calls a function makes are listed in order in its result or state.


  \<^bold>\<open>Theories of PIAS.\<close>
    \<^item> \<open>Prelude\<close>: words, array accesses, folds in the option monad, and lemma collections, for both programs.
    \<^item> \<open>Step_Systems\<close>: locales for systems of labelled steps, for their invariants, and for one system
      seen through another; every system of steps below is an interpretation of them.
    \<^item> \<open>PIAS_Params\<close> (\<open>params.c\<close>, \<open>params.h\<close>): tunables and the sysctl table.
    \<^item> \<open>PIAS_Network\<close> (\<open>network.c\<close>): priority, marking, and the order of sequence numbers.
    \<^item> \<open>PIAS_Flow\<close>, \<open>PIAS_Flow_Spec\<close> (\<open>flow.c\<close>, \<open>flow.h\<close>): the hash table of flows, its invariant, and
      its abstraction to a finite map; a locale states the interface, interpreted on the table.
    \<^item> \<open>PIAS_Netfilter\<close> (\<open>netfilter.c\<close>): both hooks and their registration, proved against the interface.
    \<^item> \<open>PIAS_JProbe\<close> (\<open>jprobe.c\<close>): the probe on \<open>tcp_sendmsg\<close>.
    \<^item> \<open>PIAS_Main\<close> (\<open>main.c\<close>): loading, unloading, the file of operations, and the states the module reaches.
    \<^item> \<open>PIAS_Callers\<close> (\<open>flow.c\<close>): the table with an address for each entry, used by several callers at once,
      whose searches go from link to link without a lock.  \<open>PIAS_Callers_Spec\<close> proves that calls which
      get along act one after the other, as in \<open>PIAS_Flow\<close>; \<open>PIAS_Callers_Hooks\<close> that the hooks and
      the probe are such calls.


  \<^bold>\<open>Theories of the generator.\<close>
    \<^item> \<open>FG_Common\<close> (\<open>common/common.c\<close>): the type \<open>run\<close>, strings, and serialisation; the locale \<open>codec\<close>
      states the round trip and is interpreted for each width.
    \<^item> \<open>FG_Payload\<close> (\<open>common/payload.c\<close>): the request, another instance of \<open>codec\<close>.
    \<^item> \<open>FG_Network\<close> (\<open>common/network.c\<close>): addresses, connections, and transfers.  \<open>FG_Transfer\<close> proves the
      transfers correct and terminating, \<open>FG_Sockets\<close> the rest.
    \<^item> \<open>FG_Epoll\<close> (\<open>common/epoll.c\<close>): registration of sockets.
    \<^item> \<open>FG_Thread_Poll\<close> (\<open>common/thread_poll.c\<close>): the slots; the locale \<open>slot_pool\<close> is their contract.
      \<open>FG_Pool_Steps\<close> has all interleavings of \<open>event_push\<close> and \<open>event_pop\<close>, with condition variables, and
      \<open>FG_Pool_Atomic\<close> their specification: slots with atomic pushes, takes and releases.  \<open>FG_Pool_Live\<close> bounds
      the work left in the slots and shows that some thread can go on.
    \<^item> \<open>FG_Double\<close>: the rounding of the type \<open>double\<close>, on rational numbers.
    \<^item> \<open>FG_CDF\<close>, \<open>FG_CDF_Spec\<close> (\<open>client/cdf.c\<close>): loading and inverting the distribution of sizes.
    \<^item> \<open>FG_Statistics\<close>, \<open>FG_Statistics_Spec\<close> (\<open>client/statistics.c\<close>): the table of flows and its summary.
    \<^item> \<open>FG_Client_Configs\<close> (\<open>client/client_configs.c\<close>): the client's command line.
    \<^item> \<open>FG_Client\<close>, \<open>FG_Client_Spec\<close>, \<open>FG_Client_Steps\<close>, \<open>FG_Client_Safe\<close> (\<open>client/client.c\<close>): handlers,
      their effects, the interleavings of the epoll thread with the workers, and what the system
      has to keep to for no step to go wrong.  In these a push and a take are one step;
      \<open>FG_Client_Threads\<close> has the steps of \<open>FG_Pool_Steps\<close> instead and refines them.  \<open>FG_Client_Progress\<close> and
      \<open>FG_Client_Live\<close> show that both finish all flows.  \<open>FG_Client_Counters\<close>
      has the single loads and stores of \<open>active_flows\<close> and \<open>left_flows\<close>.
    \<^item> \<open>FG_Server\<close>, \<open>FG_Server_Steps\<close>, \<open>FG_Server_Safe\<close>, \<open>FG_Server_Threads\<close>, \<open>FG_Server_Live\<close>
      (\<open>server/server.c\<close>, \<open>server/server_configs.c\<close>): the same for the server.
    \<^item> \<open>FG_Threads\<close>, \<open>FG_Programs\<close> (\<open>main\<close> of both programs): thread creation, start, and end.
    \<^item> \<open>FG_End_To_End\<close>: one flow through both programs.


  \<^bold>\<open>What is proved.\<close>  For PIAS: every reachable state of the module has a well-formed table and no call
  accesses memory out of bounds; the hooks and the probe act on the table as on a finite map; priorities
  follow the thresholds; callers on several CPUs act on the table one after the other as long as none deletes from a
  list another is using, no two insert one flow and none clears the table meanwhile, which the code does not ensure: concrete runs use
  freed entries and insert a flow twice; and with a timeout threshold above one the aging meant to prevent starvation never happens.  For the generator:
  transfers are complete and end, requests and numbers round-trip, the table and its summary count
  each flow once, drawn sizes follow the distribution, each handler does what its branches say,
  a flow completes through both programs, in all interleavings the counters are right, and no step
  faults while the system behaves as expected.  The
  contracts between threads are stated exactly: under prompt signals each event is served once, and the
  threads refine the systems with atomic steps; with atomic finishing the threads suffice; with
  exclusive accesses the counters are exact.  Without these, concrete runs show an event served
  twice, an event lost, a client that ends with flows left, and a client that never ends.
  Signals are prompt when the worker of a slot does not start another wait between the unlocking of
  the mutex in \<open>event_push\<close> and the signal that follows, and no wait ends without a signal.  The
  server ends exactly when more responses are due at once than it has threads.  Under prompt signals
  neither program deadlocks: while flows are left some thread of the client can go on, and after at most 12
  steps for each connection and one for each thread all flows are finished; when no new event arrives, the
  server's threads finish all responses handed to them after at most 8 steps for each thread and three more.


  \<^bold>\<open>Bounds.\<close>  Loops over arrays recurse over indexes or lists.  A loop of \<open>read\<close>, \<open>write\<close> or \<open>accept\<close>
  consumes a list of answers; \<open>transfers_end\<close> shows that \<open>n\<close> successful calls are enough for \<open>n\<close> bytes.
  Buffers have the size of the source (65536 bytes, 128 and 16 characters, 65536 sockets, 64 slots).


  \<^bold>\<open>Simplifications.\<close>  A \<open>double\<close> is a rational number; every operation is rounded to the nearest
  double, without wider intermediate results.  Numbers below the normal
  range have fewer bits, as they should; infinities and NaN are left out.  Spinlocks hold no data.  The
  module's handlers run one at a time except in \<open>PIAS_Callers\<close>, where a guarded section is one step, a round
  of a search is one step, memory is sequentially consistent, and addresses are not used again.  In the theories that end in \<open>_Steps\<close> and \<open>_Safe\<close> the epoll thread
  handles one event in one step; the finer steps are in those that end in \<open>_Threads\<close> and in
  \<open>FG_Client_Counters\<close>, which leaves out what does not touch the two counters.
  Memory that is freed is missing afterwards, so that a later access faults.


  \<^bold>\<open>Not modelled.\<close>  Log messages of the kernel module, \<open>perror\<close> output and debug prints, which have no
  effect on the state; sleeping, which is listed as an effect; the script the shell thread runs and
  the tool it starts, which are not part of the repository; the Python script
  \<open>scripts/get_optimal_threshold.py\<close> with its data, Makefiles and documents.
\<close>

end
